(* ===== verification/Prelude.thy ===== *)
theory Prelude
  imports Main "HOL-Library.Word" "HOL-Library.Multiset" "HOL-Library.Char_ord"
    "HOL-Library.List_Lexorder"
begin

text \<open>
  Shared vocabulary of the development.

  \<^item> Go's byte slices and strings are \<open>string\<close> (lists of bytes); \<open>bytes.Compare(a, b) < 0\<close>
    is the lexicographic \<open>a < b\<close>. A CID and an address are compared and used as map keys
    by the code, never inspected, so they are opaque byte strings.
  \<^item> \<open>big.Int\<close> is \<open>int\<close>. A \<open>uint64\<close> whose wrap-around matters is \<open>64 word\<close>; an
    \<open>int64\<close> is an \<open>int\<close> with the wrap-around written out by \<open>i64\<close>.
  \<^item> A Go function with an error result returns \<open>'e + 'a\<close>, \<open>Inl\<close> for the error.
  \<^item> \<open>sort.Slice\<close> is \<open>sort_slice\<close>, and the loop that keeps the best element seen so far is
    \<open>best_loop\<close>; their correctness is proved once, in the locale \<open>strict_weak\<close>.
\<close>

section \<open>Types\<close>

type_synonym bytes = string
type_synonym cid = string
type_synonym address = string
type_synonym epoch = int
type_synonym bigint = int
type_synonym uint64 = "64 word"

abbreviation (input) address_Undef :: address where
  "address_Undef \<equiv> []"

abbreviation (input) cid_Undef :: cid where
  "cid_Undef \<equiv> []"

datatype SigType = SigTypeSecp256k1 | SigTypeBLS | SigTypeOther nat

section \<open>Machine integers\<close>

definition i64 :: "int \<Rightarrow> int" where
  "i64 x = (x + 2 ^ 63) mod 2 ^ 64 - 2 ^ 63"

definition u64 :: "int \<Rightarrow> int" where
  "u64 x = x mod 2 ^ 64"

definition in_i64 :: "int \<Rightarrow> bool" where
  "in_i64 x \<longleftrightarrow> - (2 ^ 63) \<le> x \<and> x < 2 ^ 63"

text \<open>\<open>binary.Write\<close> of a \<open>uint64\<close> in big-endian order.\<close>

definition be64 :: "uint64 \<Rightarrow> bytes" where
  "be64 n = map (\<lambda>i. char_of (unat n div 256 ^ i mod 256)) [7, 6, 5, 4, 3, 2, 1, 0]"

text \<open>Go's integer division truncates towards zero.\<close>

definition go_div :: "int \<Rightarrow> int \<Rightarrow> int" where
  "go_div a b = sgn a * sgn b * (\<bar>a\<bar> div \<bar>b\<bar>)"

section \<open>Slices and maps\<close>

text \<open>\<open>sort.Slice\<close> with a \<open>less\<close> function, as the insertion sort the library runs on short slices.\<close>

fun insert_slice :: "('a \<Rightarrow> 'a \<Rightarrow> bool) \<Rightarrow> 'a \<Rightarrow> 'a list \<Rightarrow> 'a list" where
  "insert_slice lt x [] = [x]"
| "insert_slice lt x (y # ys) = (if lt y x then y # insert_slice lt x ys else x # y # ys)"

fun sort_slice :: "('a \<Rightarrow> 'a \<Rightarrow> bool) \<Rightarrow> 'a list \<Rightarrow> 'a list" where
  "sort_slice lt [] = []"
| "sort_slice lt (x # xs) = insert_slice lt x (sort_slice lt xs)"

text \<open>\<open>best := nil; for x in xs { if best == nil || better(x, best) { best = x } }\<close>\<close>

fun best_loop :: "('a \<Rightarrow> 'a \<Rightarrow> bool) \<Rightarrow> 'a option \<Rightarrow> 'a list \<Rightarrow> 'a option" where
  "best_loop better best [] = best"
| "best_loop better best (x # xs) =
     best_loop better
       (case best of None \<Rightarrow> Some x | Some b \<Rightarrow> if better x b then Some x else Some b) xs"

text \<open>Early return out of a loop: the first error stops it.\<close>

fun res_fold :: "('s \<Rightarrow> 'a \<Rightarrow> 'e + 's) \<Rightarrow> 's \<Rightarrow> 'a list \<Rightarrow> 'e + 's" where
  "res_fold f s [] = Inr s"
| "res_fold f s (x # xs) = (case f s x of Inl e \<Rightarrow> Inl e | Inr s' \<Rightarrow> res_fold f s' xs)"

text \<open>\<open>for _, v := range m\<close>: the values of a map, in some order of its keys.\<close>

definition iteration :: "('k \<rightharpoonup> 'v) \<Rightarrow> 'v list \<Rightarrow> bool" where
  "iteration m vs \<longleftrightarrow> (\<exists>ks. distinct ks \<and> set ks = dom m \<and> map Some vs = map m ks)"

section \<open>Collections of facts\<close>

named_theorems go_int \<open>range and wrap-around facts on the machine integers\<close>
named_theorems slice_simps \<open>facts on the slice operations\<close>

section \<open>Machine integer facts\<close>

lemma i64_id [go_int]: "in_i64 x \<Longrightarrow> i64 x = x"
  by (simp add: i64_def in_i64_def)

lemma i64_wrap: "2 ^ 63 \<le> x \<Longrightarrow> x < 2 ^ 63 + 2 ^ 64 \<Longrightarrow> i64 x = x - 2 ^ 64"
proof -
  assume a: "2 ^ 63 \<le> x" "x < 2 ^ 63 + 2 ^ 64"
  then have "(x + 2 ^ 63) mod 2 ^ 64 = (x + 2 ^ 63 - 2 ^ 64) mod 2 ^ 64" by (intro mod_pos_geq) simp_all
  also have "\<dots> = x + 2 ^ 63 - 2 ^ 64" using a by (intro mod_pos_pos_trivial) simp_all
  finally show ?thesis by (simp add: i64_def)
qed

lemma i64_0 [simp]: "i64 0 = 0"
  by (simp add: i64_def)

lemma i64_range [go_int]: "in_i64 (i64 x)"
  by (simp add: i64_def in_i64_def)

lemma i64_idem [simp]: "i64 (i64 x) = i64 x"
  by (simp add: go_int)

lemma u64_id [go_int]: "0 \<le> x \<Longrightarrow> x < 2 ^ 64 \<Longrightarrow> u64 x = x"
  by (simp add: u64_def)

lemma u64_range [go_int]: "0 \<le> u64 x \<and> u64 x < 2 ^ 64"
  by (simp add: u64_def)

lemma go_div_nonneg [go_int]: "0 \<le> a \<Longrightarrow> 0 < b \<Longrightarrow> go_div a b = a div b"
  by (cases "a = 0") (simp_all add: go_div_def)

lemma unat_Suc64: "(n :: uint64) \<noteq> - 1 \<Longrightarrow> unat (n + 1) = Suc (unat n)"
  by (metis Suc_eq_plus1 add.commute add_eq_0_iff unatSuc)

lemma less_Suc64: "(n :: uint64) \<noteq> - 1 \<Longrightarrow> m < n + 1 \<longleftrightarrow> m \<le> n"
  by (simp add: word_less_nat_alt word_le_nat_alt unat_Suc64 less_Suc_eq_le)

section \<open>Slice facts\<close>

lemma mset_insert_slice [slice_simps]: "mset (insert_slice lt x xs) = add_mset x (mset xs)"
  by (induction xs) auto

lemma mset_sort_slice [slice_simps]: "mset (sort_slice lt xs) = mset xs"
  by (induction xs) (auto simp: slice_simps)

lemma set_sort_slice [simp]: "set (sort_slice lt xs) = set xs"
  by (metis mset_sort_slice set_mset_mset)

lemma length_sort_slice [simp]: "length (sort_slice lt xs) = length xs"
  by (metis mset_sort_slice size_mset)

lemma distinct_sort_slice [simp]: "distinct (sort_slice lt xs) = distinct xs"
  by (metis mset_sort_slice mset_eq_imp_distinct_iff)

lemma sort_slice_Nil_iff [simp]: "sort_slice lt xs = [] \<longleftrightarrow> xs = []"
  by (metis length_0_conv length_sort_slice)

lemma insert_slice_least: "(\<And>y. y \<in> set ys \<Longrightarrow> \<not> lt y x) \<Longrightarrow> insert_slice lt x ys = x # ys"
  by (cases ys) auto

lemma sort_slice_sorted: "sorted_wrt (\<lambda>a b. \<not> lt b a) xs \<Longrightarrow> sort_slice lt xs = xs"
  by (induction xs) (auto simp: insert_slice_least)

lemma iteration_set:
  assumes "iteration m vs"
  shows "set vs = ran m"
proof -
  obtain ks where ks: "set ks = dom m" "map Some vs = map m ks" using assms by (auto simp: iteration_def)
  from arg_cong [OF ks(2), of set] ks(1) have eq: "Some ` set vs = m ` dom m" by simp
  show ?thesis
  proof (rule set_eqI)
    fix x
    have "x \<in> set vs \<longleftrightarrow> Some x \<in> Some ` set vs" by blast
    also have "\<dots> \<longleftrightarrow> Some x \<in> m ` dom m" by (simp only: eq)
    also have "\<dots> \<longleftrightarrow> x \<in> ran m" unfolding ran_def image_iff dom_def by fastforce
    finally show "x \<in> set vs \<longleftrightarrow> x \<in> ran m" .
  qed
qed

lemma iteration_empty [simp]: "iteration Map.empty vs \<longleftrightarrow> vs = []"
  by (auto simp: iteration_def)

lemma iteration_exists:
  assumes "finite (dom m)"
  shows "\<exists>vs. iteration m vs"
proof -
  obtain ks where ks: "distinct ks" "set ks = dom m" using finite_distinct_list [OF assms] by metis
  have "map Some (map (\<lambda>k. the (m k)) ks) = map m ks"
    unfolding list.map_comp by (rule list.map_cong0) (auto simp: ks(2))
  with ks show ?thesis unfolding iteration_def by (intro exI conjI)
qed

lemma best_loop_None_iff [simp]: "best_loop better b xs = None \<longleftrightarrow> b = None \<and> xs = []"
  by (induction xs arbitrary: b) (auto split: option.splits)

lemma best_loop_in: "best_loop better b xs = Some r \<Longrightarrow> b = Some r \<or> r \<in> set xs"
proof (induction xs arbitrary: b)
  case (Cons x xs)
  from Cons.IH [OF Cons.prems [simplified]] show ?case
    by (auto split: option.splits if_splits)
qed simp

text \<open>
  A comparison the code hands to \<open>sort.Slice\<close> or uses to keep a best element is a strict
  weak order on the elements compared: asymmetric, with incomparability transitive.
\<close>

locale strict_weak =
  fixes A :: "'a set" and lt :: "'a \<Rightarrow> 'a \<Rightarrow> bool"
  assumes asym: "x \<in> A \<Longrightarrow> y \<in> A \<Longrightarrow> lt x y \<Longrightarrow> \<not> lt y x"
    and neg_trans: "x \<in> A \<Longrightarrow> y \<in> A \<Longrightarrow> z \<in> A \<Longrightarrow> lt x z \<Longrightarrow> lt x y \<or> lt y z"
begin

lemma irrefl: "x \<in> A \<Longrightarrow> \<not> lt x x"
  using asym by blast

lemma transitive: "x \<in> A \<Longrightarrow> y \<in> A \<Longrightarrow> z \<in> A \<Longrightarrow> lt x y \<Longrightarrow> lt y z \<Longrightarrow> lt x z"
  using asym neg_trans by blast

lemma sorted_insert_slice:
  "insert x (set xs) \<subseteq> A \<Longrightarrow> sorted_wrt (\<lambda>a b. \<not> lt b a) xs \<Longrightarrow>
     sorted_wrt (\<lambda>a b. \<not> lt b a) (insert_slice lt x xs)"
proof (induction xs)
  case (Cons y ys)
  have "set (insert_slice lt x ys) = insert x (set ys)"
    by (metis mset_insert_slice set_mset_add_mset_insert set_mset_mset)
  moreover have "\<not> lt y x \<Longrightarrow> z \<in> set ys \<Longrightarrow> \<not> lt z x" for z
    using Cons.prems neg_trans [of z y x] by auto
  moreover have "lt y x \<Longrightarrow> \<not> lt x y"
    using Cons.prems(1) asym by simp
  ultimately show ?case using Cons by simp
qed simp

lemma sorted_sort_slice: "set xs \<subseteq> A \<Longrightarrow> sorted_wrt (\<lambda>a b. \<not> lt b a) (sort_slice lt xs)"
proof (induction xs)
  case (Cons x xs)
  then show ?case by (simp add: sorted_insert_slice)
qed simp

text \<open>
  Where the order separates the elements, every sorted arrangement of them is the same list:
  the result does not depend on the sorting algorithm or on the order of the input.
\<close>

lemma sorted_unique:
  assumes "mset xs = mset ys" and "set xs \<subseteq> A"
    and "sorted_wrt (\<lambda>a b. \<not> lt b a) xs" and "sorted_wrt (\<lambda>a b. \<not> lt b a) ys"
    and "\<And>a b. a \<in> set xs \<Longrightarrow> b \<in> set xs \<Longrightarrow> \<not> lt a b \<Longrightarrow> \<not> lt b a \<Longrightarrow> a = b"
  shows "xs = ys"
  using assms
proof (induction xs arbitrary: ys)
  case (Cons x xs)
  then obtain y ys' where ys: "ys = y # ys'" by (cases ys) auto
  have "set (x # xs) = set ys" using Cons.prems(1) by (metis set_mset_mset)
  then have "x = y \<or> \<not> lt x y" and "x = y \<or> \<not> lt y x"
    using Cons.prems(3,4) ys by auto
  then have "x = y" using Cons.prems(5) \<open>set (x # xs) = set ys\<close> ys
    by (metis list.set_intros(1))
  moreover have "xs = ys'"
    using Cons.IH [of ys'] Cons.prems ys \<open>x = y\<close> by simp
  ultimately show ?case using ys by simp
qed simp

lemma sort_slice_perm:
  assumes "mset xs = mset ys" and "set xs \<subseteq> A"
    and "\<And>a b. a \<in> set xs \<Longrightarrow> b \<in> set xs \<Longrightarrow> \<not> lt a b \<Longrightarrow> \<not> lt b a \<Longrightarrow> a = b"
  shows "sort_slice lt xs = sort_slice lt ys"
proof (rule sorted_unique)
  have "set xs = set ys" using assms(1) by (metis set_mset_mset)
  then show "sorted_wrt (\<lambda>a b. \<not> lt b a) (sort_slice lt ys)"
    using assms(2) by (simp add: sorted_sort_slice)
qed (use assms in \<open>auto simp: mset_sort_slice sorted_sort_slice\<close>)

text \<open>The best-element loop returns an element that no other beats.\<close>

lemma best_loop_best:
  "best_loop (\<lambda>x b. lt b x) acc xs = Some r \<Longrightarrow> set xs \<subseteq> A \<Longrightarrow> set_option acc \<subseteq> A \<Longrightarrow>
     (\<forall>x \<in> set xs. \<not> lt r x) \<and> (\<forall>a. acc = Some a \<longrightarrow> \<not> lt r a)"
proof (induction xs arbitrary: acc)
  case (Cons y xs)
  define acc' where "acc' = (case acc of None \<Rightarrow> Some y | Some b \<Rightarrow> if lt b y then Some y else Some b)"
  have A: "y \<in> A" "set xs \<subseteq> A" "set_option acc' \<subseteq> A"
    using Cons.prems by (auto simp: acc'_def split: option.splits)
  have r: "best_loop (\<lambda>x b. lt b x) acc' xs = Some r"
    using Cons.prems(1) by (simp add: acc'_def)
  from Cons.IH [OF r A(2,3)] have IH: "\<forall>x \<in> set xs. \<not> lt r x" "\<forall>a. acc' = Some a \<longrightarrow> \<not> lt r a"
    by auto
  have "r \<in> A" using best_loop_in [OF r] A by auto
  show ?case
  proof (cases acc)
    case None
    then show ?thesis using IH by (simp add: acc'_def)
  next
    case (Some a)
    with Cons.prems have "a \<in> A" by simp
    show ?thesis
    proof (cases "lt a y")
      case True
      then have "\<not> lt r y" and "\<not> lt y a"
        using Some IH(2) A(1) \<open>a \<in> A\<close> asym by (auto simp: acc'_def)
      then have "\<not> lt r a" using neg_trans [OF \<open>r \<in> A\<close> A(1) \<open>a \<in> A\<close>] by blast
      with Some IH(1) \<open>\<not> lt r y\<close> show ?thesis by simp
    next
      case False
      then have "\<not> lt r a" using Some IH(2) by (simp add: acc'_def)
      then have "\<not> lt r y" using False neg_trans [OF \<open>r \<in> A\<close> \<open>a \<in> A\<close> A(1)] by blast
      with Some IH(1) \<open>\<not> lt r a\<close> show ?thesis by simp
    qed
  qed
qed (auto simp: irrefl)

end

text \<open>Comparing by a key in a linear order is a strict weak order.\<close>

lemma strict_weak_key: "strict_weak A (\<lambda>x y. (f x :: 'k :: linorder) < f y)"
  by unfold_locales auto

lemma strict_weak_lex:
  fixes f :: "'a \<Rightarrow> 'k :: linorder" and g :: "'a \<Rightarrow> 'l :: linorder"
  assumes "\<And>a b. a \<in> A \<Longrightarrow> b \<in> A \<Longrightarrow> lt a b \<longleftrightarrow> f a < f b \<or> f a = f b \<and> g a < g b"
  shows "strict_weak A lt"
  by unfold_locales (use assms in \<open>auto\<close>)

lemma res_fold_append:
  "res_fold f s (xs @ ys) = (case res_fold f s xs of Inl e \<Rightarrow> Inl e | Inr s' \<Rightarrow> res_fold f s' ys)"
  by (induction xs arbitrary: s) (auto split: sum.splits)

lemma res_fold_inv:
  assumes "res_fold f s xs = Inr s'" and "P s"
    and "\<And>s x s'. x \<in> set xs \<Longrightarrow> P s \<Longrightarrow> f s x = Inr s' \<Longrightarrow> P s'"
  shows "P s'"
  using assms
proof (induction xs arbitrary: s)
  case (Cons x xs)
  then obtain t where t: "f s x = Inr t" "res_fold f t xs = Inr s'" by (auto split: sum.splits)
  with Cons.prems have "P t" by (meson list.set_intros(1))
  with t(2) show ?case by (rule Cons.IH) (meson Cons.prems(3) list.set_intros(2))
qed simp

end
