(* ===== verification/Tipset.thy ===== *)
theory Tipset
  imports Prelude
begin

text \<open>
  Block headers and tipsets: \<open>chain/types/blockheader.go\<close>, \<open>chain/types/tipset.go\<close>.

  The hash \<open>blake2b.Sum256\<close> is a library function and the CID of a header is that hash over
  generated serialisation code; both are fields of the parameter \<open>hash_env\<close>. A nil ticket is
  \<open>None\<close>; dereferencing it in the comparison of two blocks is the error \<open>PanicNilTicket\<close>.
\<close>

section \<open>Data\<close>

record Ticket =
  VRFProof :: bytes

record ElectionProof =
  WinCount :: int
  epVRFProof :: bytes

record BeaconEntry =
  beRound :: uint64
  beData :: bytes

record Signature =
  sigType :: SigType
  sigData :: bytes

record PoStProof =
  postType :: int
  postBytes :: bytes

record BlockHeader =
  bhMiner :: address
  bhTicket :: "Ticket option"
  bhElectionProof :: "ElectionProof option"
  bhBeaconEntries :: "BeaconEntry list"
  bhWinPoStProof :: "PoStProof list"
  bhParents :: "cid list"
  bhParentWeight :: bigint
  bhHeight :: epoch
  bhParentStateRoot :: cid
  bhParentMessageReceipts :: cid
  bhMessages :: cid
  bhBLSAggregate :: "Signature option"
  bhTimestamp :: uint64
  bhBlockSig :: "Signature option"
  bhForkSignaling :: uint64
  bhValidated :: bool

record TipSet =
  tsCids :: "cid list"
  tsBlks :: "BlockHeader list"
  tsHeight :: epoch

record ExpTipSet =
  expCids :: "cid list"
  expBlocks :: "BlockHeader list"
  expHeight :: epoch

record hash_env =
  Sum256 :: "bytes \<Rightarrow> bytes"
  blockCid :: "BlockHeader \<Rightarrow> cid"

section \<open>Operations\<close>

definition LastTicket :: "BlockHeader \<Rightarrow> Ticket option" where
  "LastTicket blk = bhTicket blk"

definition SetValidated :: "BlockHeader \<Rightarrow> BlockHeader" where
  "SetValidated blk = blk\<lparr>bhValidated := True\<rparr>"

definition IsValidated :: "BlockHeader \<Rightarrow> bool" where
  "IsValidated blk = bhValidated blk"

definition Ticket_Equals :: "Ticket \<Rightarrow> Ticket \<Rightarrow> bool" where
  "Ticket_Equals t ot \<longleftrightarrow> VRFProof t = VRFProof ot"

definition Ticket_Less :: "hash_env \<Rightarrow> Ticket \<Rightarrow> Ticket \<Rightarrow> bool" where
  "Ticket_Less E t ot \<longleftrightarrow> Sum256 E (VRFProof t) < Sum256 E (VRFProof ot)"

definition tipsetSortFunc :: "hash_env \<Rightarrow> BlockHeader \<Rightarrow> BlockHeader \<Rightarrow> bool" where
  "tipsetSortFunc E bi bj =
     (case (LastTicket bi, LastTicket bj) of
        (Some ti, Some tj) \<Rightarrow>
          if Ticket_Equals ti tj then blockCid E bi < blockCid E bj else Ticket_Less E ti tj
      | _ \<Rightarrow> False)"

datatype tserr = ErrZeroLength | ErrMismatchingHeights | ErrMismatchingNumberOfParents
  | ErrMismatchingParents | PanicNilTicket

fun parents_loop :: "cid list \<Rightarrow> cid list \<Rightarrow> bool" where
  "parents_loop [] ps = True"
| "parents_loop (c # cs) (p # ps) = (c = p \<and> parents_loop cs ps)"
| "parents_loop (c # cs) [] = False"

fun NewTipSet_loop ::
  "hash_env \<Rightarrow> BlockHeader \<Rightarrow> cid list \<Rightarrow> BlockHeader list \<Rightarrow> tserr + cid list" where
  "NewTipSet_loop E b0 cids [] = Inr cids"
| "NewTipSet_loop E b0 cids (b # bs) =
     (if bhHeight b \<noteq> bhHeight b0 then Inl ErrMismatchingHeights
      else if length (bhParents b0) \<noteq> length (bhParents b) then Inl ErrMismatchingNumberOfParents
      else if \<not> parents_loop (bhParents b) (bhParents b0) then Inl ErrMismatchingParents
      else NewTipSet_loop E b0 (cids @ [blockCid E b]) bs)"

definition NewTipSet :: "hash_env \<Rightarrow> BlockHeader list \<Rightarrow> tserr + TipSet" where
  "NewTipSet E blks =
     (if blks = [] then Inl ErrZeroLength
      else if 2 \<le> length blks \<and> list_ex (\<lambda>b. LastTicket b = None) blks then Inl PanicNilTicket
      else let bs = sort_slice (tipsetSortFunc E) blks; b0 = hd bs in
        case NewTipSet_loop E b0 [blockCid E b0] (tl bs) of
          Inl e \<Rightarrow> Inl e
        | Inr cids \<Rightarrow> Inr \<lparr>tsCids = cids, tsBlks = bs, tsHeight = bhHeight b0\<rparr>)"

definition TipSet_Marshal :: "TipSet \<Rightarrow> ExpTipSet" where
  "TipSet_Marshal ts = \<lparr>expCids = tsCids ts, expBlocks = tsBlks ts, expHeight = tsHeight ts\<rparr>"

definition TipSet_Unmarshal :: "hash_env \<Rightarrow> ExpTipSet \<Rightarrow> tserr + TipSet" where
  "TipSet_Unmarshal E ets = NewTipSet E (expBlocks ets)"

fun TipSet_Equals_loop :: "hash_env \<Rightarrow> BlockHeader list \<Rightarrow> BlockHeader list \<Rightarrow> bool" where
  "TipSet_Equals_loop E [] obs = True"
| "TipSet_Equals_loop E (b # bs) (ob # obs) =
     (if blockCid E b \<noteq> blockCid E ob then False else TipSet_Equals_loop E bs obs)"
| "TipSet_Equals_loop E (b # bs) [] = False"

definition TipSet_Equals :: "hash_env \<Rightarrow> TipSet \<Rightarrow> TipSet \<Rightarrow> bool" where
  "TipSet_Equals E ts ots =
     (if length (tsBlks ts) \<noteq> length (tsBlks ots) then False
      else TipSet_Equals_loop E (tsBlks ts) (tsBlks ots))"

text \<open>\<open>Equals\<close> on pointers, either of which may be nil.\<close>

fun TipSet_Equals_ptr :: "hash_env \<Rightarrow> TipSet option \<Rightarrow> TipSet option \<Rightarrow> bool" where
  "TipSet_Equals_ptr E None None = True"
| "TipSet_Equals_ptr E (Some ts) (Some ots) = TipSet_Equals E ts ots"
| "TipSet_Equals_ptr E _ _ = False"

definition MinTicketBlock :: "hash_env \<Rightarrow> TipSet \<Rightarrow> BlockHeader" where
  "MinTicketBlock E ts =
     the (best_loop (\<lambda>b m. case (LastTicket b, LastTicket m) of
            (Some tb, Some tm) \<Rightarrow> Ticket_Less E tb tm | _ \<Rightarrow> False)
          (Some (hd (tsBlks ts))) (tl (tsBlks ts)))"

definition MinTicket :: "hash_env \<Rightarrow> TipSet \<Rightarrow> Ticket option" where
  "MinTicket E ts = bhTicket (MinTicketBlock E ts)"

definition MinTimestamp :: "TipSet \<Rightarrow> uint64" where
  "MinTimestamp ts =
     fold (\<lambda>bh m. if bhTimestamp bh < m then bhTimestamp bh else m) (tl (tsBlks ts))
       (bhTimestamp (hd (tsBlks ts)))"

definition ParentState :: "TipSet \<Rightarrow> cid" where
  "ParentState ts = bhParentStateRoot (hd (tsBlks ts))"

definition ParentWeight :: "TipSet \<Rightarrow> bigint" where
  "ParentWeight ts = bhParentWeight (hd (tsBlks ts))"

fun Contains_loop :: "cid \<Rightarrow> cid list \<Rightarrow> bool" where
  "Contains_loop oc [] = False"
| "Contains_loop oc (c # cs) = (if c = oc then True else Contains_loop oc cs)"

definition TipSet_Contains :: "TipSet \<Rightarrow> cid \<Rightarrow> bool" where
  "TipSet_Contains ts oc = Contains_loop oc (tsCids ts)"

definition CidArrsEqual :: "cid list \<Rightarrow> cid list \<Rightarrow> bool" where
  "CidArrsEqual a b =
     (if length a \<noteq> length b then False
      else let s = fold (\<lambda>c m. m(c \<mapsto> True)) a Map.empty
           in list_all (\<lambda>c. s c = Some True) b)"

definition CidArrsContains :: "cid list \<Rightarrow> cid \<Rightarrow> bool" where
  "CidArrsContains a b = Contains_loop b a"

section \<open>Invariant\<close>

text \<open>What every tipset built by \<open>NewTipSet\<close> satisfies.\<close>

definition tipset_ok :: "hash_env \<Rightarrow> TipSet \<Rightarrow> bool" where
  "tipset_ok E ts \<longleftrightarrow>
     tsBlks ts \<noteq> [] \<and> tsCids ts = map (blockCid E) (tsBlks ts) \<and>
     list_all (\<lambda>b. bhHeight b = tsHeight ts \<and> bhParents b = bhParents (hd (tsBlks ts))) (tsBlks ts)"

text \<open>The VRF proofs that a list of blocks carries.\<close>

definition vrf_proofs :: "BlockHeader list \<Rightarrow> bytes set" where
  "vrf_proofs blks = {VRFProof t | t b. b \<in> set blks \<and> bhTicket b = Some t}"

section \<open>Lemmas\<close>

lemma parents_loop_eq: "length cs = length ps \<Longrightarrow> parents_loop cs ps \<longleftrightarrow> cs = ps"
  by (induction cs ps rule: parents_loop.induct) auto

lemma NewTipSet_loop_Inr:
  "NewTipSet_loop E b0 cids bs = Inr cids' \<longleftrightarrow>
     cids' = cids @ map (blockCid E) bs \<and>
     (\<forall>b \<in> set bs. bhHeight b = bhHeight b0 \<and> bhParents b = bhParents b0)"
  by (induction bs arbitrary: cids) (auto simp: parents_loop_eq)

lemma TipSet_Equals_loop_iff:
  "length bs = length obs \<Longrightarrow>
     TipSet_Equals_loop E bs obs \<longleftrightarrow> map (blockCid E) bs = map (blockCid E) obs"
  by (induction bs obs rule: list_induct2) auto

lemma TipSet_Equals_iff:
  "TipSet_Equals E ts ots \<longleftrightarrow> map (blockCid E) (tsBlks ts) = map (blockCid E) (tsBlks ots)"
  by (metis TipSet_Equals_def TipSet_Equals_loop_iff length_map)

lemma TipSet_Equals_refl [simp]: "TipSet_Equals E ts ts"
  by (simp add: TipSet_Equals_iff)

lemma TipSet_Equals_sym: "TipSet_Equals E ts ots \<longleftrightarrow> TipSet_Equals E ots ts"
  by (auto simp: TipSet_Equals_iff)

lemma Contains_loop_iff [simp]: "Contains_loop oc cs \<longleftrightarrow> oc \<in> set cs"
  by (induction cs) auto

lemma fold_map_upd_True:
  "fold (\<lambda>c m. m(c \<mapsto> True)) a m c = (if c \<in> set a then Some True else m c)"
  by (induction a arbitrary: m) auto

lemma CidArrsEqual_iff: "CidArrsEqual a b \<longleftrightarrow> length a = length b \<and> set b \<subseteq> set a"
  by (auto simp: CidArrsEqual_def fold_map_upd_True list_all_iff)

text \<open>The sort order of a tipset: by ticket digest, then by CID.\<close>

lemma tipsetSortFunc_key:
  assumes "bhTicket a = Some ta" and "bhTicket b = Some tb"
    and "inj_on (Sum256 E) {VRFProof ta, VRFProof tb}"
  shows "tipsetSortFunc E a b \<longleftrightarrow>
    Sum256 E (VRFProof ta) < Sum256 E (VRFProof tb) \<or>
    Sum256 E (VRFProof ta) = Sum256 E (VRFProof tb) \<and> blockCid E a < blockCid E b"
  using assms
  by (auto simp: tipsetSortFunc_def LastTicket_def Ticket_Equals_def Ticket_Less_def dest: inj_onD)

lemma tipsetSortFunc_strict_weak:
  assumes tk: "\<And>b. b \<in> set blks \<Longrightarrow> bhTicket b \<noteq> None" and inj: "inj_on (Sum256 E) (vrf_proofs blks)"
  shows "strict_weak (set blks) (tipsetSortFunc E)"
proof -
  have key: "tipsetSortFunc E a b \<longleftrightarrow>
      Sum256 E (VRFProof (the (bhTicket a))) < Sum256 E (VRFProof (the (bhTicket b))) \<or>
      Sum256 E (VRFProof (the (bhTicket a))) = Sum256 E (VRFProof (the (bhTicket b))) \<and>
      blockCid E a < blockCid E b"
    if "a \<in> set blks" "b \<in> set blks" for a b
  proof -
    from tk that have "bhTicket a \<noteq> None" "bhTicket b \<noteq> None" by simp_all
    then obtain ta tb where t: "bhTicket a = Some ta" "bhTicket b = Some tb" by fast
    have "{VRFProof ta, VRFProof tb} \<subseteq> vrf_proofs blks"
      using that t by (auto simp: vrf_proofs_def)
    with inj have "inj_on (Sum256 E) {VRFProof ta, VRFProof tb}" by (rule inj_on_subset)
    from tipsetSortFunc_key [OF t this] show ?thesis by (simp only: t option.sel)
  qed
  show ?thesis by (rule strict_weak_lex) (rule key)
qed


lemma vrf_proofs_sort [simp]: "vrf_proofs (sort_slice lt blks) = vrf_proofs blks"
  by (simp add: vrf_proofs_def)

lemma tipsetSortFunc_separates:
  assumes "bhTicket a = Some ta" and "bhTicket b = Some tb"
    and "inj_on (Sum256 E) {VRFProof ta, VRFProof tb}" and "inj_on (blockCid E) {a, b}"
    and "\<not> tipsetSortFunc E a b" and "\<not> tipsetSortFunc E b a"
  shows "a = b"
proof -
  have "inj_on (Sum256 E) {VRFProof tb, VRFProof ta}" using assms(3) by (simp add: insert_commute)
  from tipsetSortFunc_key [OF assms(2,1) this] tipsetSortFunc_key [OF assms(1,2,3)] assms(5,6)
  have "blockCid E a = blockCid E b" by (metis linorder_neqE)
  with assms(4) show ?thesis by (auto dest: inj_onD)
qed

lemma sort_tipset_sorted:
  assumes "length blks < 2 \<or> (\<forall>b \<in> set blks. bhTicket b \<noteq> None)"
    and "inj_on (Sum256 E) (vrf_proofs blks)"
  shows "sorted_wrt (\<lambda>a b. \<not> tipsetSortFunc E b a) (sort_slice (tipsetSortFunc E) blks)"
proof (cases "length blks < 2")
  case True
  then have "length (sort_slice (tipsetSortFunc E) blks) < 2" by simp
  then show ?thesis by (cases "sort_slice (tipsetSortFunc E) blks" rule: remdups_adj.cases) auto
next
  case False
  with assms(1) have "\<And>b. b \<in> set blks \<Longrightarrow> bhTicket b \<noteq> None" by blast
  from strict_weak.sorted_sort_slice [OF tipsetSortFunc_strict_weak [OF this assms(2)]]
  show ?thesis by simp
qed

lemma NewTipSet_characterisation:
  "NewTipSet E blks = Inr ts \<longleftrightarrow>
     blks \<noteq> [] \<and> (length blks < 2 \<or> (\<forall>b \<in> set blks. bhTicket b \<noteq> None)) \<and>
     (\<forall>b \<in> set blks. \<forall>b' \<in> set blks. bhHeight b = bhHeight b' \<and> bhParents b = bhParents b') \<and>
     tsBlks ts = sort_slice (tipsetSortFunc E) blks \<and>
     tsCids ts = map (blockCid E) (tsBlks ts) \<and> tsHeight ts = bhHeight (hd (tsBlks ts))"
    (is "?lhs \<longleftrightarrow> ?rhs")
proof (cases "blks = [] \<or> (2 \<le> length blks \<and> list_ex (\<lambda>b. LastTicket b = None) blks)")
  case True
  then show ?thesis by (auto simp: NewTipSet_def LastTicket_def list_ex_iff)
next
  case False
  define bs where "bs = sort_slice (tipsetSortFunc E) blks"
  have "set bs = set blks" by (simp add: bs_def)
  from False have "bs \<noteq> []" by (simp add: bs_def)
  then obtain b0 bs' where bs: "bs = b0 # bs'" by (cases bs) auto
  have same: "(\<forall>b \<in> set bs'. bhHeight b = bhHeight b0 \<and> bhParents b = bhParents b0) \<longleftrightarrow>
    (\<forall>b \<in> set blks. \<forall>b' \<in> set blks. bhHeight b = bhHeight b' \<and> bhParents b = bhParents b')"
    unfolding \<open>set bs = set blks\<close> [symmetric] bs by auto
  have "NewTipSet E blks = (case NewTipSet_loop E b0 [blockCid E b0] bs' of Inl e \<Rightarrow> Inl e
      | Inr cids \<Rightarrow> Inr \<lparr>tsCids = cids, tsBlks = bs, tsHeight = bhHeight b0\<rparr>)"
    unfolding NewTipSet_def Let_def bs_def [symmetric] using False bs by (auto split: sum.splits)
  then have "?lhs \<longleftrightarrow> (\<forall>b \<in> set bs'. bhHeight b = bhHeight b0 \<and> bhParents b = bhParents b0) \<and>
      ts = \<lparr>tsCids = map (blockCid E) bs, tsBlks = bs, tsHeight = bhHeight b0\<rparr>"
    using bs NewTipSet_loop_Inr [of E b0 "[blockCid E b0]" bs'] by (auto split: sum.splits)
  moreover have "ts = \<lparr>tsCids = map (blockCid E) bs, tsBlks = bs, tsHeight = bhHeight b0\<rparr> \<longleftrightarrow>
      tsBlks ts = bs \<and> tsCids ts = map (blockCid E) (tsBlks ts) \<and> tsHeight ts = bhHeight (hd (tsBlks ts))"
    using bs by (cases ts) auto
  moreover have "blks \<noteq> []" "length blks < 2 \<or> (\<forall>b \<in> set blks. bhTicket b \<noteq> None)"
    using False by (auto simp: LastTicket_def list_ex_iff)
  ultimately show ?thesis unfolding same bs_def [symmetric] by blast
qed

lemma NewTipSet_InrD:
  assumes "NewTipSet E blks = Inr ts"
  shows "blks \<noteq> []" and "length blks < 2 \<or> (\<forall>b \<in> set blks. bhTicket b \<noteq> None)"
    and "b \<in> set blks \<Longrightarrow> b' \<in> set blks \<Longrightarrow> bhHeight b = bhHeight b' \<and> bhParents b = bhParents b'"
    and "tsBlks ts = sort_slice (tipsetSortFunc E) blks"
    and "tsCids ts = map (blockCid E) (tsBlks ts)" and "tsHeight ts = bhHeight (hd (tsBlks ts))"
  using assms unfolding NewTipSet_characterisation by blast+

lemma NewTipSet_ok:
  assumes "NewTipSet E blks = Inr ts"
  shows "tipset_ok E ts"
proof -
  note D = NewTipSet_InrD [OF assms]
  have ne: "tsBlks ts \<noteq> []" using D(1,4) by simp
  moreover have set: "set (tsBlks ts) = set blks" using D(4) by simp
  have "\<forall>b \<in> set (tsBlks ts). bhHeight b = bhHeight (hd (tsBlks ts)) \<and>
      bhParents b = bhParents (hd (tsBlks ts))"
    unfolding set using D(3) hd_in_set [OF ne] unfolding set by blast
  ultimately show ?thesis unfolding tipset_ok_def list_all_iff D(6) using D(5) by blast
qed

lemma NewTipSet_sorted:
  assumes "NewTipSet E blks = Inr ts" and "inj_on (Sum256 E) (vrf_proofs blks)"
  shows "sorted_wrt (\<lambda>a b. \<not> tipsetSortFunc E b a) (tsBlks ts)"
  using sort_tipset_sorted [OF NewTipSet_InrD(2) [OF assms(1)] assms(2)] NewTipSet_InrD(4) [OF assms(1)]
  by simp

lemma NewTipSet_idem:
  assumes "NewTipSet E blks = Inr ts" and "inj_on (Sum256 E) (vrf_proofs blks)"
  shows "NewTipSet E (tsBlks ts) = Inr ts"
proof -
  note D = NewTipSet_InrD [OF assms(1)] and srt = sort_slice_sorted [OF NewTipSet_sorted [OF assms]]
  have eq: "set (tsBlks ts) = set blks" "length (tsBlks ts) = length blks" "tsBlks ts \<noteq> []"
    using D(1,4) by simp_all
  show ?thesis unfolding NewTipSet_characterisation eq srt using D(2,3,5,6) eq(3) by blast
qed

lemma sort_tipset_perm:
  assumes "mset xs = mset ys" and tk: "\<And>b. b \<in> set xs \<Longrightarrow> bhTicket b \<noteq> None"
    and inj: "inj_on (Sum256 E) (vrf_proofs xs)" "inj_on (blockCid E) (set xs)"
  shows "sort_slice (tipsetSortFunc E) xs = sort_slice (tipsetSortFunc E) ys"
proof (rule strict_weak.sort_slice_perm [OF tipsetSortFunc_strict_weak [OF tk inj(1)] assms(1)])
  fix a b assume ab: "a \<in> set xs" "b \<in> set xs"
    and nlt: "\<not> tipsetSortFunc E a b" "\<not> tipsetSortFunc E b a"
  obtain ta tb where t: "bhTicket a = Some ta" "bhTicket b = Some tb"
    using tk [OF ab(1)] tk [OF ab(2)] by fast
  show "a = b"
  proof (rule tipsetSortFunc_separates [OF t _ _ nlt])
    show "inj_on (Sum256 E) {VRFProof ta, VRFProof tb}"
      by (rule inj_on_subset [OF inj(1)]) (use ab t in \<open>auto simp: vrf_proofs_def\<close>)
    show "inj_on (blockCid E) {a, b}"
      by (rule inj_on_subset [OF inj(2)]) (use ab in auto)
  qed
qed simp_all

text \<open>The order of the blocks in a tipset: by ticket digest, then by CID.\<close>

definition ticket_order :: "hash_env \<Rightarrow> BlockHeader \<Rightarrow> BlockHeader \<Rightarrow> bool" where
  "ticket_order E a b \<longleftrightarrow>
     (let da = Sum256 E (VRFProof (the (bhTicket a))); db = Sum256 E (VRFProof (the (bhTicket b)))
      in da < db \<or> da = db \<and> blockCid E a \<le> blockCid E b)"

lemma tipsetSortFunc_order:
  assumes "\<forall>b \<in> set blks. bhTicket b \<noteq> None" "inj_on (Sum256 E) (vrf_proofs blks)" "a \<in> set blks" "b \<in> set blks"
  shows "\<not> tipsetSortFunc E b a \<longleftrightarrow> ticket_order E a b"
proof -
  have "bhTicket a \<noteq> None" "bhTicket b \<noteq> None" using assms(1,3,4) by blast+
  then obtain ta tb where t: "bhTicket a = Some ta" "bhTicket b = Some tb" by fast
  have "{VRFProof tb, VRFProof ta} \<subseteq> vrf_proofs blks" using assms(3,4) t by (auto simp: vrf_proofs_def)
  with assms(2) have "inj_on (Sum256 E) {VRFProof tb, VRFProof ta}" by (rule inj_on_subset)
  from tipsetSortFunc_key [OF t(2,1) this] show ?thesis
    unfolding ticket_order_def Let_def t option.sel by (metis linorder_neqE not_le order.asym order.irrefl)
qed

lemma sort_tipset_iff:
  assumes tk: "length blks < 2 \<or> (\<forall>b \<in> set blks. bhTicket b \<noteq> None)"
    and inj: "inj_on (Sum256 E) (vrf_proofs blks)" "inj_on (blockCid E) (set blks)"
  shows "bs = sort_slice (tipsetSortFunc E) blks \<longleftrightarrow> mset bs = mset blks \<and> sorted_wrt (ticket_order E) bs"
proof (cases "length blks < 2")
  case True
  then consider "blks = []" | b where "blks = [b]" by (cases blks rule: remdups_adj.cases) auto
  then show ?thesis by cases (auto simp: mset_single_iff)
next
  case False
  with tk have tk: "\<forall>b \<in> set blks. bhTicket b \<noteq> None" by blast
  have ord: "sorted_wrt (\<lambda>a b. \<not> tipsetSortFunc E b a) xs \<longleftrightarrow> sorted_wrt (ticket_order E) xs" if "mset xs = mset blks" for xs
  proof -
    have o: "\<not> tipsetSortFunc E b a \<longleftrightarrow> ticket_order E a b" if "a \<in> set xs" "b \<in> set xs" for a b
      using tipsetSortFunc_order [OF tk inj(1)] mset_eq_setD [OF \<open>mset xs = mset blks\<close>] that by blast
    show ?thesis using sorted_wrt_mono_rel [of xs "\<lambda>a b. \<not> tipsetSortFunc E b a" "ticket_order E"]
        sorted_wrt_mono_rel [of xs "ticket_order E" "\<lambda>a b. \<not> tipsetSortFunc E b a"] o by blast
  qed
  show ?thesis
  proof
    assume bs: "bs = sort_slice (tipsetSortFunc E) blks"
    then have "mset bs = mset blks" by (simp add: mset_sort_slice)
    with ord sort_tipset_sorted [OF _ inj(1)] tk bs show "mset bs = mset blks \<and> sorted_wrt (ticket_order E) bs" by simp
  next
    assume bs: "mset bs = mset blks \<and> sorted_wrt (ticket_order E) bs"
    then have "sort_slice (tipsetSortFunc E) bs = bs" using ord by (simp add: sort_slice_sorted)
    with sort_tipset_perm [of blks bs E] bs tk inj show "bs = sort_slice (tipsetSortFunc E) blks" by simp
  qed
qed

section \<open>A concrete environment for the witnesses\<close>

definition wit_env :: hash_env where
  "wit_env = \<lparr>Sum256 = id, blockCid = bhMiner\<rparr>"

definition wit_block :: "address \<Rightarrow> bytes \<Rightarrow> cid list \<Rightarrow> epoch \<Rightarrow> bigint \<Rightarrow> BlockHeader" where
  "wit_block m t ps h w =
     \<lparr>bhMiner = m, bhTicket = Some \<lparr>VRFProof = t\<rparr>, bhElectionProof = None, bhBeaconEntries = [],
      bhWinPoStProof = [], bhParents = ps, bhParentWeight = w, bhHeight = h,
      bhParentStateRoot = ''s'', bhParentMessageReceipts = ''r'', bhMessages = ''m'',
      bhBLSAggregate = None, bhTimestamp = 0, bhBlockSig = None, bhForkSignaling = 0,
      bhValidated = False\<rparr>"

definition wit_ts :: TipSet where
  "wit_ts = \<lparr>tsCids = [''x'', ''y''], tsBlks = [wit_block ''x'' ''1'' [''g''] 5 7, wit_block ''y'' ''2'' [''g''] 5 7],
     tsHeight = 5\<rparr>"

lemma wit_NewTipSet:
  "NewTipSet wit_env [wit_block ''y'' ''2'' [''g''] 5 7, wit_block ''x'' ''1'' [''g''] 5 7] = Inr wit_ts"
  by (simp add: NewTipSet_def wit_env_def wit_block_def wit_ts_def LastTicket_def tipsetSortFunc_def
      Ticket_Equals_def Ticket_Less_def list_less_def)

lemma wit_blockCid [simp]: "blockCid wit_env (wit_block m t ps h w) = m"
  by (simp add: wit_env_def wit_block_def)

lemma wit_inj [simp]: "inj_on (Sum256 wit_env) A"
  by (simp add: wit_env_def)

section \<open>Properties\<close>

text \<open>
  C21. \<open>NewTipSet\<close> succeeds exactly on a non-empty list of blocks that agree on height and
  parents and that carry tickets (a single block needs none); the tipset then holds exactly these
  blocks, by rising digest of their tickets and, for the same digest, by rising CID, with their
  CIDs in the same order and their height, and it is the only tipset that does. Tickets and
  blocks at hand are taken not to collide under the hashes.
\<close>

theorem NewTipSet_functional:
  assumes "inj_on (Sum256 E) (vrf_proofs blks)" and "inj_on (blockCid E) (set blks)"
  shows "NewTipSet E blks = Inr ts \<longleftrightarrow>
     blks \<noteq> [] \<and> (length blks < 2 \<or> list_all (\<lambda>b. bhTicket b \<noteq> None) blks) \<and>
     list_all (\<lambda>b. list_all (\<lambda>b'. bhHeight b = bhHeight b' \<and> bhParents b = bhParents b') blks) blks \<and>
     mset (tsBlks ts) = mset blks \<and> sorted_wrt (ticket_order E) (tsBlks ts) \<and>
     tsCids ts = map (blockCid E) (tsBlks ts) \<and> list_all (\<lambda>b. tsHeight ts = bhHeight b) blks"
  (is "?lhs \<longleftrightarrow> ?ne \<and> ?tk \<and> ?agree \<and> ?perm \<and> ?sorted \<and> ?cids \<and> ?height")
proof -
  have "?lhs \<longleftrightarrow> ?ne \<and> ?tk \<and> ?agree \<and> tsBlks ts = sort_slice (tipsetSortFunc E) blks \<and> ?cids \<and>
      tsHeight ts = bhHeight (hd (tsBlks ts))"
    unfolding NewTipSet_characterisation by (simp add: list_all_iff)
  moreover have "tsBlks ts = sort_slice (tipsetSortFunc E) blks \<longleftrightarrow> ?perm \<and> ?sorted" if "?tk"
    using sort_tipset_iff [OF _ assms, of "tsBlks ts"] that by (simp add: list_all_iff)
  moreover have "tsHeight ts = bhHeight (hd (tsBlks ts)) \<longleftrightarrow> ?height" if "?ne" "?agree" "?perm"
  proof -
    have "set (tsBlks ts) = set blks" using that(3) by (rule mset_eq_setD)
    with that(1) have "hd (tsBlks ts) \<in> set blks" by (metis hd_in_set set_empty)
    with that(2) show ?thesis unfolding list_all_iff by metis
  qed
  ultimately show ?thesis by argo
qed

theorem NewTipSet_functional_witness:
  "mset (tsBlks wit_ts) = mset [wit_block ''y'' ''2'' [''g''] 5 7, wit_block ''x'' ''1'' [''g''] 5 7] \<and>
   sorted_wrt (ticket_order wit_env) (tsBlks wit_ts) \<and> tsCids wit_ts = [''x'', ''y'']"
  using NewTipSet_functional [OF wit_inj, of "[wit_block ''y'' ''2'' [''g''] 5 7, wit_block ''x'' ''1'' [''g''] 5 7]" wit_ts]
    wit_NewTipSet by (simp add: inj_on_def) (simp add: wit_ts_def)

text \<open>
  C22. The tipset, and so its key, does not depend on the order in which the blocks arrive:
  on any rearrangement of the same blocks \<open>NewTipSet\<close> returns the same tipset or the same
  error, as long as no two of the tickets and no two of the blocks collide under the hash.
\<close>

theorem NewTipSet_order_independent:
  assumes "mset xs = mset ys"
    and "inj_on (Sum256 E) (vrf_proofs xs)" and "inj_on (blockCid E) (set xs)"
  shows "NewTipSet E xs = NewTipSet E ys"
proof -
  have len: "length ys = length xs" using assms(1) by (metis size_mset)
  have set: "set ys = set xs" using assms(1) by (metis set_mset_mset)
  have nil: "ys = [] \<longleftrightarrow> xs = []" using len by (metis length_0_conv)
  consider "length xs < 2" | "2 \<le> length xs" "\<exists>b \<in> set xs. LastTicket b = None"
    | "\<forall>b \<in> set xs. LastTicket b \<noteq> None" by fastforce
  then show ?thesis
  proof cases
    case 1
    with assms(1) have "xs = ys" by (cases xs rule: remdups_adj.cases) auto
    then show ?thesis by simp
  next
    case 2
    then show ?thesis unfolding NewTipSet_def list_ex_iff len set nil by simp
  next
    case 3
    with sort_tipset_perm [OF assms(1) _ assms(2,3)]
    have "sort_slice (tipsetSortFunc E) xs = sort_slice (tipsetSortFunc E) ys"
      by (simp add: LastTicket_def)
    then show ?thesis unfolding NewTipSet_def list_ex_iff len set nil by (simp only:)
  qed
qed

theorem NewTipSet_order_independent_witness:
  "NewTipSet wit_env [wit_block ''x'' ''1'' [''g''] 5 7, wit_block ''y'' ''2'' [''g''] 5 7] = Inr wit_ts"
  using NewTipSet_order_independent
      [of "[wit_block ''x'' ''1'' [''g''] 5 7, wit_block ''y'' ''2'' [''g''] 5 7]"
        "[wit_block ''y'' ''2'' [''g''] 5 7, wit_block ''x'' ''1'' [''g''] 5 7]" wit_env]
  by (auto simp: wit_NewTipSet)

text \<open>
  C23. The block with the smallest ticket, from which the next round draws its randomness, is
  the first block of the tipset: the scan of \<open>MinTicketBlock\<close> agrees with the sort order.
\<close>

theorem MinTicketBlock_first:
  assumes "NewTipSet E blks = Inr ts" and "inj_on (Sum256 E) (vrf_proofs blks)"
  shows "MinTicketBlock E ts = hd (tsBlks ts)"
proof -
  have less: "tipsetSortFunc E b m"
    if "(case (LastTicket b, LastTicket m) of (Some tb, Some tm) \<Rightarrow> Ticket_Less E tb tm | _ \<Rightarrow> False)"
    for b m
    using that by (auto simp: tipsetSortFunc_def Ticket_Less_def Ticket_Equals_def split: option.splits)
  have "best_loop better (Some m) bs = Some m" if "\<And>b. b \<in> set bs \<Longrightarrow> \<not> better b m"
    for better :: "BlockHeader \<Rightarrow> BlockHeader \<Rightarrow> bool" and m bs
    using that by (induction bs) auto
  moreover have "\<not> tipsetSortFunc E b (hd (tsBlks ts))" if "b \<in> set (tl (tsBlks ts))" for b
    using NewTipSet_sorted [OF assms] that by (cases "tsBlks ts") auto
  ultimately show ?thesis
    unfolding MinTicketBlock_def by (metis (no_types, lifting) less option.sel)
qed

theorem MinTicketBlock_first_witness:
  "MinTicketBlock wit_env wit_ts = wit_block ''x'' ''1'' [''g''] 5 7"
  using MinTicketBlock_first [OF wit_NewTipSet wit_inj] by (simp add: wit_ts_def)

text \<open>
  Decoding what was marshalled from a tipset gives the same tipset: the re-sort in the
  decoder does not move any block.
\<close>

theorem TipSet_marshal_roundtrip:
  assumes "NewTipSet E blks = Inr ts" and "inj_on (Sum256 E) (vrf_proofs blks)"
  shows "TipSet_Unmarshal E (TipSet_Marshal ts) = Inr ts"
  using NewTipSet_idem [OF assms] by (simp add: TipSet_Unmarshal_def TipSet_Marshal_def)

theorem TipSet_marshal_roundtrip_witness:
  "TipSet_Unmarshal wit_env (TipSet_Marshal wit_ts) = Inr wit_ts"
  using TipSet_marshal_roundtrip [OF wit_NewTipSet wit_inj] .

text \<open>
  C24. \<open>CidArrsEqual\<close>, the comparison that ignores order, decides equality up to order when
  the second list has no duplicate; with a duplicate it accepts lists that differ.
\<close>

theorem CidArrsEqual_spec:
  "(distinct b \<longrightarrow> (CidArrsEqual a b \<longleftrightarrow> mset a = mset b)) \<and> CidArrsEqual [x, y] [x, x]"
proof -
  have "mset a = mset b" if d: "distinct b" and l: "length a = length b" and s: "set b \<subseteq> set a"
  proof -
    have "card (set a) \<le> card (set b)" using l card_length [of a] distinct_card [OF d] by simp
    with s have eq: "set b = set a" by (simp add: card_seteq)
    then have "distinct a" using l distinct_card [OF d] by (metis card_distinct)
    with d eq show ?thesis using set_eq_iff_mset_eq_distinct by blast
  qed
  moreover have "length a = length b \<and> set b \<subseteq> set a" if "mset a = mset b"
    using that by (metis set_mset_mset size_mset subset_refl)
  ultimately show ?thesis unfolding CidArrsEqual_iff by auto
qed

theorem CidArrsEqual_spec_witness:
  "CidArrsEqual [''b'', ''a''] [''a'', ''b''] \<and> mset [''b'', ''a''] = mset [''a'', ''b'' :: cid]"
  using CidArrsEqual_spec [of "[''a'', ''b'']" "[''b'', ''a'']"] by simp

end
