(* ===== verification/Message.thy ===== *)
theory Message
  imports Tipset
begin

text \<open>
  Messages: \<open>chain/types/message.go\<close>, \<open>chain/types/signedmessage.go\<close>, and the constants of
  \<open>build/params_shared_vals.go\<close> and \<open>chain/types/bigint.go\<close> they are checked against.

  A \<open>BigInt\<close> whose inner pointer is nil (\<open>types.EmptyInt\<close>) is \<open>None\<close>; reading it is the error
  \<open>PanicNilInt\<close>. Serialisation and hashing are the parameter \<open>msg_env\<close>.
\<close>

section \<open>Data\<close>

record Message =
  msgVersion :: int
  msgTo :: address
  msgFrom :: address
  msgNonce :: uint64
  msgValue :: "bigint option"
  msgGasPrice :: "bigint option"
  msgGasLimit :: int
  msgMethod :: uint64
  msgParams :: bytes

record SignedMessage =
  smMessage :: Message
  smSignature :: Signature

record msg_env =
  msgSerialize :: "Message \<Rightarrow> bytes"
  smSerialize :: "SignedMessage \<Rightarrow> string + bytes"
  cidSum :: "bytes \<Rightarrow> cid"

definition FilBase :: int where "FilBase = 2000000000"
definition FilecoinPrecision :: int where "FilecoinPrecision = 1000000000000000000"
definition BlockGasLimit :: int where "BlockGasLimit = 7500000000"

section \<open>Operations\<close>

text \<open>\<open>NewInt(uint64(i))\<close> for an \<open>int64\<close> argument, and the value of a set \<open>BigInt\<close>.\<close>

definition NewInt :: "int \<Rightarrow> bigint" where
  "NewInt i = u64 i"

definition bigOf :: "bigint option \<Rightarrow> bigint" where
  "bigOf b = (case b of None \<Rightarrow> 0 | Some v \<Rightarrow> v)"

definition FromFil :: "int \<Rightarrow> bigint" where
  "FromFil i = NewInt i * NewInt FilecoinPrecision"

definition TotalFilecoinInt :: bigint where
  "TotalFilecoinInt = FromFil FilBase"

definition RequiredFunds :: "Message \<Rightarrow> bigint" where
  "RequiredFunds m = bigOf (msgGasPrice m) * NewInt (msgGasLimit m)"

datatype incl_err = ErrVersion | ErrEmptyTo | ErrEmptyFrom | ErrNegativeValueField | ErrValueTooBig
  | ErrNegativeGasPrice | ErrGasLimitTooBig | ErrGasLimitTooSmall | PanicNilInt

definition ValidForBlockInclusion :: "Message \<Rightarrow> int \<Rightarrow> incl_err + unit" where
  "ValidForBlockInclusion m minGas =
     (if msgVersion m \<noteq> 0 then Inl ErrVersion
      else if msgTo m = address_Undef then Inl ErrEmptyTo
      else if msgFrom m = address_Undef then Inl ErrEmptyFrom
      else case msgValue m of None \<Rightarrow> Inl PanicNilInt
      | Some value \<Rightarrow>
        if value < 0 then Inl ErrNegativeValueField
        else if value > TotalFilecoinInt then Inl ErrValueTooBig
        else case msgGasPrice m of None \<Rightarrow> Inl PanicNilInt
        | Some price \<Rightarrow>
          if price < 0 then Inl ErrNegativeGasPrice
          else if msgGasLimit m > BlockGasLimit then Inl ErrGasLimitTooBig
          else if msgGasLimit m < minGas then Inl ErrGasLimitTooSmall
          else Inr ())"

definition Message_Cid :: "msg_env \<Rightarrow> Message \<Rightarrow> cid" where
  "Message_Cid M m = cidSum M (msgSerialize M m)"

definition Message_ChainLength :: "msg_env \<Rightarrow> Message \<Rightarrow> int" where
  "Message_ChainLength M m = int (length (msgSerialize M m))"

definition Message_Equals :: "msg_env \<Rightarrow> Message \<Rightarrow> Message \<Rightarrow> bool" where
  "Message_Equals M m o1 \<longleftrightarrow> Message_Cid M m = Message_Cid M o1"

text \<open>
  The CID of a signed message: a BLS signature is left out, since blocks carry one aggregate.
  A serialisation error panics (\<open>None\<close>).
\<close>

definition SignedMessage_Cid :: "msg_env \<Rightarrow> SignedMessage \<Rightarrow> cid option" where
  "SignedMessage_Cid M sm =
     (if sigType (smSignature sm) = SigTypeBLS then Some (Message_Cid M (smMessage sm))
      else case smSerialize M sm of Inl _ \<Rightarrow> None | Inr data \<Rightarrow> Some (cidSum M data))"

definition SignedMessage_ChainLength :: "msg_env \<Rightarrow> SignedMessage \<Rightarrow> int option" where
  "SignedMessage_ChainLength M sm =
     (case smSerialize M sm of Inl _ \<Rightarrow> None | Inr ser \<Rightarrow> Some (int (length ser)))"

definition SignedMessage_Size :: "msg_env \<Rightarrow> SignedMessage \<Rightarrow> int" where
  "SignedMessage_Size M sm =
     (case smSerialize M sm of Inl _ \<Rightarrow> 0 | Inr ser \<Rightarrow> int (length ser))"

section \<open>Lemmas\<close>

lemma TotalFilecoinInt_eq: "TotalFilecoinInt = 2 * 10 ^ 27"
  by (simp add: TotalFilecoinInt_def FromFil_def NewInt_def u64_def FilBase_def FilecoinPrecision_def)

lemma RequiredFunds_nonneg_limit:
  "0 \<le> msgGasLimit m \<Longrightarrow> in_i64 (msgGasLimit m) \<Longrightarrow>
     RequiredFunds m = bigOf (msgGasPrice m) * msgGasLimit m"
  by (simp add: RequiredFunds_def NewInt_def u64_def in_i64_def)

lemma ValidForBlockInclusion_iff:
  "ValidForBlockInclusion m minGas = Inr () \<longleftrightarrow>
     msgVersion m = 0 \<and> msgTo m \<noteq> address_Undef \<and> msgFrom m \<noteq> address_Undef \<and>
     (\<exists>v p. msgValue m = Some v \<and> msgGasPrice m = Some p \<and> 0 \<le> v \<and> v \<le> TotalFilecoinInt \<and> 0 \<le> p) \<and>
     minGas \<le> msgGasLimit m \<and> msgGasLimit m \<le> BlockGasLimit"
  by (auto simp: ValidForBlockInclusion_def split: option.splits)

section \<open>Properties\<close>

text \<open>
  A message that is valid for block inclusion costs at most the block gas limit times its
  price: the funds required for gas are computed without wrap-around and are bounded.
\<close>

theorem RequiredFunds_bounded:
  assumes "ValidForBlockInclusion m minGas = Inr ()" and "0 \<le> minGas"
  shows "RequiredFunds m = bigOf (msgGasPrice m) * msgGasLimit m \<and>
    0 \<le> RequiredFunds m \<and> RequiredFunds m \<le> bigOf (msgGasPrice m) * BlockGasLimit"
proof -
  from assms have b: "0 \<le> msgGasLimit m" "msgGasLimit m \<le> BlockGasLimit" "0 \<le> bigOf (msgGasPrice m)"
    by (auto simp: ValidForBlockInclusion_iff bigOf_def)
  then have "in_i64 (msgGasLimit m)" by (simp add: in_i64_def BlockGasLimit_def)
  with b show ?thesis by (simp add: RequiredFunds_nonneg_limit mult_left_mono)
qed

definition wit_msg :: "address \<Rightarrow> address \<Rightarrow> uint64 \<Rightarrow> bigint \<Rightarrow> bigint \<Rightarrow> int \<Rightarrow> uint64 \<Rightarrow> Message" where
  "wit_msg from to n v p l meth =
     \<lparr>msgVersion = 0, msgTo = to, msgFrom = from, msgNonce = n, msgValue = Some v,
      msgGasPrice = Some p, msgGasLimit = l, msgMethod = meth, msgParams = []\<rparr>"

theorem RequiredFunds_bounded_witness: "RequiredFunds (wit_msg ''05'' ''09'' 0 3 2 1000000 0) = 2000000"
  using RequiredFunds_bounded [of "wit_msg ''05'' ''09'' 0 3 2 1000000 0" 100]
  by (simp add: ValidForBlockInclusion_iff wit_msg_def TotalFilecoinInt_eq BlockGasLimit_def bigOf_def)

end
