(* ===== verification/Gas.thy ===== *)
theory Gas
  imports Message
begin

text \<open>
  Gas prices and charges: \<open>chain/vm/gas.go\<close>, \<open>chain/vm/gas_v0.go\<close> and the gas meter of
  \<open>chain/vm/runtime.go\<close>. Amounts are \<open>int64\<close>: every sum and product is wrapped by \<open>i64\<close>. The
  \<open>Extra\<close> field of a charge is only traced and is left out.
\<close>

section \<open>Charges\<close>

record GasCharge =
  gcName :: string
  ComputeGas :: int
  StorageGas :: int
  VirtualCompute :: int
  VirtualStorage :: int

definition GasStorageMulti :: int where "GasStorageMulti = 1000"
definition GasComputeMulti :: int where "GasComputeMulti = 1"

definition Total :: "GasCharge \<Rightarrow> int" where
  "Total g = i64 (i64 (ComputeGas g * GasComputeMulti) + i64 (StorageGas g * GasStorageMulti))"

definition newGasCharge :: "string \<Rightarrow> int \<Rightarrow> int \<Rightarrow> GasCharge" where
  "newGasCharge name computeGas storageGas =
     \<lparr>gcName = name, ComputeGas = computeGas, StorageGas = storageGas,
      VirtualCompute = 0, VirtualStorage = 0\<rparr>"

definition WithVirtual :: "GasCharge \<Rightarrow> int \<Rightarrow> int \<Rightarrow> GasCharge" where
  "WithVirtual g compute storage = g\<lparr>VirtualCompute := compute, VirtualStorage := storage\<rparr>"

section \<open>Price list\<close>

datatype RegisteredPoStProof = StackedDrgWindow512MiBV1 | StackedDrgWindow32GiBV1
  | StackedDrgWindow64GiBV1 | PoStProofOther nat

record scalingCost =
  scFlat :: int
  scScale :: int

record pricelistV0 =
  onChainMessageComputeBase :: int
  onChainMessageStorageBase :: int
  onChainMessageStoragePerByte :: int
  onChainReturnValuePerByte :: int
  sendBase :: int
  sendTransferFunds :: int
  sendTransferOnlyPremium :: int
  sendInvokeMethod :: int
  ipldGetBase :: int
  ipldPutBase :: int
  ipldPutPerByte :: int
  createActorCompute :: int
  createActorStorage :: int
  deleteActorPrice :: int
  verifySignature :: "SigType \<rightharpoonup> int"
  hashingBase :: int
  computeUnsealedSectorCidBase :: int
  verifySealBase :: int
  verifyPostLookup :: "RegisteredPoStProof \<rightharpoonup> scalingCost"
  verifyConsensusFault :: int

definition OnChainMessage :: "pricelistV0 \<Rightarrow> int \<Rightarrow> GasCharge" where
  "OnChainMessage pl msgSize =
     newGasCharge ''OnChainMessage'' (onChainMessageComputeBase pl)
       (i64 (onChainMessageStorageBase pl + i64 (onChainMessageStoragePerByte pl * msgSize)))"

definition OnChainReturnValue :: "pricelistV0 \<Rightarrow> int \<Rightarrow> GasCharge" where
  "OnChainReturnValue pl dataSize =
     newGasCharge ''OnChainReturnValue'' 0 (i64 (dataSize * onChainReturnValuePerByte pl))"

definition MethodSend :: uint64 where "MethodSend = 0"

definition OnMethodInvocation :: "pricelistV0 \<Rightarrow> bigint \<Rightarrow> uint64 \<Rightarrow> GasCharge" where
  "OnMethodInvocation pl value methodNum =
     (let ret = sendBase pl;
          ret = (if value \<noteq> 0
                 then let ret = i64 (ret + sendTransferFunds pl)
                      in if methodNum = MethodSend then i64 (ret + sendTransferOnlyPremium pl) else ret
                 else ret);
          ret = (if methodNum \<noteq> MethodSend then i64 (ret + sendInvokeMethod pl) else ret)
      in newGasCharge ''OnMethodInvocation'' ret 0)"

definition OnIpldGet :: "pricelistV0 \<Rightarrow> GasCharge" where
  "OnIpldGet pl = newGasCharge ''OnIpldGet'' (ipldGetBase pl) 0"

definition OnIpldPut :: "pricelistV0 \<Rightarrow> int \<Rightarrow> GasCharge" where
  "OnIpldPut pl dataSize = newGasCharge ''OnIpldPut'' (ipldPutBase pl) (i64 (dataSize * ipldPutPerByte pl))"

definition OnCreateActor :: "pricelistV0 \<Rightarrow> GasCharge" where
  "OnCreateActor pl = newGasCharge ''OnCreateActor'' (createActorCompute pl) (createActorStorage pl)"

definition OnDeleteActor :: "pricelistV0 \<Rightarrow> GasCharge" where
  "OnDeleteActor pl = newGasCharge ''OnDeleteActor'' 0 (deleteActorPrice pl)"

definition OnVerifySignature :: "pricelistV0 \<Rightarrow> SigType \<Rightarrow> int \<Rightarrow> unit + GasCharge" where
  "OnVerifySignature pl sigTy planTextSize =
     (case verifySignature pl sigTy of
        None \<Rightarrow> Inl () | Some cost \<Rightarrow> Inr (newGasCharge ''OnVerifySignature'' cost 0))"

definition OnHashing :: "pricelistV0 \<Rightarrow> int \<Rightarrow> GasCharge" where
  "OnHashing pl dataSize = newGasCharge ''OnHashing'' (hashingBase pl) 0"

definition OnComputeUnsealedSectorCid :: "pricelistV0 \<Rightarrow> GasCharge" where
  "OnComputeUnsealedSectorCid pl =
     newGasCharge ''OnComputeUnsealedSectorCid'' (computeUnsealedSectorCidBase pl) 0"

definition OnVerifySeal :: "pricelistV0 \<Rightarrow> GasCharge" where
  "OnVerifySeal pl = newGasCharge ''OnVerifySeal'' (verifySealBase pl) 0"

text \<open>
  \<open>OnVerifyPost\<close> on the list of proof types of the message and the number of challenged
  sectors; with no proof the type is the zero value \<open>proofType0\<close>. A missing entry of the
  fallback type is the zero cost.
\<close>

definition OnVerifyPost ::
  "pricelistV0 \<Rightarrow> RegisteredPoStProof \<Rightarrow> RegisteredPoStProof list \<Rightarrow> int \<Rightarrow> GasCharge" where
  "OnVerifyPost pl proofType0 proofs challenged =
     (let proofType = (case proofs of [] \<Rightarrow> proofType0 | p # _ \<Rightarrow> p);
          cost = (case verifyPostLookup pl proofType of
                    Some c \<Rightarrow> c
                  | None \<Rightarrow> (case verifyPostLookup pl StackedDrgWindow512MiBV1 of
                               Some c \<Rightarrow> c | None \<Rightarrow> \<lparr>scFlat = 0, scScale = 0\<rparr>));
          gasUsed = i64 (scFlat cost + i64 (challenged * scScale cost))
      in newGasCharge ''OnVerifyPost'' (go_div gasUsed 2) 0)"

definition OnVerifyConsensusFault :: "pricelistV0 \<Rightarrow> GasCharge" where
  "OnVerifyConsensusFault pl = newGasCharge ''OnVerifyConsensusFault'' (verifyConsensusFault pl) 0"

definition price0 :: pricelistV0 where
  "price0 =
     \<lparr>onChainMessageComputeBase = 137137, onChainMessageStorageBase = 36,
      onChainMessageStoragePerByte = 1, onChainReturnValuePerByte = 1,
      sendBase = 97236, sendTransferFunds = 96812, sendTransferOnlyPremium = 347806,
      sendInvokeMethod = - 3110, ipldGetBase = 417230, ipldPutBase = 396100, ipldPutPerByte = 1,
      createActorCompute = 750011, createActorStorage = 36 + 40, deleteActorPrice = - (36 + 40),
      verifySignature = [SigTypeBLS \<mapsto> 219946580, SigTypeSecp256k1 \<mapsto> 6726720],
      hashingBase = 110685, computeUnsealedSectorCidBase = 431890, verifySealBase = 2000,
      verifyPostLookup =
        [StackedDrgWindow512MiBV1 \<mapsto> \<lparr>scFlat = 106102820, scScale = 10238878\<rparr>,
         StackedDrgWindow32GiBV1 \<mapsto> \<lparr>scFlat = 1165718059, scScale = 166657\<rparr>,
         StackedDrgWindow64GiBV1 \<mapsto> \<lparr>scFlat = 1165718059, scScale = 166657\<rparr>],
      verifyConsensusFault = 495422\<rparr>"

text \<open>The table of price lists, as the entries that iterating the Go map yields.\<close>

definition prices :: "(epoch \<times> pricelistV0) list" where
  "prices = [(0, price0)]"

fun PricelistByEpoch_loop :: "epoch \<Rightarrow> epoch \<times> 'p option \<Rightarrow> (epoch \<times> 'p) list \<Rightarrow> epoch \<times> 'p option" where
  "PricelistByEpoch_loop epoch best [] = best"
| "PricelistByEpoch_loop epoch best ((e, pl) # tbl) =
     PricelistByEpoch_loop epoch (if e > fst best \<and> e \<le> epoch then (e, Some pl) else best) tbl"

text \<open>\<open>None\<close> is the panic for a table without prices.\<close>

definition PricelistByEpoch :: "(epoch \<times> 'p) list \<Rightarrow> epoch \<Rightarrow> 'p option" where
  "PricelistByEpoch tbl epoch = snd (PricelistByEpoch_loop epoch (0, map_of tbl 0) tbl)"

section \<open>Lemmas\<close>

lemma Total_newGasCharge [simp]: "Total (newGasCharge n c s) = i64 (i64 c + i64 (s * 1000))"
  by (simp add: Total_def newGasCharge_def GasComputeMulti_def GasStorageMulti_def)

lemma Total_in_i64 [simp]: "in_i64 (Total g)"
  by (simp add: Total_def in_i64_def i64_def)

lemma PricelistByEpoch_loop_spec:
  "PricelistByEpoch_loop epoch (e0, b) tbl = (e, r) \<Longrightarrow>
     e0 \<le> e \<and> (\<forall>(e', pl) \<in> set tbl. e' \<le> epoch \<longrightarrow> e' \<le> e) \<and>
     (e = e0 \<and> r = b \<or> e0 < e \<and> e \<le> epoch \<and> (\<exists>pl. r = Some pl \<and> (e, pl) \<in> set tbl))"
proof (induction tbl arbitrary: e0 b)
  case (Cons a tbl)
  obtain ea pa where a: "a = (ea, pa)" by (cases a)
  show ?case
  proof (cases "ea > e0 \<and> ea \<le> epoch")
    case True
    with Cons.prems have "PricelistByEpoch_loop epoch (ea, Some pa) tbl = (e, r)" by (simp add: a)
    from Cons.IH [OF this] True show ?thesis by (auto simp: a)
  next
    case False
    with Cons.prems have "PricelistByEpoch_loop epoch (e0, b) tbl = (e, r)" by (auto simp: a)
    from Cons.IH [OF this] False show ?thesis by (auto simp: a)
  qed
qed simp

lemma PricelistByEpoch_prices [simp]: "PricelistByEpoch prices epoch = Some price0"
  by (simp add: PricelistByEpoch_def prices_def)

section \<open>Properties\<close>

text \<open>
  For any table of price lists with one entry per epoch and one for epoch 0, and any
  non-negative epoch, the loop returns the entry of the latest epoch that is not after it; the
  result does not depend on the order in which the Go map is iterated.
\<close>

theorem PricelistByEpoch_latest:
  assumes "distinct (map fst tbl)" and "(0, pl0) \<in> set tbl" and "0 \<le> epoch"
  shows "\<exists>e pl. PricelistByEpoch tbl epoch = Some pl \<and> (e, pl) \<in> set tbl \<and> e \<le> epoch \<and>
    (\<forall>(e', pl') \<in> set tbl. e' \<le> epoch \<longrightarrow> e' \<le> e)"
proof -
  have m: "map_of tbl 0 = Some pl0" using assms(1,2) by simp
  obtain e r where er: "PricelistByEpoch_loop epoch (0, Some pl0) tbl = (e, r)" by (cases "PricelistByEpoch_loop epoch (0, Some pl0) tbl")
  from PricelistByEpoch_loop_spec [OF er] assms(2,3) er show ?thesis
    by (auto simp: PricelistByEpoch_def m)
qed

theorem PricelistByEpoch_latest_witness:
  "PricelistByEpoch [(50, ''b''), (0, ''a''), (90, ''c'')] 60 = Some ''b''"
  using PricelistByEpoch_latest [of "[(50, ''b''), (0, ''a''), (90, ''c'')]" "''a''" 60] by auto

end
