(* ===== verification/Statetree.thy ===== *)
theory Statetree
  imports Prelude
begin

text \<open>
  The state tree: \<open>chain/state/statetree.go\<close>. Actors live in a persistent map (\<open>root\<close>) below
  a stack of in-memory layers; a layer is pushed by \<open>Snapshot\<close>, dropped and renewed by
  \<open>Revert\<close>, and merged into the one below by \<open>ClearSnapshot\<close>. The list \<open>layers\<close> has the last
  layer of the Go slice first.

  The HAMT behind \<open>root\<close>, the content-addressed store and the init actor are library code:
  they are the fields of \<open>tree_env\<close>. \<open>initResolve head a\<close> is the answer of the init actor state
  stored under \<open>head\<close>; \<open>initMapNew head a\<close> is the new ID address and the CID of the new init
  state. Every operation returns the state with its result, since a lookup caches what it reads.
\<close>

section \<open>Data\<close>

datatype protocol = ProtoID | ProtoSECP256K1 | ProtoActor | ProtoBLS | ProtoUnknown

record Actor =
  actCode :: cid
  actHead :: cid
  actNonce :: uint64
  actBalance :: bigint

record streeOp =
  soAct :: Actor
  soDelete :: bool

record stateSnapLayer =
  lyActors :: "address \<rightharpoonup> streeOp"
  lyResolveCache :: "address \<rightharpoonup> address"

text \<open>
  \<open>types.ErrActorNotFound\<close> and \<open>init_.ErrAddressNotFound\<close> are one error value.
  \<open>ErrAddressNotFound\<close> stands for it wrapped with a message; \<open>xerrors.Is\<close> sees through the
  wrapping (\<open>isNotFound\<close>), a comparison with \<open>==\<close> does not.
\<close>

datatype sterr = ErrActorNotFound | ErrAddressNotFound | ErrUndefinedAddress | ErrStore
  | ErrFlushWithSnapshots | ErrNotEnoughFunds | ErrNegativeValue

record StateTree =
  root :: "address \<rightharpoonup> Actor"
  layers :: "stateSnapLayer list"

record tree_env =
  Protocol :: "address \<Rightarrow> protocol"
  InitActorAddr :: address
  initResolve :: "cid \<Rightarrow> address \<Rightarrow> sterr + address"
  initMapNew :: "cid \<Rightarrow> address \<Rightarrow> sterr + address \<times> cid"
  rootGet :: "(address \<rightharpoonup> Actor) \<Rightarrow> address \<Rightarrow> sterr + Actor option"
  rootPut :: "(address \<rightharpoonup> Actor) \<Rightarrow> address \<Rightarrow> Actor \<Rightarrow> sterr + (address \<rightharpoonup> Actor)"
  rootDelete :: "(address \<rightharpoonup> Actor) \<Rightarrow> address \<Rightarrow> sterr + (address \<rightharpoonup> Actor)"

section \<open>The stack of layers\<close>

definition zeroActor :: Actor where
  "zeroActor = \<lparr>actCode = cid_Undef, actHead = cid_Undef, actNonce = 0, actBalance = 0\<rparr>"

definition newStateSnapLayer :: stateSnapLayer where
  "newStateSnapLayer = \<lparr>lyActors = Map.empty, lyResolveCache = Map.empty\<rparr>"

definition addLayer :: "stateSnapLayer list \<Rightarrow> stateSnapLayer list" where
  "addLayer ls = newStateSnapLayer # ls"

definition newStateSnaps :: "stateSnapLayer list" where
  "newStateSnaps = addLayer []"

definition dropLayer :: "stateSnapLayer list \<Rightarrow> stateSnapLayer list" where
  "dropLayer ls = tl ls"

text \<open>Merging needs two layers; with fewer the index \<open>len - 2\<close> panics (\<open>None\<close>).\<close>

fun mergeLastLayer :: "stateSnapLayer list \<Rightarrow> stateSnapLayer list option" where
  "mergeLastLayer (lastL # nextLast # ls) =
     Some (\<lparr>lyActors = lyActors nextLast ++ lyActors lastL,
            lyResolveCache = lyResolveCache nextLast ++ lyResolveCache lastL\<rparr> # ls)"
| "mergeLastLayer _ = None"

fun resolveAddress :: "stateSnapLayer list \<Rightarrow> address \<Rightarrow> address option" where
  "resolveAddress [] addr = None"
| "resolveAddress (l # ls) addr =
     (case lyResolveCache l addr of Some resa \<Rightarrow> Some resa | None \<Rightarrow> resolveAddress ls addr)"

fun cacheResolveAddress :: "stateSnapLayer list \<Rightarrow> address \<Rightarrow> address \<Rightarrow> stateSnapLayer list" where
  "cacheResolveAddress (l # ls) addr resa =
     l\<lparr>lyResolveCache := (lyResolveCache l)(addr \<mapsto> resa)\<rparr> # ls"
| "cacheResolveAddress [] addr resa = []"

fun snaps_getActor :: "stateSnapLayer list \<Rightarrow> address \<Rightarrow> sterr + Actor option" where
  "snaps_getActor [] addr = Inr None"
| "snaps_getActor (l # ls) addr =
     (case lyActors l addr of
        Some act \<Rightarrow> if soDelete act then Inl ErrActorNotFound else Inr (Some (soAct act))
      | None \<Rightarrow> snaps_getActor ls addr)"

fun snaps_setActor :: "stateSnapLayer list \<Rightarrow> address \<Rightarrow> Actor \<Rightarrow> stateSnapLayer list" where
  "snaps_setActor (l # ls) addr act =
     l\<lparr>lyActors := (lyActors l)(addr \<mapsto> \<lparr>soAct = act, soDelete = False\<rparr>)\<rparr> # ls"
| "snaps_setActor [] addr act = []"

fun snaps_deleteActor :: "stateSnapLayer list \<Rightarrow> address \<Rightarrow> stateSnapLayer list" where
  "snaps_deleteActor (l # ls) addr =
     l\<lparr>lyActors := (lyActors l)(addr \<mapsto> \<lparr>soAct = zeroActor, soDelete = True\<rparr>)\<rparr> # ls"
| "snaps_deleteActor [] addr = []"

section \<open>The state tree\<close>

fun wrapErr :: "sterr \<Rightarrow> sterr" where
  "wrapErr ErrActorNotFound = ErrAddressNotFound"
| "wrapErr e = e"

definition isNotFound :: "sterr \<Rightarrow> bool" where
  "isNotFound e \<longleftrightarrow> e = ErrActorNotFound \<or> e = ErrAddressNotFound"

definition NewStateTree :: StateTree where
  "NewStateTree = \<lparr>root = Map.empty, layers = newStateSnaps\<rparr>"

definition LoadStateTree :: "(cid \<Rightarrow> sterr + (address \<rightharpoonup> Actor)) \<Rightarrow> cid \<Rightarrow> sterr + StateTree" where
  "LoadStateTree asMap c =
     (case asMap c of Inl e \<Rightarrow> Inl e | Inr nd \<Rightarrow> Inr \<lparr>root = nd, layers = newStateSnaps\<rparr>)"

text \<open>The part of \<open>GetActor\<close> after the address is resolved to its ID form.\<close>

definition GetActorID :: "tree_env \<Rightarrow> StateTree \<Rightarrow> address \<Rightarrow> (sterr + Actor) \<times> StateTree" where
  "GetActorID T st addr =
     (case snaps_getActor (layers st) addr of
        Inl e \<Rightarrow> (Inl e, st)
      | Inr (Some snapAct) \<Rightarrow> (Inr snapAct, st)
      | Inr None \<Rightarrow>
          (case rootGet T (root st) addr of
             Inl e \<Rightarrow> (Inl e, st)
           | Inr None \<Rightarrow> (Inl ErrActorNotFound, st)
           | Inr (Some act) \<Rightarrow> (Inr act, st\<lparr>layers := snaps_setActor (layers st) addr act\<rparr>)))"

text \<open>
  \<open>LookupID\<close> reads the init actor with \<open>GetActor\<close>; its address is an ID address, for which
  \<open>GetActor\<close> is \<open>GetActorID\<close>.
\<close>

definition LookupID :: "tree_env \<Rightarrow> StateTree \<Rightarrow> address \<Rightarrow> (sterr + address) \<times> StateTree" where
  "LookupID T st addr =
     (if Protocol T addr = ProtoID then (Inr addr, st)
      else case resolveAddress (layers st) addr of
        Some resa \<Rightarrow> (Inr resa, st)
      | None \<Rightarrow>
          (case GetActorID T st (InitActorAddr T) of
             (Inl e, st1) \<Rightarrow> (Inl (wrapErr e), st1)
           | (Inr act, st1) \<Rightarrow>
               (case initResolve T (actHead act) addr of
                  Inl e \<Rightarrow> (Inl (wrapErr e), st1)
                | Inr a \<Rightarrow> (Inr a, st1\<lparr>layers := cacheResolveAddress (layers st1) addr a\<rparr>))))"

definition GetActor :: "tree_env \<Rightarrow> StateTree \<Rightarrow> address \<Rightarrow> (sterr + Actor) \<times> StateTree" where
  "GetActor T st addr =
     (if addr = address_Undef then (Inl ErrUndefinedAddress, st)
      else case LookupID T st addr of
        (Inl e, st1) \<Rightarrow> (Inl e, st1)
      | (Inr iaddr, st1) \<Rightarrow> GetActorID T st1 iaddr)"

definition SetActor :: "tree_env \<Rightarrow> StateTree \<Rightarrow> address \<Rightarrow> Actor \<Rightarrow> (sterr + unit) \<times> StateTree" where
  "SetActor T st addr act =
     (case LookupID T st addr of
        (Inl e, st1) \<Rightarrow> (Inl e, st1)
      | (Inr iaddr, st1) \<Rightarrow> (Inr (), st1\<lparr>layers := snaps_setActor (layers st1) iaddr act\<rparr>))"

definition DeleteActor :: "tree_env \<Rightarrow> StateTree \<Rightarrow> address \<Rightarrow> (sterr + unit) \<times> StateTree" where
  "DeleteActor T st addr =
     (if addr = address_Undef then (Inl ErrUndefinedAddress, st)
      else case LookupID T st addr of
        (Inl e, st1) \<Rightarrow> (Inl e, st1)
      | (Inr iaddr, st1) \<Rightarrow>
          (case GetActor T st1 iaddr of
             (Inl e, st2) \<Rightarrow> (Inl e, st2)
           | (Inr _, st2) \<Rightarrow> (Inr (), st2\<lparr>layers := snaps_deleteActor (layers st2) iaddr\<rparr>)))"

text \<open>
  \<open>Flush\<close> writes the only layer to the root, in the order in which Go's map iteration yields
  its entries: the list \<open>entries\<close>. After an error the tree, whose root may be partly written, is
  not returned; callers give the whole tree up.
\<close>

definition Flush_step :: "tree_env \<Rightarrow> (address \<rightharpoonup> Actor) \<Rightarrow> address \<times> streeOp \<Rightarrow> sterr + (address \<rightharpoonup> Actor)" where
  "Flush_step T r e =
     (if soDelete (snd e) then rootDelete T r (fst e) else rootPut T r (fst e) (soAct (snd e)))"

definition Flush :: "tree_env \<Rightarrow> (address \<times> streeOp) list \<Rightarrow> StateTree \<Rightarrow> sterr + StateTree" where
  "Flush T entries st =
     (if length (layers st) \<noteq> 1 then Inl ErrFlushWithSnapshots
      else case res_fold (Flush_step T) (root st) entries of
        Inl e \<Rightarrow> Inl e | Inr r \<Rightarrow> Inr (st\<lparr>root := r\<rparr>))"

definition Snapshot :: "StateTree \<Rightarrow> StateTree" where
  "Snapshot st = st\<lparr>layers := addLayer (layers st)\<rparr>"

definition ClearSnapshot :: "StateTree \<Rightarrow> StateTree option" where
  "ClearSnapshot st = map_option (\<lambda>ls. st\<lparr>layers := ls\<rparr>) (mergeLastLayer (layers st))"

definition Revert :: "StateTree \<Rightarrow> StateTree" where
  "Revert st = st\<lparr>layers := addLayer (dropLayer (layers st))\<rparr>"

text \<open>The callback of \<open>MutateActor\<close> returns the changed actor and what it assigns outside.\<close>

definition MutateActor ::
  "tree_env \<Rightarrow> StateTree \<Rightarrow> address \<Rightarrow> (Actor \<Rightarrow> sterr + Actor \<times> 'x) \<Rightarrow> (sterr + 'x) \<times> StateTree" where
  "MutateActor T st addr f =
     (case GetActor T st addr of
        (Inl e, st1) \<Rightarrow> (Inl e, st1)
      | (Inr act, st1) \<Rightarrow>
          (case f act of
             Inl e \<Rightarrow> (Inl e, st1)
           | Inr (act', x) \<Rightarrow>
               (case SetActor T st1 addr act' of
                  (Inl e, st2) \<Rightarrow> (Inl e, st2)
                | (Inr _, st2) \<Rightarrow> (Inr x, st2))))"

definition RegisterNewAddress :: "tree_env \<Rightarrow> StateTree \<Rightarrow> address \<Rightarrow> (sterr + address) \<times> StateTree" where
  "RegisterNewAddress T st addr =
     MutateActor T st (InitActorAddr T) (\<lambda>initact.
       case initMapNew T (actHead initact) addr of
         Inl e \<Rightarrow> Inl e
       | Inr (oaddr, ncid) \<Rightarrow> Inr (initact\<lparr>actHead := ncid\<rparr>, oaddr))"

section \<open>Abstract specification\<close>

text \<open>
  What the layered tree stands for: one finite-map view of the actors per layer, the current
  one first. Nested transactions over such a map are programs of \<open>txn_op\<close>; a transaction that
  does not commit leaves no trace.
\<close>

fun lview :: "(address \<rightharpoonup> Actor) \<Rightarrow> stateSnapLayer list \<Rightarrow> address \<rightharpoonup> Actor" where
  "lview r [] a = r a"
| "lview r (l # ls) a =
     (case lyActors l a of
        Some op \<Rightarrow> if soDelete op then None else Some (soAct op)
      | None \<Rightarrow> lview r ls a)"

fun lviews :: "(address \<rightharpoonup> Actor) \<Rightarrow> stateSnapLayer list \<Rightarrow> (address \<rightharpoonup> Actor) list" where
  "lviews r [] = []"
| "lviews r (l # ls) = lview r (l # ls) # lviews r ls"

definition views :: "StateTree \<Rightarrow> (address \<rightharpoonup> Actor) list" where
  "views st = lviews (root st) (layers st)"

definition view :: "StateTree \<Rightarrow> address \<rightharpoonup> Actor" where
  "view st = lview (root st) (layers st)"

text \<open>The invariant: there is a layer, and reading the persistent map gives its content.\<close>

definition tree_ok :: "tree_env \<Rightarrow> StateTree \<Rightarrow> bool" where
  "tree_ok T st \<longleftrightarrow> layers st \<noteq> [] \<and> (\<forall>a. rootGet T (root st) a = Inr (root st a))"

definition id_addr :: "tree_env \<Rightarrow> address \<Rightarrow> bool" where
  "id_addr T a \<longleftrightarrow> a \<noteq> address_Undef \<and> Protocol T a = ProtoID"

datatype ('k, 'v) txn_op = OpGet 'k | OpSet 'k 'v | OpDel 'k | OpTxn "('k, 'v) txn_op list" bool

fun abs_op :: "('k, 'v) txn_op \<Rightarrow> ('k \<rightharpoonup> 'v) \<Rightarrow> ('k \<rightharpoonup> 'v)"
  and abs_ops :: "('k, 'v) txn_op list \<Rightarrow> ('k \<rightharpoonup> 'v) \<Rightarrow> ('k \<rightharpoonup> 'v)" where
  "abs_op (OpGet k) m = m"
| "abs_op (OpSet k v) m = m(k \<mapsto> v)"
| "abs_op (OpDel k) m = m(k := None)"
| "abs_op (OpTxn ops commit) m = (if commit then abs_ops ops m else m)"
| "abs_ops [] m = m"
| "abs_ops (x # xs) m = abs_ops xs (abs_op x m)"

record ('s, 'k, 'v) store_ops =
  sGet :: "'s \<Rightarrow> 'k \<Rightarrow> 's"
  sSet :: "'s \<Rightarrow> 'k \<Rightarrow> 'v \<Rightarrow> 's"
  sDel :: "'s \<Rightarrow> 'k \<Rightarrow> 's"
  sSnapshot :: "'s \<Rightarrow> 's"
  sRevert :: "'s \<Rightarrow> 's"
  sClear :: "'s \<Rightarrow> 's option"

text \<open>
  Running a program on a store: a transaction takes a snapshot, runs, reverts if it does not
  commit, and clears the snapshot, as \<open>internalSend\<close> and \<open>ApplyMessage\<close> do.
\<close>

fun run_op :: "('s, 'k, 'v) store_ops \<Rightarrow> ('k, 'v) txn_op \<Rightarrow> 's \<Rightarrow> 's option"
  and run_ops :: "('s, 'k, 'v) store_ops \<Rightarrow> ('k, 'v) txn_op list \<Rightarrow> 's \<Rightarrow> 's option" where
  "run_op S (OpGet k) s = Some (sGet S s k)"
| "run_op S (OpSet k v) s = Some (sSet S s k v)"
| "run_op S (OpDel k) s = Some (sDel S s k)"
| "run_op S (OpTxn ops commit) s =
     (case run_ops S ops (sSnapshot S s) of
        None \<Rightarrow> None
      | Some s1 \<Rightarrow> sClear S (if commit then s1 else sRevert S s1))"
| "run_ops S [] s = Some s"
| "run_ops S (x # xs) s = (case run_op S x s of None \<Rightarrow> None | Some s1 \<Rightarrow> run_ops S xs s1)"

fun op_keys :: "('k, 'v) txn_op \<Rightarrow> 'k list"
  and ops_keys :: "('k, 'v) txn_op list \<Rightarrow> 'k list" where
  "op_keys (OpGet k) = [k]"
| "op_keys (OpSet k v) = [k]"
| "op_keys (OpDel k) = [k]"
| "op_keys (OpTxn ops commit) = ops_keys ops"
| "ops_keys [] = []"
| "ops_keys (x # xs) = op_keys x @ ops_keys xs"

definition tree_ops :: "tree_env \<Rightarrow> (StateTree, address, Actor) store_ops" where
  "tree_ops T =
     \<lparr>sGet = (\<lambda>st a. snd (GetActor T st a)), sSet = (\<lambda>st a act. snd (SetActor T st a act)),
      sDel = (\<lambda>st a. snd (DeleteActor T st a)), sSnapshot = Snapshot, sRevert = Revert,
      sClear = ClearSnapshot\<rparr>"

section \<open>The interface\<close>

text \<open>
  A store with snapshots: what the operations do to the stack of views. The VM relies on
  nothing else of the state tree.
\<close>

locale snapshot_store =
  fixes S :: "('s, 'k, 'v) store_ops" and invar :: "'s \<Rightarrow> bool" and okey :: "'k \<Rightarrow> bool"
    and vs :: "'s \<Rightarrow> ('k \<rightharpoonup> 'v) list"
  assumes vs_ne: "invar s \<Longrightarrow> vs s \<noteq> []"
    and get_vs: "invar s \<Longrightarrow> okey k \<Longrightarrow> invar (sGet S s k) \<and> vs (sGet S s k) = vs s"
    and set_vs: "invar s \<Longrightarrow> okey k \<Longrightarrow>
      invar (sSet S s k v) \<and> vs (sSet S s k v) = (hd (vs s))(k \<mapsto> v) # tl (vs s)"
    and del_vs: "invar s \<Longrightarrow> okey k \<Longrightarrow>
      invar (sDel S s k) \<and> vs (sDel S s k) = (hd (vs s))(k := None) # tl (vs s)"
    and snapshot_vs: "invar s \<Longrightarrow> invar (sSnapshot S s) \<and> vs (sSnapshot S s) = hd (vs s) # vs s"
    and revert_vs: "invar s \<Longrightarrow> vs s = u # w # ws \<Longrightarrow> invar (sRevert S s) \<and> vs (sRevert S s) = w # w # ws"
    and clear_vs: "invar s \<Longrightarrow> vs s = u # w # ws \<Longrightarrow>
      \<exists>s'. sClear S s = Some s' \<and> invar s' \<and> vs s' = u # ws"
begin

text \<open>Every nested program runs to its end and does to the current view what it says.\<close>

lemma run_refines:
  "invar s \<Longrightarrow> list_all okey (op_keys x) \<Longrightarrow>
     \<exists>s'. run_op S x s = Some s' \<and> invar s' \<and> vs s' = abs_op x (hd (vs s)) # tl (vs s)"
  "invar s \<Longrightarrow> list_all okey (ops_keys xs) \<Longrightarrow>
     \<exists>s'. run_ops S xs s = Some s' \<and> invar s' \<and> vs s' = abs_ops xs (hd (vs s)) # tl (vs s)"
proof (induction x and xs arbitrary: s and s rule: op_keys_ops_keys.induct)
  case (4 ops commit)
  from snapshot_vs [OF 4(2)] 4(1) [of "sSnapshot S s"] 4(3)
  obtain s1 where s1: "run_ops S ops (sSnapshot S s) = Some s1" "invar s1"
      "vs s1 = abs_ops ops (hd (vs s)) # vs s" by auto
  obtain v ws where vs: "vs s = v # ws" using vs_ne [OF 4(2)] by (cases "vs s") auto
  show ?case
  proof (cases commit)
    case True
    with s1 clear_vs [OF s1(2), of "abs_ops ops v" v ws] vs show ?thesis by auto
  next
    case False
    from s1 vs have "vs s1 = abs_ops ops v # v # ws" by simp
    from revert_vs [OF s1(2) this] have r: "invar (sRevert S s1)" "vs (sRevert S s1) = v # v # ws"
      by auto
    from clear_vs [OF r] False s1(1) vs show ?thesis by auto
  qed
next
  case (6 x xs)
  from 6(1) [OF 6(3)] 6(4) obtain s1 where "run_op S x s = Some s1" "invar s1"
      "vs s1 = abs_op x (hd (vs s)) # tl (vs s)" by auto
  with 6(2) [of s1] 6(4) show ?case by auto
qed (use get_vs set_vs del_vs vs_ne in auto)

end

section \<open>Lemmas\<close>

lemma lview_setActor [simp]:
  "ls \<noteq> [] \<Longrightarrow> lview r (snaps_setActor ls a act) = (lview r ls)(a \<mapsto> act)"
  by (cases ls) (auto simp: fun_eq_iff)

lemma lview_deleteActor [simp]:
  "ls \<noteq> [] \<Longrightarrow> lview r (snaps_deleteActor ls a) = (lview r ls)(a := None)"
  by (cases ls) (auto simp: fun_eq_iff)

lemma lview_cacheResolve [simp]: "lview r (cacheResolveAddress ls a b) = lview r ls"
  by (cases ls) (auto simp: fun_eq_iff)

lemma layers_update_ne [simp]:
  "snaps_setActor ls a act = [] \<longleftrightarrow> ls = []" "snaps_deleteActor ls a = [] \<longleftrightarrow> ls = []"
  "cacheResolveAddress ls a b = [] \<longleftrightarrow> ls = []"
  by (cases ls; simp)+

lemma tl_layers_update [simp]:
  "tl (snaps_setActor ls a act) = tl ls" "tl (snaps_deleteActor ls a) = tl ls"
  "tl (cacheResolveAddress ls a b) = tl ls"
  by (cases ls; simp)+

lemma lviews_conv: "ls \<noteq> [] \<Longrightarrow> lviews r ls = lview r ls # lviews r (tl ls)"
  by (cases ls) auto

lemma views_conv: "layers st \<noteq> [] \<Longrightarrow> views st = view st # lviews (root st) (tl (layers st))"
  by (simp add: views_def view_def lviews_conv)

lemma lview_merge:
  "mergeLastLayer (l # l' # ls) = Some ls' \<Longrightarrow> lview r ls' = lview r (l # l' # ls) \<and> tl ls' = ls \<and> ls' \<noteq> []"
  by (auto simp: fun_eq_iff map_add_def split: option.splits)

lemma snaps_getActor_view:
  "snaps_getActor ls a = Inl e \<Longrightarrow> e = ErrActorNotFound \<and> lview r ls a = None"
  "snaps_getActor ls a = Inr (Some act) \<Longrightarrow> lview r ls a = Some act"
  "snaps_getActor ls a = Inr None \<Longrightarrow> lview r ls a = r a"
  by (induction ls) (auto split: option.splits if_splits)

text \<open>Reading an actor by its ID returns the current view and changes no view.\<close>

lemma GetActorID_spec:
  assumes "tree_ok T st"
  shows "fst (GetActorID T st a) = (case view st a of None \<Rightarrow> Inl ErrActorNotFound | Some act \<Rightarrow> Inr act)"
    and "views (snd (GetActorID T st a)) = views st" and "tree_ok T (snd (GetActorID T st a))"
proof -
  have r: "rootGet T (root st) a = Inr (root st a)" and ne: "layers st \<noteq> []"
    using assms by (auto simp: tree_ok_def)
  note g = snaps_getActor_view [where r = "root st" and ls = "layers st" and a = a]
  show "fst (GetActorID T st a) = (case view st a of None \<Rightarrow> Inl ErrActorNotFound | Some act \<Rightarrow> Inr act)"
    using r g by (auto simp: GetActorID_def view_def split: sum.splits option.splits)
  have "(lview (root st) (layers st))(a \<mapsto> act) = lview (root st) (layers st)"
    if "snaps_getActor (layers st) a = Inr None" "root st a = Some act" for act
    using that g(3) by (simp add: fun_upd_idem)
  then show "views (snd (GetActorID T st a)) = views st" and "tree_ok T (snd (GetActorID T st a))"
    using r ne assms by (auto simp: GetActorID_def views_def tree_ok_def lviews_conv split: sum.splits option.splits)
qed

lemma LookupID_id [simp]: "Protocol T a = ProtoID \<Longrightarrow> LookupID T st a = (Inr a, st)"
  by (simp add: LookupID_def)

text \<open>Resolving an address changes no view either.\<close>

lemma LookupID_views:
  assumes "tree_ok T st"
  shows "views (snd (LookupID T st a)) = views st \<and> tree_ok T (snd (LookupID T st a))"
proof (cases "GetActorID T st (InitActorAddr T)")
  case (Pair res st1)
  with GetActorID_spec(2,3) [OF assms, of "InitActorAddr T"]
  have "views st1 = views st" "tree_ok T st1" by auto
  then show ?thesis using Pair assms
    by (auto simp: LookupID_def views_def tree_ok_def lviews_conv split: sum.splits option.splits)
qed

lemma GetActor_id: "id_addr T a \<Longrightarrow> GetActor T st a = GetActorID T st a"
  by (simp add: GetActor_def id_addr_def)

lemma SetActor_id:
  "id_addr T a \<Longrightarrow> SetActor T st a act = (Inr (), st\<lparr>layers := snaps_setActor (layers st) a act\<rparr>)"
  by (simp add: SetActor_def id_addr_def)

lemma GetActor_views:
  "tree_ok T st \<Longrightarrow> views (snd (GetActor T st a)) = views st \<and> tree_ok T (snd (GetActor T st a))"
  using LookupID_views [of T st a] GetActorID_spec(2,3)
  by (auto simp: GetActor_def split: prod.splits sum.splits)

lemma setActor_views:
  "tree_ok T st \<Longrightarrow> tree_ok T (st\<lparr>layers := snaps_setActor (layers st) a act\<rparr>) \<and>
     views (st\<lparr>layers := snaps_setActor (layers st) a act\<rparr>) = (hd (views st))(a \<mapsto> act) # tl (views st)"
  by (simp add: tree_ok_def views_def lviews_conv)

lemma deleteActor_views:
  "tree_ok T st \<Longrightarrow> tree_ok T (st\<lparr>layers := snaps_deleteActor (layers st) a\<rparr>) \<and>
     views (st\<lparr>layers := snaps_deleteActor (layers st) a\<rparr>) = (hd (views st))(a := None) # tl (views st)"
  by (simp add: tree_ok_def views_def lviews_conv)

lemma hd_views: "tree_ok T st \<Longrightarrow> hd (views st) = view st"
  by (simp add: tree_ok_def views_conv)

lemma DeleteActor_id_views:
  assumes "tree_ok T st" and "id_addr T a"
  shows "tree_ok T (snd (DeleteActor T st a)) \<and>
    views (snd (DeleteActor T st a)) = (hd (views st))(a := None) # tl (views st)"
proof (cases "GetActorID T st a")
  case (Pair res st1)
  with GetActorID_spec [OF assms(1), of a]
  have s: "res = (case view st a of None \<Rightarrow> Inl ErrActorNotFound | Some act \<Rightarrow> Inr act)"
      "views st1 = views st" "tree_ok T st1" by auto
  have d: "DeleteActor T st a = (case res of Inl e \<Rightarrow> (Inl e, st1)
      | Inr _ \<Rightarrow> (Inr (), st1\<lparr>layers := snaps_deleteActor (layers st1) a\<rparr>))"
    using assms(2) Pair GetActor_id [OF assms(2), of st] by (simp add: DeleteActor_def id_addr_def)
  show ?thesis
  proof (cases "view st a")
    case None
    then have "(view st)(a := None) = view st" by (simp add: fun_upd_idem)
    with None d s assms(1) show ?thesis by (simp add: hd_views views_conv tree_ok_def)
  next
    case (Some act)
    with d s deleteActor_views [OF s(3), of a] show ?thesis by simp
  qed
qed

interpretation tree: snapshot_store "tree_ops T" "tree_ok T" "id_addr T" views for T
proof (unfold_locales, goal_cases)
  case (1 s)
  then show ?case by (simp add: tree_ok_def views_conv)
next
  case (2 s k)
  then show ?case by (simp add: tree_ops_def GetActor_views)
next
  case (3 s k v)
  then show ?case by (simp add: tree_ops_def SetActor_id setActor_views)
next
  case (4 s k)
  then show ?case by (simp add: tree_ops_def DeleteActor_id_views)
next
  case (5 s)
  then show ?case
    by (auto simp: tree_ops_def Snapshot_def addLayer_def tree_ok_def views_conv view_def views_def
        newStateSnapLayer_def fun_eq_iff lviews_conv)
next
  case (6 s u w ws)
  then obtain l l' ls where "layers s = l # l' # ls"
    by (cases "layers s" rule: remdups_adj.cases) (auto simp: views_def)
  with 6 show ?case
    by (auto simp: tree_ops_def Revert_def addLayer_def dropLayer_def tree_ok_def views_def
        newStateSnapLayer_def fun_eq_iff)
next
  case (7 s u w ws)
  then obtain l l' ls where ls: "layers s = l # l' # ls"
    by (cases "layers s" rule: remdups_adj.cases) (auto simp: views_def)
  obtain ls' where m: "mergeLastLayer (layers s) = Some ls'" by (simp add: ls)
  from lview_merge [OF m [unfolded ls], of "root s"] have "lview (root s) ls' = u" "tl ls' = ls" "ls' \<noteq> []"
    using 7(2) ls by (auto simp: views_def)
  moreover have "ws = lviews (root s) ls" using 7(2) ls by (simp add: views_def)
  ultimately show ?case using 7(1)
    by (simp add: tree_ops_def ClearSnapshot_def m tree_ok_def views_def lviews_conv)
qed

text \<open>Writing the entries of a layer to the persistent map, in any order.\<close>

definition hamt_writes :: "tree_env \<Rightarrow> bool" where
  "hamt_writes T \<longleftrightarrow>
     (\<forall>r a act r'. rootPut T r a act = Inr r' \<longrightarrow> r' = r(a \<mapsto> act)) \<and>
     (\<forall>r a r'. rootDelete T r a = Inr r' \<longrightarrow> r' = r(a := None))"

lemma Flush_fold:
  assumes "hamt_writes T"
  shows "distinct (map fst entries) \<Longrightarrow> res_fold (Flush_step T) r entries = Inr r' \<Longrightarrow>
    r' a = (case map_of entries a of
              None \<Rightarrow> r a | Some op \<Rightarrow> if soDelete op then None else Some (soAct op))"
proof (induction entries arbitrary: r)
  case (Cons e entries)
  then obtain r1 where r1: "Flush_step T r e = Inr r1" "res_fold (Flush_step T) r1 entries = Inr r'"
    by (auto split: sum.splits)
  have "r1 = r(fst e := if soDelete (snd e) then None else Some (soAct (snd e)))"
    using r1(1) assms by (auto simp: Flush_step_def hamt_writes_def split: if_splits)
  moreover have "map_of entries (fst e) = None"
    using Cons.prems(1) by (simp add: map_of_eq_None_iff)
  ultimately show ?case using Cons.IH [OF _ r1(2)] Cons.prems(1)
    by (cases e) (auto split: option.splits)
qed simp

section \<open>A concrete tree for the witnesses\<close>

definition wit_tree_env :: tree_env where
  "wit_tree_env =
     \<lparr>Protocol = (\<lambda>a. if a = [] then ProtoUnknown else if take 1 a = ''f'' then ProtoBLS else ProtoID), InitActorAddr = ''01'',
      initResolve = (\<lambda>h a. if a = ''f9'' then Inr ''09'' else Inl ErrActorNotFound),
      initMapNew = (\<lambda>h a. Inr (''0n'', ''h'')),
      rootGet = (\<lambda>r a. Inr (r a)), rootPut = (\<lambda>r a act. Inr (r(a \<mapsto> act))),
      rootDelete = (\<lambda>r a. Inr (r(a := None)))\<rparr>"

definition wit_actor :: "bigint \<Rightarrow> Actor" where
  "wit_actor b = \<lparr>actCode = ''acc'', actHead = ''h'', actNonce = 0, actBalance = b\<rparr>"

definition wit_tree :: StateTree where
  "wit_tree = \<lparr>root = [''01'' \<mapsto> wit_actor 0, ''05'' \<mapsto> wit_actor 100, ''09'' \<mapsto> wit_actor 7],
     layers = newStateSnaps\<rparr>"

lemma wit_tree_ok: "tree_ok wit_tree_env wit_tree"
  by (simp add: tree_ok_def wit_tree_def wit_tree_env_def newStateSnaps_def addLayer_def)

lemma wit_id_addr: "id_addr wit_tree_env ''05''" "id_addr wit_tree_env ''09''"
  by (simp_all add: id_addr_def wit_tree_env_def)

lemma wit_view: "view wit_tree = root wit_tree"
  by (simp add: view_def wit_tree_def newStateSnaps_def addLayer_def newStateSnapLayer_def fun_eq_iff)

section \<open>Properties\<close>

text \<open>
  C3. The layered state tree refines a single map with nested transactions: every program of
  reads, writes, deletions and nested snapshots, each committed or reverted, runs to its end,
  does to the current view exactly what the program does to a plain map, and changes none of
  the views that outer snapshots saved.
\<close>

theorem StateTree_refines_map:
  assumes "tree_ok T st" and "list_all (id_addr T) (ops_keys ops)"
  shows "\<exists>st'. run_ops (tree_ops T) ops st = Some st' \<and> tree_ok T st' \<and>
    view st' = abs_ops ops (view st) \<and> tl (views st') = tl (views st)"
proof -
  from tree.run_refines(2) [OF assms] obtain st' where
    "run_ops (tree_ops T) ops st = Some st'" "tree_ok T st'"
    "views st' = abs_ops ops (hd (views st)) # tl (views st)" by blast
  moreover from this have "view st' = abs_ops ops (view st)"
    using hd_views [of T st'] hd_views [OF assms(1)] by simp
  ultimately show ?thesis by auto
qed

theorem StateTree_refines_map_witness:
  "\<exists>st'. run_ops (tree_ops wit_tree_env)
      [OpSet ''05'' (wit_actor 1), OpTxn [OpDel ''05'', OpTxn [OpSet ''09'' (wit_actor 3)] True] False] wit_tree
    = Some st' \<and> view st' ''05'' = Some (wit_actor 1) \<and> view st' ''09'' = Some (wit_actor 7)"
  (is "\<exists>st'. run_ops _ ?ops _ = Some st' \<and> _ st'")
proof -
  have "list_all (id_addr wit_tree_env) (ops_keys ?ops)" by (simp add: wit_id_addr)
  from StateTree_refines_map [OF wit_tree_ok this] obtain st' where
    st': "run_ops (tree_ops wit_tree_env) ?ops wit_tree = Some st'" "view st' = abs_ops ?ops (view wit_tree)"
    by blast
  from st'(2) have "view st' ''05'' = Some (wit_actor 1) \<and> view st' ''09'' = Some (wit_actor 7)"
    by (simp add: wit_view) (simp add: wit_tree_def)
  with st'(1) show ?thesis by blast
qed

text \<open>
  C27. \<open>GetActor\<close> on an ID address returns the actor of the current view, or
  \<open>ErrActorNotFound\<close> when there is none or it was deleted, and what it caches is invisible:
  no view changes, whatever the kind of address.
\<close>

theorem GetActor_functional:
  assumes "tree_ok T st"
  shows "views (snd (GetActor T st a)) = views st \<and>
    (id_addr T a \<longrightarrow> fst (GetActor T st a) =
       (case view st a of None \<Rightarrow> Inl ErrActorNotFound | Some act \<Rightarrow> Inr act))"
  using GetActor_views [OF assms] GetActorID_spec(1) [OF assms] by (simp add: GetActor_id)

theorem GetActor_functional_witness:
  "fst (GetActor wit_tree_env wit_tree ''05'') = Inr (wit_actor 100)"
  using GetActor_functional [OF wit_tree_ok, of "''05''"]
  by (simp add: wit_view wit_id_addr) (simp add: wit_tree_def)

text \<open>
  C28. \<open>Flush\<close> refuses a tree with open snapshots; when it succeeds the persistent map is
  exactly the current view, in whatever order the entries of the layer are written.
\<close>

theorem Flush_persists_view:
  assumes "hamt_writes T" and "layers st = [l]" and "distinct (map fst entries)"
    and "map_of entries = lyActors l" and "Flush T entries st = Inr st'"
  shows "root st' = view st \<and> view st' = view st"
proof -
  from assms(2,5) have fold: "res_fold (Flush_step T) (root st) entries = Inr (root st')"
    and st': "layers st' = layers st" by (auto simp: Flush_def split: sum.splits)
  have r: "root st' = view st"
    using Flush_fold [OF assms(1,3) fold] assms(2,4)
    by (auto simp: fun_eq_iff view_def split: option.splits)
  moreover have "view st' = view st"
    unfolding view_def [of st'] r st' assms(2)
    using assms(2) by (auto simp: fun_eq_iff view_def split: option.splits)
  ultimately show ?thesis by simp
qed

theorem Flush_persists_view_witness:
  "\<exists>st'. Flush wit_tree_env [(''05'', \<lparr>soAct = zeroActor, soDelete = True\<rparr>)]
      (snd (DeleteActor wit_tree_env wit_tree ''05'')) = Inr st' \<and> root st' ''05'' = None"
proof -
  let ?e = "[(''05'', \<lparr>soAct = zeroActor, soDelete = True\<rparr>)]"
  let ?st = "wit_tree\<lparr>layers := [\<lparr>lyActors = map_of ?e, lyResolveCache = Map.empty\<rparr>]\<rparr>"
  have st: "snd (DeleteActor wit_tree_env wit_tree ''05'') = ?st"
    by (simp add: DeleteActor_def GetActor_def GetActorID_def LookupID_def wit_tree_env_def wit_tree_def
        newStateSnaps_def addLayer_def newStateSnapLayer_def)
  obtain st' where f: "Flush wit_tree_env ?e ?st = Inr st'"
    by (simp add: Flush_def Flush_step_def wit_tree_env_def)
  have "root st' = view ?st"
    using Flush_persists_view [OF _ _ _ _ f, of "\<lparr>lyActors = map_of ?e, lyResolveCache = Map.empty\<rparr>"]
    by (simp add: hamt_writes_def wit_tree_env_def)
  with st f show ?thesis by (simp add: view_def)
qed

end
