(* ===== verification/Tipset_Key.thy ===== *)
theory Tipset_Key
  imports Tipset
begin

text \<open>
  Tipset keys: \<open>chain/types/tipset_key.go\<close>. A key is the concatenation of the bytes of the
  tipset's CIDs. Splitting it again relies on \<open>cid.CidFromBytes\<close> of the CID library, which is
  the parameter \<open>cidFromBytes\<close>: it returns the number of bytes read and the CID.
\<close>

section \<open>Operations\<close>

type_synonym TipSetKey = bytes

definition EmptyTSK :: TipSetKey where
  "EmptyTSK = []"

fun encodeKey :: "cid list \<Rightarrow> bytes" where
  "encodeKey [] = []"
| "encodeKey (c # cs) = c @ encodeKey cs"

definition NewTipSetKey :: "cid list \<Rightarrow> TipSetKey" where
  "NewTipSetKey cids = encodeKey cids"

text \<open>
  The loop of \<open>decodeKey\<close>; its second argument is the slice \<open>encoded[nextIdx:]\<close>. Nothing in
  the loop itself makes it stop when the library reads no byte, so not returning is \<open>None\<close>.
\<close>

partial_function (option) decodeKey_loop ::
  "(bytes \<Rightarrow> 'e + nat \<times> cid) \<Rightarrow> bytes \<Rightarrow> cid list \<Rightarrow> ('e + cid list) option" where
  "decodeKey_loop cidFromBytes rest cids =
     (if rest = [] then Some (Inr cids)
      else case cidFromBytes rest of
             Inl e \<Rightarrow> Some (Inl e)
           | Inr (nr, c) \<Rightarrow> decodeKey_loop cidFromBytes (drop nr rest) (cids @ [c]))"

definition decodeKey :: "(bytes \<Rightarrow> 'e + nat \<times> cid) \<Rightarrow> bytes \<Rightarrow> ('e + cid list) option" where
  "decodeKey cidFromBytes encoded = decodeKey_loop cidFromBytes encoded []"

definition TipSetKeyFromBytes :: "(bytes \<Rightarrow> 'e + nat \<times> cid) \<Rightarrow> bytes \<Rightarrow> ('e + TipSetKey) option" where
  "TipSetKeyFromBytes cidFromBytes encoded =
     (case decodeKey cidFromBytes encoded of
        None \<Rightarrow> None
      | Some (Inl e) \<Rightarrow> Some (Inl e)
      | Some (Inr _) \<Rightarrow> Some (Inr encoded))"

text \<open>\<open>Cids\<close> panics when the key does not decode; the panic carries the decoder's error.\<close>

definition TipSetKey_Cids :: "(bytes \<Rightarrow> 'e + nat \<times> cid) \<Rightarrow> TipSetKey \<Rightarrow> ('e + cid list) option" where
  "TipSetKey_Cids cidFromBytes k = decodeKey cidFromBytes k"

definition TipSetKey_Bytes :: "TipSetKey \<Rightarrow> bytes" where
  "TipSetKey_Bytes k = k"

definition TipSetKey_IsEmpty :: "TipSetKey \<Rightarrow> bool" where
  "TipSetKey_IsEmpty k \<longleftrightarrow> length k = 0"

fun TipSetKey_String_loop :: "nat \<Rightarrow> (cid \<Rightarrow> string) \<Rightarrow> nat \<Rightarrow> cid list \<Rightarrow> string" where
  "TipSetKey_String_loop n cidString i [] = []"
| "TipSetKey_String_loop n cidString i (c # cs) =
     cidString c @ (if int i < int n - 1 then '','' else []) @ TipSetKey_String_loop n cidString (Suc i) cs"

definition TipSetKey_String :: "(cid \<Rightarrow> string) \<Rightarrow> cid list \<Rightarrow> string" where
  "TipSetKey_String cidString cids =
     ''{'' @ TipSetKey_String_loop (length cids) cidString 0 cids @ ''}''"

text \<open>\<open>Key\<close> of a tipset, and of a pointer that may be nil; \<open>Parents\<close>.\<close>

definition Key :: "TipSet \<Rightarrow> TipSetKey" where
  "Key ts = NewTipSetKey (tsCids ts)"

fun Key_ptr :: "TipSet option \<Rightarrow> TipSetKey" where
  "Key_ptr None = EmptyTSK"
| "Key_ptr (Some ts) = Key ts"

definition Parents :: "TipSet \<Rightarrow> TipSetKey" where
  "Parents ts = NewTipSetKey (bhParents (hd (tsBlks ts)))"

section \<open>Lemmas\<close>

text \<open>The documented behaviour of \<open>cid.CidFromBytes\<close> on the CIDs at hand: it reads exactly
  the leading CID, which is never empty.\<close>

definition cid_reads :: "(bytes \<Rightarrow> 'e + nat \<times> cid) \<Rightarrow> cid \<Rightarrow> bool" where
  "cid_reads cidFromBytes c \<longleftrightarrow>
     c \<noteq> [] \<and> (\<forall>rest. cidFromBytes (c @ rest) = Inr (length c, c))"

lemma encodeKey_Nil_iff: "list_all (cid_reads cidFromBytes) cids \<Longrightarrow> encodeKey cids = [] \<longleftrightarrow> cids = []"
  by (cases cids) (auto simp: cid_reads_def)

lemma decodeKey_loop_encodeKey:
  "list_all (cid_reads cidFromBytes) cids \<Longrightarrow>
     decodeKey_loop cidFromBytes (encodeKey cids) acc = Some (Inr (acc @ cids))"
proof (induction cids arbitrary: acc)
  case Nil
  then show ?case by (simp add: decodeKey_loop.simps)
next
  case (Cons c cids)
  then have c: "c \<noteq> []" "cidFromBytes (c @ encodeKey cids) = Inr (length c, c)"
    by (auto simp: cid_reads_def)
  have "decodeKey_loop cidFromBytes (encodeKey (c # cids)) acc =
      decodeKey_loop cidFromBytes (encodeKey cids) (acc @ [c])"
    using c by (simp add: decodeKey_loop.simps [of _ "c @ encodeKey cids"])
  with Cons show ?case by simp
qed

lemma NewTipSetKey_inject:
  assumes "list_all (cid_reads cidFromBytes) a" and "list_all (cid_reads cidFromBytes) b"
    and "NewTipSetKey a = NewTipSetKey b"
  shows "a = b"
proof -
  have "encodeKey a = encodeKey b" using assms(3) by (simp only: NewTipSetKey_def)
  from decodeKey_loop_encodeKey [OF assms(1), of "[]", unfolded this]
    decodeKey_loop_encodeKey [OF assms(2), of "[]"]
  show ?thesis by simp
qed

section \<open>Properties\<close>

text \<open>
  C25. Decoding a key gives back the CIDs it was built from, in order, and the loop ends; the
  encoded key passes the validation of \<open>TipSetKeyFromBytes\<close>.
\<close>

theorem TipSetKey_roundtrip:
  assumes "list_all (cid_reads cidFromBytes) cids"
  shows "TipSetKey_Cids cidFromBytes (NewTipSetKey cids) = Some (Inr cids) \<and>
    TipSetKeyFromBytes cidFromBytes (TipSetKey_Bytes (NewTipSetKey cids)) = Some (Inr (NewTipSetKey cids)) \<and>
    (TipSetKey_IsEmpty (NewTipSetKey cids) \<longleftrightarrow> cids = [])"
  using decodeKey_loop_encodeKey [OF assms, of "[]"] encodeKey_Nil_iff [OF assms]
  by (simp add: TipSetKey_Cids_def TipSetKeyFromBytes_def TipSetKey_Bytes_def decodeKey_def
      NewTipSetKey_def TipSetKey_IsEmpty_def)

text \<open>A CID library for the witnesses: a CID is one byte.\<close>

definition wit_cidFromBytes :: "bytes \<Rightarrow> unit + nat \<times> cid" where
  "wit_cidFromBytes bs = (case bs of [] \<Rightarrow> Inl () | c # _ \<Rightarrow> Inr (1, [c]))"

lemma wit_cid_reads [simp]: "cid_reads wit_cidFromBytes [c]"
  by (simp add: cid_reads_def wit_cidFromBytes_def)

theorem TipSetKey_roundtrip_witness:
  "TipSetKey_Cids wit_cidFromBytes (NewTipSetKey [''x'', ''y'']) = Some (Inr [''x'', ''y''])"
  using TipSetKey_roundtrip [of wit_cidFromBytes "[''x'', ''y'']"] by simp

text \<open>
  C26. Two tipsets are equal for \<open>Equals\<close>, which compares block by block, exactly when their
  keys are equal, which is what maps and caches compare.
\<close>

theorem Equals_iff_Key:
  assumes "tipset_ok E ts" and "tipset_ok E ots"
    and "list_all (cid_reads cidFromBytes) (tsCids ts)" and "list_all (cid_reads cidFromBytes) (tsCids ots)"
  shows "TipSet_Equals E ts ots \<longleftrightarrow> Key ts = Key ots"
proof -
  have "tsCids ts = map (blockCid E) (tsBlks ts)" "tsCids ots = map (blockCid E) (tsBlks ots)"
    using assms(1,2) by (simp_all add: tipset_ok_def)
  with NewTipSetKey_inject [OF assms(3,4)] show ?thesis
    unfolding TipSet_Equals_iff Key_def by metis
qed

theorem Equals_iff_Key_witness:
  "\<not> TipSet_Equals wit_env wit_ts \<lparr>tsCids = [''x''], tsBlks = [wit_block ''x'' ''1'' [''g''] 5 7], tsHeight = 5\<rparr>"
proof -
  let ?ts = "\<lparr>tsCids = [''x''], tsBlks = [wit_block ''x'' ''1'' [''g''] 5 7], tsHeight = 5\<rparr>"
  have "NewTipSet wit_env [wit_block ''x'' ''1'' [''g''] 5 7] = Inr ?ts"
    by (simp add: NewTipSet_def wit_env_def wit_block_def)
  from Equals_iff_Key [OF NewTipSet_ok [OF wit_NewTipSet] NewTipSet_ok [OF this], of wit_cidFromBytes]
  show ?thesis by (simp add: wit_ts_def Key_def NewTipSetKey_def)
qed

end
