(* ===== verification/Messagepool.thy ===== *)
theory Messagepool
  imports Message Gas Statetree Tipset_Key "HOL-Library.AList"
begin

text \<open>
  The message pool: \<open>chain/messagepool/messagepool.go\<close>.

  The pool is a record; every operation takes the pool and returns the pool it leaves behind
  together with its result, since most error paths leave a changed pool. A Go map is an
  association list with distinct keys. What the pool calls outside itself is the parameter
  \<open>mpool_env\<close>: the \<open>Provider\<close> interface over the state manager and the chain store, the two
  \<open>lru.TwoQueueCache\<close>s, the datastore, the signature library and the address library. Every call
  to the outside that changes something there (messages stored, bytes published, updates sent to
  subscribers) is recorded in \<open>mpEffects\<close>. A panic is the error \<open>MpPanic\<close>.
\<close>

section \<open>Data\<close>

record msgSet =
  msgs :: "(uint64 \<times> SignedMessage) list"
  nextNonce :: uint64

datatype mpool_effect = PutSigned SignedMessage | PutMsg Message | MpoolAdd SignedMessage
  | MpoolRemove SignedMessage | PubSubPublish bytes

record ('sc, 'bc) MessagePool =
  localAddrs :: "address list"
  pending :: "(address \<times> msgSet) list"
  curTs :: "TipSet option"
  currentSize :: int
  maxTxPoolSizeHi :: int
  maxTxPoolSizeLo :: int
  pruneTrigger :: bool
  blsSigCache :: 'bc
  sigValCache :: 'sc
  localMsgs :: "(bytes \<times> bytes) list"
  mpEffects :: "mpool_effect list"

datatype mpool_err = ErrMessageTooBig | ErrMessageValueTooHigh | ErrNonceTooLow uint64
  | ErrNotEnoughFunds bigint bigint | ErrInvalidToAddr | ErrBroadcastAnyway mpool_err
  | ErrReplaceByFee bigint | ErrNotIncluded incl_err | ErrPoolGasLimit | ErrSigTooShort
  | ErrSigType | ErrNonceOrdering uint64 uint64 | ErrExternal string | MpPanic

record ('sc, 'bc) mpool_env =
  mpMsgEnv :: msg_env
  sigsVerify :: "Signature \<Rightarrow> address \<Rightarrow> bytes \<Rightarrow> string + unit"
  addrProtocol :: "address \<Rightarrow> protocol"
  sigGet :: "'sc \<Rightarrow> bytes \<Rightarrow> bool \<times> 'sc"
  sigAdd :: "'sc \<Rightarrow> bytes \<Rightarrow> 'sc"
  blsGet :: "'bc \<Rightarrow> cid \<Rightarrow> Signature option \<times> 'bc"
  blsAdd :: "'bc \<Rightarrow> cid \<Rightarrow> Signature \<Rightarrow> 'bc"
  dsPut :: "bytes \<Rightarrow> bytes \<Rightarrow> string + unit"
  apiPutSigned :: "SignedMessage \<Rightarrow> string + cid"
  apiPutMessage :: "Message \<Rightarrow> string + cid"
  apiPublish :: "bytes \<Rightarrow> string + unit"
  apiGetActor :: "address \<Rightarrow> TipSet option \<Rightarrow> string + Actor"
  apiAccountKey :: "address \<Rightarrow> TipSet option \<Rightarrow> string + address"
  apiMessagesForBlock :: "BlockHeader \<Rightarrow> string + Message list \<times> SignedMessage list"
  apiMessagesForTipset :: "TipSet \<Rightarrow> string + Message list"
  apiLoadTipSet :: "TipSetKey \<Rightarrow> string + TipSet"

definition repubMsgLimit :: nat where "repubMsgLimit = 5"
definition MemPoolSizeLimitHiDefault :: int where "MemPoolSizeLimitHiDefault = 30000"
definition MemPoolSizeLimitLoDefault :: int where "MemPoolSizeLimitLoDefault = 20000"

text \<open>\<open>uint64((ReplaceByFeeRatio - 1) * 256)\<close> with the ratio \<open>1.25\<close>.\<close>

definition rbfNum :: bigint where "rbfNum = 64"
definition rbfDenom :: bigint where "rbfDenom = 256"

section \<open>The messages of one sender\<close>

definition newMsgSet :: msgSet where
  "newMsgSet = \<lparr>msgs = [], nextNonce = 0\<rparr>"

definition rbfMinPrice :: "bigint \<Rightarrow> bigint" where
  "rbfMinPrice exPrice = exPrice + exPrice * rbfNum div rbfDenom + 1"

text \<open>The check made when another message already has this sender and nonce.\<close>

definition checkReplace :: "msg_env \<Rightarrow> SignedMessage \<Rightarrow> SignedMessage \<Rightarrow> mpool_err + unit" where
  "checkReplace M m exms =
     (case (SignedMessage_Cid M m, SignedMessage_Cid M exms) of
        (Some c, Some exc) \<Rightarrow>
          if c = exc then Inr ()
          else (case (msgGasPrice (smMessage m), msgGasPrice (smMessage exms)) of
            (Some p, Some exp) \<Rightarrow>
              if rbfMinPrice exp \<le> p then Inr () else Inl (ErrReplaceByFee (rbfMinPrice exp))
          | _ \<Rightarrow> Inl MpPanic)
      | _ \<Rightarrow> Inl MpPanic)"

definition msgSet_add :: "msg_env \<Rightarrow> msgSet \<Rightarrow> SignedMessage \<Rightarrow> msgSet \<times> (mpool_err + bool)" where
  "msgSet_add M ms0 m =
     (let nonce = msgNonce (smMessage m);
          ms = (if msgs ms0 = [] \<or> nextNonce ms0 \<le> nonce then ms0\<lparr>nextNonce := nonce + 1\<rparr> else ms0);
          put = ms\<lparr>msgs := AList.update nonce m (msgs ms)\<rparr>
      in case map_of (msgs ms) nonce of
           None \<Rightarrow> (put, Inr True)
         | Some exms \<Rightarrow>
             (case checkReplace M m exms of Inl e \<Rightarrow> (ms, Inl e) | Inr _ \<Rightarrow> (put, Inr False)))"

section \<open>Signatures\<close>

definition sigCacheKey :: "msg_env \<Rightarrow> SignedMessage \<Rightarrow> mpool_err + bytes" where
  "sigCacheKey M m =
     (case sigType (smSignature m) of
        SigTypeBLS \<Rightarrow>
          if length (sigData (smSignature m)) < 90 then Inl ErrSigTooShort
          else (case SignedMessage_Cid M m of None \<Rightarrow> Inl MpPanic
            | Some c \<Rightarrow> Inr (c @ drop 64 (sigData (smSignature m))))
      | SigTypeSecp256k1 \<Rightarrow>
          (case SignedMessage_Cid M m of None \<Rightarrow> Inl MpPanic | Some c \<Rightarrow> Inr c)
      | SigTypeOther _ \<Rightarrow> Inl ErrSigType)"

definition VerifyMsgSig ::
  "('sc, 'bc) mpool_env \<Rightarrow> ('sc, 'bc) MessagePool \<Rightarrow> SignedMessage \<Rightarrow>
     ('sc, 'bc) MessagePool \<times> (mpool_err + unit)" where
  "VerifyMsgSig E mp m =
     (case sigCacheKey (mpMsgEnv E) m of Inl e \<Rightarrow> (mp, Inl e)
      | Inr sck \<Rightarrow>
          let (ok, c) = sigGet E (sigValCache mp) sck; mp1 = mp\<lparr>sigValCache := c\<rparr> in
          if ok then (mp1, Inr ())
          else (case sigsVerify E (smSignature m) (msgFrom (smMessage m))
                       (Message_Cid (mpMsgEnv E) (smMessage m)) of
                  Inl e \<Rightarrow> (mp1, Inl (ErrExternal e))
                | Inr _ \<Rightarrow> (mp1\<lparr>sigValCache := sigAdd E c sck\<rparr>, Inr ())))"

definition RecoverSig ::
  "('sc, 'bc) mpool_env \<Rightarrow> ('sc, 'bc) MessagePool \<Rightarrow> Message \<Rightarrow>
     ('sc, 'bc) MessagePool \<times> SignedMessage option" where
  "RecoverSig E mp msg =
     (let (val, c) = blsGet E (blsSigCache mp) (Message_Cid (mpMsgEnv E) msg) in
      (mp\<lparr>blsSigCache := c\<rparr>,
       map_option (\<lambda>sig. \<lparr>smMessage = msg, smSignature = sig\<rparr>) val))"

section \<open>State queries\<close>

fun stateNonce_loop :: "address \<Rightarrow> uint64 \<Rightarrow> Message list \<Rightarrow> mpool_err + uint64" where
  "stateNonce_loop addr baseNonce [] = Inr baseNonce"
| "stateNonce_loop addr baseNonce (msg # ms) =
     (if msgFrom msg = addr
      then if msgNonce msg \<noteq> baseNonce then Inl (ErrNonceOrdering (msgNonce msg) baseNonce)
           else stateNonce_loop addr (baseNonce + 1) ms
      else stateNonce_loop addr baseNonce ms)"

definition getStateNonce :: "('sc, 'bc) mpool_env \<Rightarrow> address \<Rightarrow> TipSet option \<Rightarrow> mpool_err + uint64" where
  "getStateNonce E addr cur =
     (case apiGetActor E addr cur of Inl e \<Rightarrow> Inl (ErrExternal e)
      | Inr act \<Rightarrow>
          (case cur of None \<Rightarrow> Inr (actNonce act)
           | Some ts \<Rightarrow>
               (case apiMessagesForTipset E ts of Inl e \<Rightarrow> Inl (ErrExternal e)
                | Inr ms \<Rightarrow> stateNonce_loop addr (actNonce act) ms)))"

definition getStateBalance :: "('sc, 'bc) mpool_env \<Rightarrow> address \<Rightarrow> TipSet option \<Rightarrow> mpool_err + bigint" where
  "getStateBalance E addr ts =
     (case apiGetActor E addr ts of Inl e \<Rightarrow> Inl (ErrExternal e) | Inr act \<Rightarrow> Inr (actBalance act))"

definition getNonceLocked ::
  "('sc, 'bc) mpool_env \<Rightarrow> ('sc, 'bc) MessagePool \<Rightarrow> address \<Rightarrow> TipSet option \<Rightarrow> mpool_err + uint64" where
  "getNonceLocked E mp addr cur =
     (case getStateNonce E addr cur of Inl e \<Rightarrow> Inl e
      | Inr stateNonce \<Rightarrow>
          (case map_of (pending mp) addr of
             Some mst \<Rightarrow> if stateNonce > nextNonce mst then Inr stateNonce else Inr (nextNonce mst)
           | None \<Rightarrow> Inr stateNonce))"

definition GetNonce :: "('sc, 'bc) mpool_env \<Rightarrow> ('sc, 'bc) MessagePool \<Rightarrow> address \<Rightarrow> mpool_err + uint64" where
  "GetNonce E mp addr = getNonceLocked E mp addr (curTs mp)"

section \<open>Adding messages\<close>

definition emit :: "mpool_effect \<Rightarrow> ('sc, 'bc) MessagePool \<Rightarrow> ('sc, 'bc) MessagePool" where
  "emit e mp = mp\<lparr>mpEffects := mpEffects mp @ [e]\<rparr>"

text \<open>The part of \<open>addLocked\<close> after the message is stored: from the lookup of the sender's set on.\<close>

definition addPending ::
  "msg_env \<Rightarrow> ('sc, 'bc) MessagePool \<Rightarrow> SignedMessage \<Rightarrow> ('sc, 'bc) MessagePool \<times> (mpool_err + unit)" where
  "addPending M mp m =
     (let from = msgFrom (smMessage m);
          set0 = (case map_of (pending mp) from of None \<Rightarrow> newMsgSet | Some ms \<Rightarrow> ms)
      in case msgSet_add M set0 m of (mst, r) \<Rightarrow>
           let mp1 = mp\<lparr>pending := AList.update from mst (pending mp)\<rparr> in
           (case r of Inl e \<Rightarrow> (mp1, Inl e)
            | Inr incr \<Rightarrow>
                let size = currentSize mp1 + 1;
                    mp2 = (if incr
                           then mp1\<lparr>currentSize := size,
                                    pruneTrigger := pruneTrigger mp1 \<or> size > maxTxPoolSizeHi mp1\<rparr>
                           else mp1)
                in (emit (MpoolAdd m) mp2, Inr ())))"

definition addLocked ::
  "('sc, 'bc) mpool_env \<Rightarrow> ('sc, 'bc) MessagePool \<Rightarrow> SignedMessage \<Rightarrow>
     ('sc, 'bc) MessagePool \<times> (mpool_err + unit)" where
  "addLocked E mp m =
     (let mp1 = (if sigType (smSignature m) = SigTypeBLS
                 then mp\<lparr>blsSigCache := blsAdd E (blsSigCache mp)
                          (Message_Cid (mpMsgEnv E) (smMessage m)) (smSignature m)\<rparr>
                 else mp)
      in if msgGasLimit (smMessage m) > BlockGasLimit then (mp1, Inl ErrPoolGasLimit)
         else case apiPutSigned E m of Inl e \<Rightarrow> (mp1, Inl (ErrExternal e))
         | Inr _ \<Rightarrow>
             let mp2 = emit (PutSigned m) mp1 in
             (case apiPutMessage E (smMessage m) of Inl e \<Rightarrow> (mp2, Inl (ErrExternal e))
              | Inr _ \<Rightarrow> addPending (mpMsgEnv E) (emit (PutMsg (smMessage m)) mp2) m))"

definition addSkipChecks ::
  "('sc, 'bc) mpool_env \<Rightarrow> ('sc, 'bc) MessagePool \<Rightarrow> SignedMessage \<Rightarrow>
     ('sc, 'bc) MessagePool \<times> (mpool_err + unit)" where
  "addSkipChecks E mp m = addLocked E mp m"

definition addTs ::
  "('sc, 'bc) mpool_env \<Rightarrow> ('sc, 'bc) MessagePool \<Rightarrow> SignedMessage \<Rightarrow> TipSet option \<Rightarrow>
     ('sc, 'bc) MessagePool \<times> (mpool_err + unit)" where
  "addTs E mp m cur =
     (case getStateNonce E (msgFrom (smMessage m)) cur of
        Inl e \<Rightarrow> (mp, Inl (ErrBroadcastAnyway e))
      | Inr snonce \<Rightarrow>
          if snonce > msgNonce (smMessage m) then (mp, Inl (ErrNonceTooLow snonce))
          else (case getStateBalance E (msgFrom (smMessage m)) cur of
             Inl e \<Rightarrow> (mp, Inl (ErrBroadcastAnyway e))
           | Inr balance \<Rightarrow>
               if msgGasPrice (smMessage m) = None then (mp, Inl MpPanic)
               else if balance < RequiredFunds (smMessage m)
               then (mp, Inl (ErrNotEnoughFunds (RequiredFunds (smMessage m)) balance))
               else addLocked E mp m))"

definition Add ::
  "('sc, 'bc) mpool_env \<Rightarrow> ('sc, 'bc) MessagePool \<Rightarrow> SignedMessage \<Rightarrow>
     ('sc, 'bc) MessagePool \<times> (mpool_err + unit)" where
  "Add E mp m =
     (if SignedMessage_Size (mpMsgEnv E) m > 32 * 1024 then (mp, Inl ErrMessageTooBig)
      else if msgTo (smMessage m) = address_Undef then (mp, Inl ErrInvalidToAddr)
      else case msgValue (smMessage m) of None \<Rightarrow> (mp, Inl MpPanic)
      | Some value \<Rightarrow>
          if \<not> value < TotalFilecoinInt then (mp, Inl ErrMessageValueTooHigh)
          else (case VerifyMsgSig E mp m of
             (mp1, Inl e) \<Rightarrow> (mp1, Inl e)
           | (mp1, Inr _) \<Rightarrow> addTs E mp1 m (curTs mp1)))"

definition addLocal ::
  "('sc, 'bc) mpool_env \<Rightarrow> ('sc, 'bc) MessagePool \<Rightarrow> SignedMessage \<Rightarrow> bytes \<Rightarrow>
     ('sc, 'bc) MessagePool \<times> (mpool_err + unit)" where
  "addLocal E mp m msgb =
     (let mp1 = mp\<lparr>localAddrs := List.insert (msgFrom (smMessage m)) (localAddrs mp)\<rparr> in
      case SignedMessage_Cid (mpMsgEnv E) m of None \<Rightarrow> (mp1, Inl MpPanic)
      | Some c \<Rightarrow>
          (case dsPut E c msgb of Inl e \<Rightarrow> (mp1, Inl (ErrExternal e))
           | Inr _ \<Rightarrow> (mp1\<lparr>localMsgs := AList.update c msgb (localMsgs mp1)\<rparr>, Inr ())))"

definition verifyMsgBeforePush :: "msg_env \<Rightarrow> SignedMessage \<Rightarrow> epoch \<Rightarrow> mpool_err + unit" where
  "verifyMsgBeforePush M m epoch =
     (case (PricelistByEpoch prices epoch, SignedMessage_ChainLength M m) of
        (Some pl, Some len) \<Rightarrow>
          (case ValidForBlockInclusion (smMessage m) (Total (OnChainMessage pl len)) of
             Inl PanicNilInt \<Rightarrow> Inl MpPanic
           | Inl e \<Rightarrow> Inl (ErrNotIncluded e)
           | Inr _ \<Rightarrow> Inr ())
      | _ \<Rightarrow> Inl MpPanic)"

definition publish ::
  "('sc, 'bc) mpool_env \<Rightarrow> ('sc, 'bc) MessagePool \<Rightarrow> bytes \<Rightarrow>
     ('sc, 'bc) MessagePool \<times> (mpool_err + unit)" where
  "publish E mp msgb =
     (case apiPublish E msgb of Inl e \<Rightarrow> (mp, Inl (ErrExternal e))
      | Inr _ \<Rightarrow> (emit (PubSubPublish msgb) mp, Inr ()))"

definition Push ::
  "('sc, 'bc) mpool_env \<Rightarrow> ('sc, 'bc) MessagePool \<Rightarrow> SignedMessage \<Rightarrow>
     ('sc, 'bc) MessagePool \<times> (mpool_err + cid)" where
  "Push E mp m =
     (case curTs mp of None \<Rightarrow> (mp, Inl MpPanic)
      | Some ts \<Rightarrow>
          (case verifyMsgBeforePush (mpMsgEnv E) m (tsHeight ts) of Inl e \<Rightarrow> (mp, Inl e)
           | Inr _ \<Rightarrow>
               (case smSerialize (mpMsgEnv E) m of Inl e \<Rightarrow> (mp, Inl (ErrExternal e))
                | Inr msgb \<Rightarrow>
                    (case Add E mp m of (mp1, Inl e) \<Rightarrow> (mp1, Inl e)
                     | (mp1, Inr _) \<Rightarrow>
                         (case addLocal E mp1 m msgb of (mp2, Inl e) \<Rightarrow> (mp2, Inl e)
                          | (mp2, Inr _) \<Rightarrow>
                              (case SignedMessage_Cid (mpMsgEnv E) m of None \<Rightarrow> (mp2, Inl MpPanic)
                               | Some c \<Rightarrow>
                                   (case publish E mp2 msgb of (mp3, Inl e) \<Rightarrow> (mp3, Inl e)
                                    | (mp3, Inr _) \<Rightarrow> (mp3, Inr c))))))))"

text \<open>
  \<open>cb\<close> builds and signs the message for the key address and nonce it is given. An error of
  \<open>addLocal\<close> is only logged.
\<close>

definition PushWithNonce ::
  "('sc, 'bc) mpool_env \<Rightarrow> ('sc, 'bc) MessagePool \<Rightarrow> address \<Rightarrow>
     (address \<Rightarrow> uint64 \<Rightarrow> string + SignedMessage) \<Rightarrow>
     ('sc, 'bc) MessagePool \<times> (mpool_err + SignedMessage)" where
  "PushWithNonce E mp addr cb =
     (case (if addrProtocol E addr = ProtoID then apiAccountKey E addr (curTs mp) else Inr addr) of
        Inl e \<Rightarrow> (mp, Inl (ErrExternal e))
      | Inr fromKey \<Rightarrow>
          (case getNonceLocked E mp fromKey (curTs mp) of Inl e \<Rightarrow> (mp, Inl e)
           | Inr nonce \<Rightarrow>
               (case cb fromKey nonce of Inl e \<Rightarrow> (mp, Inl (ErrExternal e))
                | Inr msg \<Rightarrow>
                    (case curTs mp of None \<Rightarrow> (mp, Inl MpPanic)
                     | Some ts \<Rightarrow>
                         (case verifyMsgBeforePush (mpMsgEnv E) msg (tsHeight ts) of
                            Inl e \<Rightarrow> (mp, Inl e)
                          | Inr _ \<Rightarrow>
                              (case smSerialize (mpMsgEnv E) msg of Inl e \<Rightarrow> (mp, Inl (ErrExternal e))
                               | Inr msgb \<Rightarrow>
                                   (case addLocked E mp msg of (mp1, Inl e) \<Rightarrow> (mp1, Inl e)
                                    | (mp1, Inr _) \<Rightarrow>
                                        (case addLocal E mp1 msg msgb of
                                           (mp2, Inl MpPanic) \<Rightarrow> (mp2, Inl MpPanic)
                                         | (mp2, _) \<Rightarrow>
                                             (case publish E mp2 msgb of
                                                (mp3, Inl e) \<Rightarrow> (mp3, Inl e)
                                              | (mp3, Inr _) \<Rightarrow> (mp3, Inr msg))))))))))"

section \<open>Removing and listing messages\<close>

fun maxNonce_loop :: "uint64 \<Rightarrow> (uint64 \<times> SignedMessage) list \<Rightarrow> uint64" where
  "maxNonce_loop mx [] = mx"
| "maxNonce_loop mx ((nonce, _) # ms) = maxNonce_loop (if mx < nonce then nonce else mx) ms"

definition remove :: "address \<Rightarrow> uint64 \<Rightarrow> ('sc, 'bc) MessagePool \<Rightarrow> ('sc, 'bc) MessagePool" where
  "remove from nonce mp =
     (case map_of (pending mp) from of None \<Rightarrow> mp
      | Some mst \<Rightarrow>
          let mp1 = (case map_of (msgs mst) nonce of
                       Some m \<Rightarrow> (emit (MpoolRemove m) mp)\<lparr>currentSize := currentSize mp - 1\<rparr>
                     | None \<Rightarrow> mp);
              ms = AList.delete nonce (msgs mst)
          in if ms = [] then mp1\<lparr>pending := AList.delete from (pending mp1)\<rparr>
             else let mx = maxNonce_loop 0 ms; mx' = (if mx < nonce then nonce else mx) in
               mp1\<lparr>pending := AList.update from (mst\<lparr>msgs := ms, nextNonce := mx' + 1\<rparr>) (pending mp1)\<rparr>)"

definition Remove :: "address \<Rightarrow> uint64 \<Rightarrow> ('sc, 'bc) MessagePool \<Rightarrow> ('sc, 'bc) MessagePool" where
  "Remove from nonce mp = remove from nonce mp"

definition pendingFor :: "('sc, 'bc) MessagePool \<Rightarrow> address \<Rightarrow> SignedMessage list" where
  "pendingFor mp a =
     (case map_of (pending mp) a of None \<Rightarrow> []
      | Some mst \<Rightarrow>
          sort_slice (\<lambda>x y. msgNonce (smMessage x) < msgNonce (smMessage y)) (map snd (msgs mst)))"

definition PendingFor :: "('sc, 'bc) MessagePool \<Rightarrow> address \<Rightarrow> SignedMessage list \<times> TipSet option" where
  "PendingFor mp a = (pendingFor mp a, curTs mp)"

text \<open>\<open>addrs\<close> is the order in which the range over the pending map visits its keys.\<close>

definition Pending :: "address list \<Rightarrow> ('sc, 'bc) MessagePool \<Rightarrow> SignedMessage list \<times> TipSet option" where
  "Pending addrs mp = (concat (map (pendingFor mp) addrs), curTs mp)"

section \<open>Head changes\<close>

fun recoverSigs ::
  "('sc, 'bc) mpool_env \<Rightarrow> ('sc, 'bc) MessagePool \<Rightarrow> SignedMessage list \<Rightarrow> Message list \<Rightarrow>
     ('sc, 'bc) MessagePool \<times> SignedMessage list" where
  "recoverSigs E mp out [] = (mp, out)"
| "recoverSigs E mp out (msg # ms) =
     (case RecoverSig E mp msg of
        (mp1, Some smsg) \<Rightarrow> recoverSigs E mp1 (out @ [smsg]) ms
      | (mp1, None) \<Rightarrow> recoverSigs E mp1 out ms)"

fun MessagesForBlocks_loop ::
  "('sc, 'bc) mpool_env \<Rightarrow> ('sc, 'bc) MessagePool \<Rightarrow> SignedMessage list \<Rightarrow> BlockHeader list \<Rightarrow>
     ('sc, 'bc) MessagePool \<times> (mpool_err + SignedMessage list)" where
  "MessagesForBlocks_loop E mp out [] = (mp, Inr out)"
| "MessagesForBlocks_loop E mp out (b # bs) =
     (case apiMessagesForBlock E b of Inl e \<Rightarrow> (mp, Inl (ErrExternal e))
      | Inr (bmsgs, smsgs) \<Rightarrow>
          (case recoverSigs E mp (out @ smsgs) bmsgs of
             (mp1, out1) \<Rightarrow> MessagesForBlocks_loop E mp1 out1 bs))"

definition MessagesForBlocks ::
  "('sc, 'bc) mpool_env \<Rightarrow> ('sc, 'bc) MessagePool \<Rightarrow> BlockHeader list \<Rightarrow>
     ('sc, 'bc) MessagePool \<times> (mpool_err + SignedMessage list)" where
  "MessagesForBlocks E mp blks = MessagesForBlocks_loop E mp [] blks"

text \<open>\<open>rmsgs\<close>, the reverted messages by sender and nonce, and the closures that change it.\<close>

type_synonym rmsgs = "(address \<times> (uint64 \<times> SignedMessage) list) list"

definition hc_add :: "rmsgs \<Rightarrow> SignedMessage \<Rightarrow> rmsgs" where
  "hc_add rm m =
     (let from = msgFrom (smMessage m);
          s = (case map_of rm from of None \<Rightarrow> [] | Some s \<Rightarrow> s)
      in AList.update from (AList.update (msgNonce (smMessage m)) m s) rm)"

definition hc_rm ::
  "rmsgs \<times> ('sc, 'bc) MessagePool \<Rightarrow> address \<times> uint64 \<Rightarrow> rmsgs \<times> ('sc, 'bc) MessagePool" where
  "hc_rm st k =
     (case (st, k) of ((rm, mp), (from, nonce)) \<Rightarrow>
        (case map_of rm from of None \<Rightarrow> (rm, Remove from nonce mp)
         | Some s \<Rightarrow>
             if map_of s nonce \<noteq> None
             then (AList.update from (AList.delete nonce s) rm, mp)
             else (rm, Remove from nonce mp)))"

definition msgKey :: "Message \<Rightarrow> address \<times> uint64" where
  "msgKey m = (msgFrom m, msgNonce m)"

fun hc_revert ::
  "('sc, 'bc) mpool_env \<Rightarrow> rmsgs \<Rightarrow> ('sc, 'bc) MessagePool \<Rightarrow> TipSet list \<Rightarrow>
     ('sc, 'bc) MessagePool \<times> (mpool_err + rmsgs)" where
  "hc_revert E rm mp [] = (mp, Inr rm)"
| "hc_revert E rm mp (ts # tss) =
     (case tsBlks ts of [] \<Rightarrow> (mp, Inl MpPanic)
      | _ # _ \<Rightarrow>
          (case apiLoadTipSet E (Parents ts) of Inl e \<Rightarrow> (mp, Inl (ErrExternal e))
           | Inr pts \<Rightarrow>
               (case MessagesForBlocks E mp (tsBlks ts) of (mp1, Inl e) \<Rightarrow> (mp1, Inl e)
                | (mp1, Inr ms) \<Rightarrow>
                    hc_revert E (foldl hc_add rm ms) (mp1\<lparr>curTs := Some pts\<rparr>) tss)))"

fun hc_apply_blocks ::
  "('sc, 'bc) mpool_env \<Rightarrow> rmsgs \<Rightarrow> ('sc, 'bc) MessagePool \<Rightarrow> BlockHeader list \<Rightarrow>
     ('sc, 'bc) MessagePool \<times> (mpool_err + rmsgs)" where
  "hc_apply_blocks E rm mp [] = (mp, Inr rm)"
| "hc_apply_blocks E rm mp (b # bs) =
     (case apiMessagesForBlock E b of Inl e \<Rightarrow> (mp, Inl (ErrExternal e))
      | Inr (bmsgs, smsgs) \<Rightarrow>
          (case foldl hc_rm (rm, mp) (map (msgKey \<circ> smMessage) smsgs @ map msgKey bmsgs) of
             (rm1, mp1) \<Rightarrow> hc_apply_blocks E rm1 mp1 bs))"

fun hc_apply ::
  "('sc, 'bc) mpool_env \<Rightarrow> rmsgs \<Rightarrow> ('sc, 'bc) MessagePool \<Rightarrow> TipSet list \<Rightarrow>
     ('sc, 'bc) MessagePool \<times> (mpool_err + rmsgs)" where
  "hc_apply E rm mp [] = (mp, Inr rm)"
| "hc_apply E rm mp (ts # tss) =
     (case hc_apply_blocks E rm mp (tsBlks ts) of (mp1, Inl e) \<Rightarrow> (mp1, Inl e)
      | (mp1, Inr rm1) \<Rightarrow> hc_apply E rm1 (mp1\<lparr>curTs := Some ts\<rparr>) tss)"

text \<open>An error of \<open>addSkipChecks\<close> is only logged; a panic is not caught.\<close>

fun hc_readd ::
  "('sc, 'bc) mpool_env \<Rightarrow> ('sc, 'bc) MessagePool \<Rightarrow> SignedMessage list \<Rightarrow>
     ('sc, 'bc) MessagePool \<times> (mpool_err + unit)" where
  "hc_readd E mp [] = (mp, Inr ())"
| "hc_readd E mp (m # ms) =
     (case addSkipChecks E mp m of
        (mp1, Inl MpPanic) \<Rightarrow> (mp1, Inl MpPanic)
      | (mp1, _) \<Rightarrow> hc_readd E mp1 ms)"

text \<open>
  \<open>rng\<close> is the order in which the two nested ranges over the maps of \<open>rmsgs\<close> visit the messages.
  The debugging block under \<open>futureDebug\<close>, a constant that is false, is dead code.
\<close>

definition HeadChange ::
  "('sc, 'bc) mpool_env \<Rightarrow> (SignedMessage list \<Rightarrow> SignedMessage list) \<Rightarrow> ('sc, 'bc) MessagePool \<Rightarrow>
     TipSet list \<Rightarrow> TipSet list \<Rightarrow> ('sc, 'bc) MessagePool \<times> (mpool_err + unit)" where
  "HeadChange E rng mp revert apply_ts =
     (case hc_revert E [] mp revert of (mp1, Inl e) \<Rightarrow> (mp1, Inl e)
      | (mp1, Inr rm) \<Rightarrow>
          (case hc_apply E rm mp1 apply_ts of (mp2, Inl e) \<Rightarrow> (mp2, Inl e)
           | (mp2, Inr rm2) \<Rightarrow> hc_readd E mp2 (rng (concat (map (map snd \<circ> snd) rm2)))))"

section \<open>Start-up and republishing\<close>

text \<open>
  \<open>results\<close> are the entries that the query of the local message store yields: an error, or the
  bytes of a message with what \<open>UnmarshalCBOR\<close> makes of them.
\<close>

fun loadLocal ::
  "('sc, 'bc) mpool_env \<Rightarrow> ('sc, 'bc) MessagePool \<Rightarrow> (string + (string + SignedMessage)) list \<Rightarrow>
     ('sc, 'bc) MessagePool \<times> (mpool_err + unit)" where
  "loadLocal E mp [] = (mp, Inr ())"
| "loadLocal E mp (r # rs) =
     (case r of Inl e \<Rightarrow> (mp, Inl (ErrExternal e))
      | Inr (Inl e) \<Rightarrow> (mp, Inl (ErrExternal e))
      | Inr (Inr sm) \<Rightarrow>
          (case Add E mp sm of
             (mp1, Inl MpPanic) \<Rightarrow> (mp1, Inl MpPanic)
           | (mp1, _) \<Rightarrow> loadLocal E mp1 rs))"

text \<open>The pool \<open>New\<close> allocates, before the local messages are loaded and the head is known.\<close>

definition emptyPool :: "'sc \<Rightarrow> 'bc \<Rightarrow> (bytes \<times> bytes) list \<Rightarrow> ('sc, 'bc) MessagePool" where
  "emptyPool sc bc ds =
     \<lparr>localAddrs = [], pending = [], curTs = None, currentSize = 0,
      maxTxPoolSizeHi = MemPoolSizeLimitHiDefault, maxTxPoolSizeLo = MemPoolSizeLimitLoDefault,
      pruneTrigger = False, blsSigCache = bc, sigValCache = sc, localMsgs = ds, mpEffects = []\<rparr>"

text \<open>
  \<open>New\<close>: load the local messages, then take the head the subscription returns. An error of
  \<open>loadLocal\<close> is only logged.
\<close>

definition New ::
  "('sc, 'bc) mpool_env \<Rightarrow> 'sc \<Rightarrow> 'bc \<Rightarrow> (bytes \<times> bytes) list \<Rightarrow>
     (string + (string + SignedMessage)) list \<Rightarrow> TipSet option \<Rightarrow> mpool_err + ('sc, 'bc) MessagePool" where
  "New E sc bc ds results head =
     (case loadLocal E (emptyPool sc bc ds) results of
        (mp1, Inl MpPanic) \<Rightarrow> Inl MpPanic
      | (mp1, _) \<Rightarrow> Inr (mp1\<lparr>curTs := head\<rparr>))"

text \<open>The republishing case of \<open>runLoop\<close>: the messages of one local address that are due.\<close>

fun repub_due :: "uint64 \<Rightarrow> SignedMessage list \<Rightarrow> SignedMessage list" where
  "repub_due curNonce [] = []"
| "repub_due curNonce (m # ms) =
     (if msgNonce (smMessage m) < curNonce then repub_due curNonce ms
      else if msgNonce (smMessage m) \<noteq> curNonce then []
      else m # repub_due (curNonce + 1) ms)"

fun repub_collect ::
  "('sc, 'bc) mpool_env \<Rightarrow> ('sc, 'bc) MessagePool \<Rightarrow> address list \<Rightarrow> SignedMessage list" where
  "repub_collect E mp [] = []"
| "repub_collect E mp (a # as) =
     (case apiGetActor E a None of Inl _ \<Rightarrow> repub_collect E mp as
      | Inr act \<Rightarrow> repub_due (actNonce act) (pendingFor mp a) @ repub_collect E mp as)"

fun repub_publish ::
  "('sc, 'bc) mpool_env \<Rightarrow> ('sc, 'bc) MessagePool \<Rightarrow> SignedMessage list \<Rightarrow> ('sc, 'bc) MessagePool" where
  "repub_publish E mp [] = mp"
| "repub_publish E mp (m # ms) =
     (case smSerialize (mpMsgEnv E) m of Inl _ \<Rightarrow> repub_publish E mp ms
      | Inr msgb \<Rightarrow> repub_publish E (fst (publish E mp msgb)) ms)"

definition republish ::
  "('sc, 'bc) mpool_env \<Rightarrow> address list \<Rightarrow> ('sc, 'bc) MessagePool \<Rightarrow> ('sc, 'bc) MessagePool" where
  "republish E addrs mp = repub_publish E mp (take repubMsgLimit (repub_collect E mp addrs))"

end
