(* ===== verification/Mpool_Prune.thy ===== *)
theory Mpool_Prune
  imports Messagepool
begin

text \<open>
  Pruning an overfull message pool: \<open>chain/messagepool/pruning.go\<close>, with the gas estimate of
  \<open>chain/messagepool/gasguess/guessgas.go\<close>.

  Floating-point numbers are the parameter \<open>float_env\<close>: pruning only divides two converted
  integers and compares the quotients, and nothing below depends on how they are rounded. The
  code identifiers of the built-in actors are the parameter \<open>builtin_codes\<close>.
\<close>

section \<open>Association lists\<close>

lemma sum_list_update:
  fixes f :: "'k \<times> 'v \<Rightarrow> nat"
  shows "sum_list (map f (AList.update k v al)) +
      (case map_of al k of None \<Rightarrow> 0 | Some w \<Rightarrow> f (k, w)) = sum_list (map f al) + f (k, v)"
  by (induction al) (auto split: option.splits)

lemma sum_list_delete:
  fixes f :: "'k \<times> 'v \<Rightarrow> nat"
  assumes "distinct (map fst al)"
  shows "sum_list (map f (AList.delete k al)) +
      (case map_of al k of None \<Rightarrow> 0 | Some w \<Rightarrow> f (k, w)) = sum_list (map f al)"
  using assms
proof (induction al)
  case (Cons p al)
  show ?case
  proof (cases "fst p = k")
    case True
    with Cons.prems have "map_of al k = None" by (auto simp: map_of_eq_None_iff)
    with Cons True show ?thesis by (auto simp: AList.delete_eq split: option.splits)
  next
    case False
    with Cons show ?thesis by (auto simp: AList.delete_eq split: option.splits)
  qed
qed simp

lemma sum_list_delete_le:
  fixes f :: "'k \<times> 'v \<Rightarrow> nat"
  shows "sum_list (map f (AList.delete k al)) \<le> sum_list (map f al)"
  by (induction al) (auto simp: AList.delete_eq)

lemma length_alist_update:
  "length (AList.update k v al) = (if map_of al k = None then length al + 1 else length al)"
  by (induction al) auto

lemma length_alist_delete:
  "distinct (map fst al) \<Longrightarrow>
     length (AList.delete k al) + (if map_of al k = None then 0 else 1) = length al"
  using sum_list_delete [of al "\<lambda>_. 1" k] by (cases "map_of al k") (simp_all add: sum_list_triv)

lemma set_alist_update: "x \<in> set (AList.update k v al) \<Longrightarrow> x = (k, v) \<or> x \<in> set al"
  by (induction al) (auto split: if_splits)

lemma set_alist_delete: "x \<in> set (AList.delete k al) \<Longrightarrow> x \<in> set al \<and> fst x \<noteq> k"
  by (auto simp: AList.delete_eq)

lemma list_all_alist_update: "list_all P al \<Longrightarrow> P (k, v) \<Longrightarrow> list_all P (AList.update k v al)"
  by (induction al) auto

lemma list_all_alist_delete: "list_all P al \<Longrightarrow> list_all P (AList.delete k al)"
  by (induction al) (auto simp: AList.delete_eq)

lemmas alist_simps = distinct_update distinct_delete update_conv' delete_conv'
  length_alist_update list_all_alist_update list_all_alist_delete

section \<open>Gas estimates\<close>

record builtin_codes =
  InitActorCodeID :: cid
  StorageMarketActorCodeID :: cid
  StorageMinerActorCodeID :: cid
  StoragePowerActorCodeID :: cid

definition failedGasGuessMax :: int where "failedGasGuessMax = 25000000"

definition Costs :: "builtin_codes \<Rightarrow> ((cid \<times> uint64) \<times> int) list" where
  "Costs B =
     [((InitActorCodeID B, 2), 8916753),
      ((StorageMarketActorCodeID B, 2), 6955002),
      ((StorageMarketActorCodeID B, 4), 245436108),
      ((StorageMinerActorCodeID B, 4), 2315133),
      ((StorageMinerActorCodeID B, 5), 1600271356),
      ((StorageMinerActorCodeID B, 6), 22864493),
      ((StorageMinerActorCodeID B, 7), 142002419),
      ((StorageMinerActorCodeID B, 10), 23008274),
      ((StorageMinerActorCodeID B, 11), 19303178),
      ((StorageMinerActorCodeID B, 14), 566356835),
      ((StorageMinerActorCodeID B, 16), 5325185),
      ((StorageMinerActorCodeID B, 18), 2328637),
      ((StoragePowerActorCodeID B, 2), 23600956)]"

text \<open>
  \<open>int64(float64(GasLimit) * 0.5)\<close> truncates towards zero; it is exact for limits below \<open>2 ^ 53\<close>,
  and the pool holds none above the block gas limit.
\<close>

definition failedGuess :: "SignedMessage \<Rightarrow> int" where
  "failedGuess msg =
     (let guess = go_div (msgGasLimit (smMessage msg)) 2 in
      if guess > failedGasGuessMax then failedGasGuessMax else guess)"

text \<open>The guess and whether it comes with an error; the error is only logged.\<close>

definition GuessGasUsed ::
  "(address \<Rightarrow> protocol) \<Rightarrow> builtin_codes \<Rightarrow> SignedMessage \<Rightarrow> (address \<Rightarrow> string + Actor) \<Rightarrow> int \<times> bool" where
  "GuessGasUsed proto B msg al =
     (if msgMethod (smMessage msg) = MethodSend
      then (case proto (msgFrom (smMessage msg)) of
              ProtoBLS \<Rightarrow> (1298450, False)
            | ProtoSECP256K1 \<Rightarrow> (1385999, False)
            | _ \<Rightarrow> (1298450, False))
      else case al (msgTo (smMessage msg)) of Inl _ \<Rightarrow> (failedGuess msg, True)
      | Inr to \<Rightarrow>
          (case map_of (Costs B) (actCode to, msgMethod (smMessage msg)) of
             None \<Rightarrow> (failedGuess msg, True)
           | Some guess \<Rightarrow>
               (if guess > msgGasLimit (smMessage msg) then msgGasLimit (smMessage msg) else guess, False)))"

section \<open>Messages that could go into a block, by sender\<close>

record senderMeta =
  lastReward :: bigint
  lastGasLimit :: int
  gasReward :: "bigint list"
  gasLimit :: "int list"
  metaMsgs :: "SignedMessage list"

text \<open>\<open>inclNonces\<close> and \<open>inclBalances\<close> are always written together: one map holds both values.\<close>

record selState =
  incl :: "(address \<times> uint64 \<times> bigint) list"
  outBySender :: "(address \<times> senderMeta) list"

definition emptyMeta :: senderMeta where
  "emptyMeta = \<lparr>lastReward = 0, lastGasLimit = 0, gasReward = [], gasLimit = [], metaMsgs = []\<rparr>"

text \<open>The tail of the loop body, for a message that is the next one of its sender.\<close>

definition includeMsg ::
  "('sc, 'bc) mpool_env \<Rightarrow> builtin_codes \<Rightarrow> TipSet \<Rightarrow> bigint \<Rightarrow> selState \<Rightarrow> SignedMessage \<Rightarrow> selState" where
  "includeMsg E B ts balance st msg =
     (let from = msgFrom (smMessage msg);
          sm = (case map_of (outBySender st) from of None \<Rightarrow> emptyMeta | Some sm \<Rightarrow> sm);
          gl = i64 (lastGasLimit sm + msgGasLimit (smMessage msg));
          guessed = fst (GuessGasUsed (addrProtocol E) B msg (\<lambda>a. apiGetActor E a (Some ts)));
          rw = lastReward sm + NewInt guessed * bigOf (msgGasPrice (smMessage msg))
      in st\<lparr>incl := AList.update from
              (msgNonce (smMessage msg) + 1, balance - RequiredFunds (smMessage msg)) (incl st),
            outBySender := AList.update from
              \<lparr>lastReward = rw, lastGasLimit = gl, gasReward = gasReward sm @ [rw],
               gasLimit = gasLimit sm @ [gl], metaMsgs = metaMsgs sm @ [msg]\<rparr> (outBySender st)\<rparr>)"

definition lookupIncl ::
  "('sc, 'bc) mpool_env \<Rightarrow> selState \<Rightarrow> address \<Rightarrow> (selState \<times> uint64 \<times> bigint) option" where
  "lookupIncl E st from =
     (case map_of (incl st) from of
        Some (n, b) \<Rightarrow> Some (st, n, b)
      | None \<Rightarrow>
          (case apiGetActor E from None of Inl _ \<Rightarrow> None
           | Inr act \<Rightarrow>
               Some (st\<lparr>incl := AList.update from (actNonce act, actBalance act) (incl st)\<rparr>,
                     actNonce act, actBalance act)))"

text \<open>One turn of the loop; \<open>None\<close> is a panic.\<close>

definition selectMsg ::
  "('sc, 'bc) mpool_env \<Rightarrow> builtin_codes \<Rightarrow> TipSet \<Rightarrow> selState \<Rightarrow> SignedMessage \<Rightarrow> selState option" where
  "selectMsg E B ts st msg =
     (case verifyMsgBeforePush (mpMsgEnv E) msg (tsHeight ts) of
        Inl MpPanic \<Rightarrow> None
      | Inl _ \<Rightarrow> Some st
      | Inr _ \<Rightarrow>
          if msgGasLimit (smMessage msg) > BlockGasLimit then Some st
          else if msgTo (smMessage msg) = address_Undef then Some st
          else (case lookupIncl E st (msgFrom (smMessage msg)) of None \<Rightarrow> Some st
          | Some (st1, nonce, balance) \<Rightarrow>
              if balance < RequiredFunds (smMessage msg) then Some st1
              else if msgNonce (smMessage msg) > nonce then Some st1
              else if msgNonce (smMessage msg) < nonce then Some st1
              else Some (includeMsg E B ts balance st1 msg)))"

fun selectMsgs ::
  "('sc, 'bc) mpool_env \<Rightarrow> builtin_codes \<Rightarrow> TipSet option \<Rightarrow> selState \<Rightarrow> SignedMessage list \<Rightarrow> selState option" where
  "selectMsgs E B ots st [] = Some st"
| "selectMsgs E B ots st (msg # ms) =
     (case ots of None \<Rightarrow> None
      | Some ts \<Rightarrow>
          (case selectMsg E B ts st msg of None \<Rightarrow> None
           | Some st1 \<Rightarrow> selectMsgs E B ots st1 ms))"

section \<open>Choosing the messages to keep\<close>

record 'f float_env =
  fOfBig :: "bigint \<Rightarrow> 'f"
  fOfInt64 :: "int \<Rightarrow> 'f"
  fDiv :: "'f \<Rightarrow> 'f \<Rightarrow> 'f"
  fGe :: "'f \<Rightarrow> 'f \<Rightarrow> bool"
  fZero :: 'f

text \<open>\<open>bestSender\<close>, \<open>nBest\<close> and \<open>bestGasToReward\<close>, updated over the messages of one sender.\<close>

fun best_inner ::
  "'f float_env \<Rightarrow> int \<Rightarrow> nat \<Rightarrow> address \<Rightarrow> senderMeta \<Rightarrow> address \<times> nat \<times> 'f \<Rightarrow> nat list \<Rightarrow> address \<times> nat \<times> 'f" where
  "best_inner F lo outlen sender meta best [] = best"
| "best_inner F lo outlen sender meta best (n # ns) =
     (if int n + int outlen \<ge> lo then best
      else let g = fDiv F (fOfBig F (gasReward meta ! n)) (fOfInt64 F (gasLimit meta ! n)) in
        best_inner F lo outlen sender meta
          (if fGe F g (snd (snd best)) then (sender, n + 1, g) else best) ns)"

fun best_outer ::
  "'f float_env \<Rightarrow> int \<Rightarrow> nat \<Rightarrow> (address \<times> senderMeta) list \<Rightarrow> address \<times> nat \<times> 'f \<Rightarrow> address list \<Rightarrow>
     address \<times> nat \<times> 'f" where
  "best_outer F lo outlen bys best [] = best"
| "best_outer F lo outlen bys best (s # ss) =
     (case map_of bys s of None \<Rightarrow> best_outer F lo outlen bys best ss
      | Some meta \<Rightarrow>
          best_outer F lo outlen bys
            (best_inner F lo outlen s meta best [0..<length (metaMsgs meta)]) ss)"

definition takeBest :: "(address \<times> senderMeta) list \<Rightarrow> address \<Rightarrow> senderMeta \<Rightarrow> nat \<Rightarrow> (address \<times> senderMeta) list" where
  "takeBest bys sender meta n =
     (let meta' = meta\<lparr>metaMsgs := drop n (metaMsgs meta), gasLimit := drop n (gasLimit meta),
                       gasReward := drop n (gasReward meta)\<rparr>
      in if metaMsgs meta' = [] then AList.delete sender bys else AList.update sender meta' bys)"

lemma best_inner_bound:
  assumes "\<forall>n \<in> set ns. n < k" "nb0 \<noteq> 0 \<longrightarrow> ok s0 nb0" "\<forall>n. n < k \<and> int n + int outlen < lo \<longrightarrow> ok sender (n + 1)"
    and "best_inner F lo outlen sender meta (s0, nb0, g0) ns = (s, nb, g)" "nb \<noteq> 0"
  shows "ok s nb"
  using assms
proof (induction ns arbitrary: s0 nb0 g0)
  case (Cons n ns)
  show ?case
  proof (cases "int n + int outlen \<ge> lo")
    case True
    with Cons.prems show ?thesis by simp
  next
    case False
    define g' where "g' = fDiv F (fOfBig F (gasReward meta ! n)) (fOfInt64 F (gasLimit meta ! n))"
    have "ok sender (n + 1)" using Cons.prems(1,3) False by simp
    with Cons.prems False Cons.IH [of "n + 1" sender g'] Cons.IH [of nb0 s0 g0] show ?thesis
      by (auto simp: g'_def Let_def split: if_splits)
  qed
qed simp

lemma best_outer_bound:
  assumes "nb0 \<noteq> 0 \<longrightarrow> (\<exists>meta. map_of bys s0 = Some meta \<and> nb0 \<le> length (metaMsgs meta) \<and> int nb0 + int outlen \<le> lo)"
    and "best_outer F lo outlen bys (s0, nb0, g0) ss = (s, nb, g)" "nb \<noteq> 0"
  shows "\<exists>meta. map_of bys s = Some meta \<and> nb \<le> length (metaMsgs meta) \<and> int nb + int outlen \<le> lo"
  using assms
proof (induction ss arbitrary: s0 nb0 g0)
  case (Cons x ss)
  let ?ok = "\<lambda>s nb. \<exists>meta. map_of bys s = Some meta \<and> nb \<le> length (metaMsgs meta) \<and> int nb + int outlen \<le> lo"
  show ?case
  proof (cases "map_of bys x")
    case None
    with Cons show ?thesis by simp
  next
    case (Some meta)
    obtain s1 n1 g1 where b: "best_inner F lo outlen x meta (s0, nb0, g0) [0..<length (metaMsgs meta)] = (s1, n1, g1)"
      by (metis prod_cases3)
    have "n1 \<noteq> 0 \<longrightarrow> ?ok s1 n1"
      using best_inner_bound [of "[0..<length (metaMsgs meta)]" "length (metaMsgs meta)" nb0 ?ok s0 outlen lo x,
          OF _ Cons.prems(1) _ b] Some by auto
    from Cons.IH [OF this] Cons.prems(2,3) Some b show ?thesis by simp
  qed
qed simp

lemma best_outer_take:
  "best_outer F lo outlen bys ([], 0, z) senders = (s, nb, g) \<Longrightarrow> nb \<noteq> 0 \<Longrightarrow> map_of bys s = Some meta \<Longrightarrow>
     nb \<le> length (metaMsgs meta) \<and> int nb + int outlen \<le> lo"
  using best_outer_bound [of 0 bys "[]" outlen lo F z senders s nb g] by auto

definition msgs_left :: "(address \<times> senderMeta) list \<Rightarrow> nat" where
  "msgs_left bys = sum_list (map (\<lambda>(_, meta). length (metaMsgs meta)) bys)"

lemma msgs_left_takeBest:
  assumes "map_of bys s = Some meta" "0 < n" "n \<le> length (metaMsgs meta)"
  shows "msgs_left (takeBest bys s meta n) < msgs_left bys"
proof -
  let ?f = "\<lambda>(_ :: address, meta). length (metaMsgs meta)"
  let ?m = "meta\<lparr>metaMsgs := drop n (metaMsgs meta), gasLimit := drop n (gasLimit meta), gasReward := drop n (gasReward meta)\<rparr>"
  have u: "sum_list (map ?f (AList.update s ?m bys)) + length (metaMsgs meta) =
      sum_list (map ?f bys) + length (drop n (metaMsgs meta))"
    using sum_list_update [of ?f s ?m bys] assms(1) by simp
  then have lt: "msgs_left (AList.update s ?m bys) < msgs_left bys"
    using assms(2,3) by (simp add: msgs_left_def)
  have "AList.delete s bys = AList.delete s (AList.update s ?m bys)"
    by (induction bys) (auto simp: AList.delete_eq)
  then have "msgs_left (AList.delete s bys) \<le> msgs_left (AList.update s ?m bys)"
    unfolding msgs_left_def by (metis sum_list_delete_le)
  with lt show ?thesis by (auto simp: takeBest_def Let_def)
qed

function pruneSelect ::
  "'f float_env \<Rightarrow> int \<Rightarrow> address list \<Rightarrow> (address \<times> senderMeta) list \<Rightarrow> SignedMessage list \<Rightarrow> SignedMessage list" where
  "pruneSelect F lo senders bys out =
     (case best_outer F lo (length out) bys ([], 0, fZero F) senders of (sender, nBest, _) \<Rightarrow>
        if nBest = 0 then out
        else case map_of bys sender of None \<Rightarrow> out
        | Some meta \<Rightarrow>
            let out1 = out @ take nBest (metaMsgs meta) in
            if int (length out1) \<ge> lo then out1
            else pruneSelect F lo senders (takeBest bys sender meta nBest) out1)"
  by pat_completeness auto
termination
  by (relation "measure (\<lambda>(F, lo, senders, bys, out). msgs_left bys)")
    (auto intro!: msgs_left_takeBest dest: best_outer_take [OF sym])

declare pruneSelect.simps [simp del]

section \<open>Pruning\<close>

definition nonceLess :: "SignedMessage \<Rightarrow> SignedMessage \<Rightarrow> bool" where
  "nonceLess x y \<longleftrightarrow> msgNonce (smMessage x) < msgNonce (smMessage y)"

fun removeBad :: "msg_env \<Rightarrow> cid list \<Rightarrow> ('sc, 'bc) MessagePool \<Rightarrow> SignedMessage list \<Rightarrow>
    ('sc, 'bc) MessagePool \<times> (mpool_err + unit)" where
  "removeBad M good mp [] = (mp, Inr ())"
| "removeBad M good mp (m # ms) =
     (case SignedMessage_Cid M m of None \<Rightarrow> (mp, Inl MpPanic)
      | Some c \<Rightarrow>
          removeBad M good
            (if c \<in> set good then mp else remove (msgFrom (smMessage m)) (msgNonce (smMessage m)) mp) ms)"

text \<open>
  \<open>addrs\<close> is the order in which the range over \<open>mp.pending\<close> visits its keys. The sort by nonce
  mixes senders; what a message does to the loop state only depends on the messages of its own
  sender that come before it.
\<close>

definition pruneMessages ::
  "('sc, 'bc) mpool_env \<Rightarrow> builtin_codes \<Rightarrow> 'f float_env \<Rightarrow> address list \<Rightarrow> ('sc, 'bc) MessagePool \<Rightarrow>
     TipSet option \<Rightarrow> ('sc, 'bc) MessagePool \<times> (mpool_err + unit)" where
  "pruneMessages E B F addrs mp ts =
     (let ms = sort_slice nonceLess (concat (map (pendingFor mp) addrs)) in
      case selectMsgs E B ts \<lparr>incl = [], outBySender = []\<rparr> ms of
        None \<Rightarrow> (mp, Inl MpPanic)
      | Some st \<Rightarrow>
          let senders = sort_slice (<) (map fst (outBySender st));
              out = pruneSelect F (maxTxPoolSizeLo mp) senders (outBySender st) []
          in (case those (map (SignedMessage_Cid (mpMsgEnv E)) out) of None \<Rightarrow> (mp, Inl MpPanic)
              | Some good \<Rightarrow> removeBad (mpMsgEnv E) good mp ms))"

definition pruneExcessMessages ::
  "('sc, 'bc) mpool_env \<Rightarrow> builtin_codes \<Rightarrow> 'f float_env \<Rightarrow> address list \<Rightarrow> ('sc, 'bc) MessagePool \<Rightarrow>
     ('sc, 'bc) MessagePool \<times> (mpool_err + unit)" where
  "pruneExcessMessages E B F addrs mp =
     (if currentSize mp < maxTxPoolSizeHi mp then (mp, Inr ())
      else pruneMessages E B F addrs mp (curTs mp))"

end
