(* ===== verification/Mpool_Inv.thy ===== *)
theory Mpool_Inv
  imports Mpool_Prune
begin

text \<open>
  The message pool: its invariant, and what its operations do to the messages it holds.

  \<open>pend\<close> is the abstract pool, the message of a sender with a nonce. The locale
  \<open>pool_invariant\<close> carries an invariant through every operation from two facts, that it survives
  \<open>addPending\<close> and \<open>remove\<close>; it is interpreted for the shape of the pool (\<open>mp_ok\<close>) and for the
  counters behind \<open>GetNonce\<close> (\<open>nonce_ok\<close>).
\<close>

section \<open>The invariant\<close>

definition pend :: "('sc, 'bc) MessagePool \<Rightarrow> address \<Rightarrow> uint64 \<Rightarrow> SignedMessage option" where
  "pend mp a n = (case map_of (pending mp) a of None \<Rightarrow> None | Some ms \<Rightarrow> map_of (msgs ms) n)"

definition entry_ok :: "address \<Rightarrow> uint64 \<times> SignedMessage \<Rightarrow> bool" where
  "entry_ok a p \<longleftrightarrow> msgNonce (smMessage (snd p)) = fst p \<and> msgFrom (smMessage (snd p)) = a \<and>
     msgGasLimit (smMessage (snd p)) \<le> BlockGasLimit"

definition mset_ok :: "address \<times> msgSet \<Rightarrow> bool" where
  "mset_ok p \<longleftrightarrow> msgs (snd p) \<noteq> [] \<and> distinct (map fst (msgs (snd p))) \<and>
     list_all (entry_ok (fst p)) (msgs (snd p))"

definition pool_size :: "(address \<times> msgSet) list \<Rightarrow> nat" where
  "pool_size ps = sum_list (map (\<lambda>p. length (msgs (snd p))) ps)"

definition mp_ok :: "('sc, 'bc) MessagePool \<Rightarrow> bool" where
  "mp_ok mp \<longleftrightarrow> distinct (map fst (pending mp)) \<and> list_all mset_ok (pending mp) \<and>
     currentSize mp = int (pool_size (pending mp))"

definition nonces_below :: "address \<times> msgSet \<Rightarrow> bool" where
  "nonces_below p \<longleftrightarrow> list_all (\<lambda>q. fst q < nextNonce (snd p)) (msgs (snd p))"

definition nonce_ok :: "('sc, 'bc) MessagePool \<Rightarrow> bool" where
  "nonce_ok mp \<longleftrightarrow> mp_ok mp \<and> list_all nonces_below (pending mp)"

lemma list_all_map_of: "list_all P al \<Longrightarrow> map_of al k = Some v \<Longrightarrow> P (k, v)"
  by (metis list_all_iff map_of_SomeD)

lemma alist_update_not_Nil: "AList.update k v al \<noteq> []"
  by (cases al) auto

lemma emit_simps [simp]:
  "pending (emit e mp) = pending mp" "currentSize (emit e mp) = currentSize mp"
  "curTs (emit e mp) = curTs mp" "sigValCache (emit e mp) = sigValCache mp"
  "blsSigCache (emit e mp) = blsSigCache mp" "maxTxPoolSizeHi (emit e mp) = maxTxPoolSizeHi mp"
  "maxTxPoolSizeLo (emit e mp) = maxTxPoolSizeLo mp" "pruneTrigger (emit e mp) = pruneTrigger mp"
  by (simp_all add: emit_def)

section \<open>One sender's messages\<close>

lemma msgSet_add_spec:
  assumes "msgSet_add M ms m = (ms', r)"
  shows "(\<exists>e ex. r = Inl e \<and> map_of (msgs ms) (msgNonce (smMessage m)) = Some ex \<and>
            checkReplace M m ex = Inl e \<and> msgs ms' = msgs ms) \<or>
         (r = Inr True \<and> map_of (msgs ms) (msgNonce (smMessage m)) = None \<and>
            msgs ms' = AList.update (msgNonce (smMessage m)) m (msgs ms)) \<or>
         (\<exists>ex. r = Inr False \<and> map_of (msgs ms) (msgNonce (smMessage m)) = Some ex \<and>
            checkReplace M m ex = Inr () \<and>
            msgs ms' = AList.update (msgNonce (smMessage m)) m (msgs ms))"
  using assms by (auto simp: msgSet_add_def Let_def split: if_splits option.splits sum.splits)

lemma msgSet_add_nextNonce:
  "nextNonce (fst (msgSet_add M ms m)) =
     (if msgs ms = [] \<or> nextNonce ms \<le> msgNonce (smMessage m) then msgNonce (smMessage m) + 1
      else nextNonce ms)"
  by (auto simp: msgSet_add_def Let_def split: option.splits sum.splits)

definition setOf :: "('sc, 'bc) MessagePool \<Rightarrow> address \<Rightarrow> msgSet" where
  "setOf mp a = (case map_of (pending mp) a of None \<Rightarrow> newMsgSet | Some ms \<Rightarrow> ms)"

lemma map_of_setOf: "map_of (msgs (setOf mp a)) n = pend mp a n"
  by (simp add: setOf_def pend_def newMsgSet_def split: option.splits)

lemma pending_addPending:
  "pending (fst (addPending M mp m)) =
     AList.update (msgFrom (smMessage m)) (fst (msgSet_add M (setOf mp (msgFrom (smMessage m))) m)) (pending mp)"
  by (simp add: addPending_def setOf_def Let_def split: prod.splits sum.splits)

lemma addPending_result:
  "snd (addPending M mp m) =
     (case snd (msgSet_add M (setOf mp (msgFrom (smMessage m))) m) of Inl e \<Rightarrow> Inl e | Inr _ \<Rightarrow> Inr ())"
  "currentSize (fst (addPending M mp m)) =
     (if snd (msgSet_add M (setOf mp (msgFrom (smMessage m))) m) = Inr True
      then currentSize mp + 1 else currentSize mp)"
  by (auto simp: addPending_def setOf_def Let_def split: prod.splits sum.splits)

lemma pend_addPending:
  assumes "addPending M mp m = (mp', r)"
  shows "pend mp' a n =
    (if r = Inr () \<and> a = msgFrom (smMessage m) \<and> n = msgNonce (smMessage m) then Some m else pend mp a n)"
proof -
  obtain ms' q where q: "msgSet_add M (setOf mp (msgFrom (smMessage m))) m = (ms', q)" by fastforce
  have p: "pending mp' = AList.update (msgFrom (smMessage m)) ms' (pending mp)"
    using pending_addPending [of M mp m] assms q by simp
  have r: "r = (case q of Inl e \<Rightarrow> Inl e | Inr _ \<Rightarrow> Inr ())"
    using addPending_result(1) [of M mp m] assms q by simp
  show ?thesis
  proof (cases "a = msgFrom (smMessage m)")
    case True
    then have "pend mp' a n = map_of (msgs ms') n" by (simp add: pend_def p update_conv')
    also have "\<dots> = (if r = Inr () \<and> n = msgNonce (smMessage m) then Some m
        else map_of (msgs (setOf mp (msgFrom (smMessage m)))) n)"
      using msgSet_add_spec [OF q] r by (auto simp: update_conv')
    finally show ?thesis using True by (auto simp: map_of_setOf)
  next
    case False
    then show ?thesis by (simp add: pend_def p update_conv')
  qed
qed

lemma addPending_replaces:
  assumes "addPending M mp m = (mp', Inr ())"
  shows "case pend mp (msgFrom (smMessage m)) (msgNonce (smMessage m)) of
      None \<Rightarrow> currentSize mp' = currentSize mp + 1
    | Some ex \<Rightarrow> currentSize mp' = currentSize mp \<and> checkReplace M m ex = Inr ()"
proof -
  obtain ms' q where q: "msgSet_add M (setOf mp (msgFrom (smMessage m))) m = (ms', q)" by fastforce
  show ?thesis
    using msgSet_add_spec [OF q] addPending_result [of M mp m] assms q
    by (auto simp: map_of_setOf split: option.splits)
qed

section \<open>The two invariants under the two updates\<close>

lemma mp_ok_addPending:
  assumes ok: "mp_ok mp" and gl: "msgGasLimit (smMessage m) \<le> BlockGasLimit"
  shows "mp_ok (fst (addPending M mp m))"
proof -
  define a where "a = msgFrom (smMessage m)"
  define n where "n = msgNonce (smMessage m)"
  obtain ms' q where q: "msgSet_add M (setOf mp a) m = (ms', q)" by fastforce
  have set: "distinct (map fst (msgs (setOf mp a)))" "list_all (entry_ok a) (msgs (setOf mp a))"
    using ok list_all_map_of [of mset_ok "pending mp" a]
    by (auto simp: mp_ok_def setOf_def newMsgSet_def mset_ok_def split: option.splits)
  have new: "entry_ok a (n, m)" using gl by (simp add: entry_ok_def a_def n_def)
  have len: "length (msgs ms') = length (msgs (setOf mp a)) + (if q = Inr True then 1 else 0)"
    using msgSet_add_spec [OF q] by (auto simp: length_alist_update)
  have "msgs ms' \<noteq> []"
    using msgSet_add_spec [OF q] by (auto simp: alist_update_not_Nil)
  moreover have "distinct (map fst (msgs ms'))" "list_all (entry_ok a) (msgs ms')"
    using msgSet_add_spec [OF q] set new by (auto simp: n_def [symmetric] alist_simps)
  ultimately have "mset_ok (a, ms')" by (simp add: mset_ok_def)
  moreover have "pool_size (AList.update a ms' (pending mp)) =
      pool_size (pending mp) + (if q = Inr True then 1 else 0)"
    using sum_list_update [of "\<lambda>p. length (msgs (snd p))" a ms' "pending mp"] len
    by (auto simp: pool_size_def setOf_def newMsgSet_def split: option.splits)
  ultimately show ?thesis
    using ok q pending_addPending [of M mp m] addPending_result(2) [of M mp m]
    by (auto simp: mp_ok_def alist_simps a_def [symmetric])
qed

lemma nonces_below_addPending:
  assumes ok: "nonce_ok mp" and n: "msgNonce (smMessage m) \<noteq> - 1"
  shows "list_all nonces_below (pending (fst (addPending M mp m)))"
proof -
  define a where "a = msgFrom (smMessage m)"
  obtain ms' q where q: "msgSet_add M (setOf mp a) m = (ms', q)" by fastforce
  have nx: "nextNonce ms' = (if msgs (setOf mp a) = [] \<or> nextNonce (setOf mp a) \<le> msgNonce (smMessage m)
      then msgNonce (smMessage m) + 1 else nextNonce (setOf mp a))"
    using msgSet_add_nextNonce [of M "setOf mp a" m] q by simp
  have old: "x \<in> set (msgs (setOf mp a)) \<Longrightarrow> fst x < nextNonce (setOf mp a)" for x
    using ok list_all_map_of [of nonces_below "pending mp" a]
    by (auto simp: nonce_ok_def setOf_def newMsgSet_def nonces_below_def list_all_iff split: option.splits)
  have mx: "fst x < nextNonce ms'" if x: "x \<in> set (msgs (setOf mp a))" for x
  proof (cases "nextNonce (setOf mp a) \<le> msgNonce (smMessage m)")
    case True
    with old [OF x] have "fst x \<le> msgNonce (smMessage m)" by (meson less_imp_le order_trans)
    then show ?thesis using True by (simp add: nx less_Suc64 [OF n])
  next
    case False
    moreover have "msgs (setOf mp a) \<noteq> []" using x by (metis empty_iff list.set(1))
    ultimately show ?thesis using old [OF x] by (simp add: nx)
  qed
  have self: "msgNonce (smMessage m) < nextNonce ms'"
    by (cases "msgs (setOf mp a) = [] \<or> nextNonce (setOf mp a) \<le> msgNonce (smMessage m)")
      (auto simp: nx less_Suc64 [OF n] not_le)
  have "msgs ms' = msgs (setOf mp a) \<or>
      msgs ms' = AList.update (msgNonce (smMessage m)) m (msgs (setOf mp a))"
    using msgSet_add_spec [OF q] by (elim disjE exE conjE) simp_all
  then have "fst x < nextNonce ms'" if "x \<in> set (msgs ms')" for x
    using that mx [of x] self set_alist_update [of x "msgNonce (smMessage m)" m "msgs (setOf mp a)"]
    by (elim disjE) auto
  then have "nonces_below (a, ms')" by (simp add: nonces_below_def list_all_iff)
  with ok show ?thesis
    using q pending_addPending [of M mp m]
    by (simp add: nonce_ok_def alist_simps a_def [symmetric])
qed

lemma maxNonce_loop_ge: "mx \<le> maxNonce_loop mx ms \<and> (\<forall>p \<in> set ms. fst p \<le> maxNonce_loop mx ms)"
proof (induction mx ms rule: maxNonce_loop.induct)
  case (2 mx nonce m ms)
  then show ?case by (cases "mx < nonce") (auto simp: not_less intro: order_trans less_imp_le)
qed simp

lemma maxNonce_loop_in: "maxNonce_loop mx ms = mx \<or> maxNonce_loop mx ms \<in> fst ` set ms"
  by (induction mx ms rule: maxNonce_loop.induct) (auto split: if_splits)

lemma pending_remove:
  "pending (remove a n mp) =
     (case map_of (pending mp) a of None \<Rightarrow> pending mp
      | Some ms \<Rightarrow>
          let rest = AList.delete n (msgs ms); mx = maxNonce_loop 0 rest in
          if rest = [] then AList.delete a (pending mp)
          else AList.update a (ms\<lparr>msgs := rest, nextNonce := (if mx < n then n else mx) + 1\<rparr>) (pending mp))"
  "currentSize (remove a n mp) = currentSize mp - (if pend mp a n = None then 0 else 1)"
  by (auto simp: remove_def pend_def Let_def split: option.splits)

lemma pend_remove:
  "pend (remove a n mp) b k = (if b = a \<and> k = n then None else pend mp b k)"
proof (cases "map_of (pending mp) a")
  case None
  then show ?thesis by (auto simp: pend_def pending_remove)
next
  case (Some ms)
  have e: "AList.delete n (msgs ms) = [] \<Longrightarrow> k \<noteq> n \<Longrightarrow> map_of (msgs ms) k = None" for k
    by (metis delete_conv' fun_upd_other map_of.simps(1))
  show ?thesis
    using Some e by (auto simp: pend_def pending_remove Let_def update_conv' delete_conv')
qed

lemma mp_ok_remove:
  assumes ok: "mp_ok mp"
  shows "mp_ok (remove a n mp)"
proof (cases "map_of (pending mp) a")
  case None
  then show ?thesis using ok by (simp add: mp_ok_def pending_remove pend_def)
next
  case (Some ms)
  let ?rest = "AList.delete n (msgs ms)"
  have ms: "distinct (map fst (msgs ms))" "list_all (entry_ok a) (msgs ms)"
    using ok Some list_all_map_of [of mset_ok "pending mp" a ms] by (auto simp: mp_ok_def mset_ok_def)
  have len: "length ?rest + (if pend mp a n = None then 0 else 1) = length (msgs ms)"
    using length_alist_delete [OF ms(1), of n] Some by (simp add: pend_def)
  define mx where "mx = maxNonce_loop 0 ?rest"
  let ?ms' = "ms\<lparr>msgs := ?rest, nextNonce := (if mx < n then n else mx) + 1\<rparr>"
  let ?f = "\<lambda>p :: address \<times> msgSet. length (msgs (snd p))"
  have d: "pool_size (AList.delete a (pending mp)) + length (msgs ms) = pool_size (pending mp)"
    using sum_list_delete [of "pending mp" ?f a] ok Some by (simp add: pool_size_def mp_ok_def)
  have u: "pool_size (AList.update a ?ms' (pending mp)) + length (msgs ms) = pool_size (pending mp) + length ?rest"
    using sum_list_update [of ?f a ?ms' "pending mp"] Some by (simp add: pool_size_def)
  have r: "?rest \<noteq> [] \<Longrightarrow> mset_ok (a, ?ms')"
    using ms by (simp add: mset_ok_def alist_simps)
  show ?thesis
  proof (cases "?rest = []")
    case True
    then show ?thesis using ok Some d len
      by (auto simp: mp_ok_def pending_remove alist_simps split: if_splits)
  next
    case False
    then show ?thesis using ok Some u len r
      by (auto simp: mp_ok_def pending_remove alist_simps Let_def mx_def [symmetric] split: if_splits)
  qed
qed

lemma nonces_below_remove:
  assumes ok: "nonce_ok mp" and n: "n \<noteq> - 1"
  shows "list_all nonces_below (pending (remove a n mp))"
proof (cases "map_of (pending mp) a")
  case None
  then show ?thesis using ok by (simp add: nonce_ok_def pending_remove)
next
  case (Some ms)
  define rest where "rest = AList.delete n (msgs ms)"
  define mx where "mx = maxNonce_loop 0 rest"
  define top where "top = (if mx < n then n else mx)"
  have below: "x \<in> set (msgs ms) \<Longrightarrow> fst x < nextNonce ms" for x
    using ok Some list_all_map_of [of nonces_below "pending mp" a ms]
    by (auto simp: nonce_ok_def nonces_below_def list_all_iff)
  have "mx \<noteq> - 1"
  proof -
    have sub: "set rest \<subseteq> set (msgs ms)" using set_alist_delete [of _ n "msgs ms"] by (auto simp: rest_def)
    have "mx = 0 \<or> mx \<in> fst ` set rest" unfolding mx_def by (rule maxNonce_loop_in)
    then have "mx = 0 \<or> mx < nextNonce ms" using sub below by blast
    then show ?thesis using word_order.extremum_strict [of "nextNonce ms"] by auto
  qed
  then have top: "top \<noteq> - 1" using n by (simp add: top_def)
  have "x \<in> set rest \<Longrightarrow> fst x \<le> top" for x
    using maxNonce_loop_ge [of 0 rest] by (auto simp: mx_def top_def)
  then have "nonces_below (a, ms\<lparr>msgs := rest, nextNonce := top + 1\<rparr>)"
    by (auto simp: nonces_below_def list_all_iff less_Suc64 [OF top])
  moreover have "pending (remove a n mp) = (if rest = [] then AList.delete a (pending mp)
      else AList.update a (ms\<lparr>msgs := rest, nextNonce := top + 1\<rparr>) (pending mp))"
    unfolding pending_remove Some Let_def rest_def mx_def top_def by simp
  ultimately show ?thesis using ok by (simp add: nonce_ok_def alist_simps)
qed

section \<open>Invariants through every operation\<close>

lemma VerifyMsgSig_pool:
  assumes "VerifyMsgSig E mp m = (mp', r)"
  shows "pending mp' = pending mp" "currentSize mp' = currentSize mp" "curTs mp' = curTs mp"
    "maxTxPoolSizeLo mp' = maxTxPoolSizeLo mp"
  using assms by (auto simp: VerifyMsgSig_def Let_def split: sum.splits prod.splits if_splits)

lemma addLocal_pool:
  assumes "addLocal E mp m b = (mp', r)"
  shows "pending mp' = pending mp" "currentSize mp' = currentSize mp"
  using assms by (auto simp: addLocal_def Let_def split: sum.splits option.splits)

lemma publish_pool:
  assumes "publish E mp b = (mp', r)"
  shows "pending mp' = pending mp" "currentSize mp' = currentSize mp"
  using assms by (auto simp: publish_def split: sum.splits)

lemma RecoverSig_pool:
  assumes "RecoverSig E mp m = (mp', r)"
  shows "pending mp' = pending mp" "currentSize mp' = currentSize mp"
  using assms by (auto simp: RecoverSig_def split: prod.splits)

lemma recoverSigs_pool:
  assumes "recoverSigs E mp out ms = (mp', out')"
  shows "pending mp' = pending mp \<and> currentSize mp' = currentSize mp \<and>
    (\<forall>x \<in> set out'. x \<in> set out \<or> smMessage x \<in> set ms)"
  using assms
proof (induction ms arbitrary: mp out)
  case (Cons m ms)
  obtain mp1 r where r: "RecoverSig E mp m = (mp1, r)" by fastforce
  have m: "x \<in> set_option r \<Longrightarrow> smMessage x = m" for x
    using r by (auto simp: RecoverSig_def split: prod.splits)
  obtain out1 where o: "recoverSigs E mp1 out1 ms = (mp', out')" "set out1 \<subseteq> set out \<union> set_option r"
    using Cons.prems r by (cases r) auto
  from Cons.IH [OF o(1)] o(2) m RecoverSig_pool [OF r] show ?case by auto
qed simp

lemma MessagesForBlocks_pool:
  assumes "MessagesForBlocks_loop E mp out bs = (mp', r)"
  shows "pending mp' = pending mp \<and> currentSize mp' = currentSize mp \<and>
    (\<forall>out'. r = Inr out' \<longrightarrow> (\<forall>x \<in> set out'. x \<in> set out \<or>
       (\<exists>b bm sm. b \<in> set bs \<and> apiMessagesForBlock E b = Inr (bm, sm) \<and> (x \<in> set sm \<or> smMessage x \<in> set bm))))"
  using assms
proof (induction bs arbitrary: mp out)
  case (Cons b bs)
  show ?case
  proof (cases "apiMessagesForBlock E b")
    case (Inl e)
    with Cons.prems show ?thesis by auto
  next
    case (Inr p)
    obtain bm sm where p: "p = (bm, sm)" by fastforce
    obtain mp1 out1 where r: "recoverSigs E mp (out @ sm) bm = (mp1, out1)" by fastforce
    from Cons.prems Inr p r have "MessagesForBlocks_loop E mp1 out1 bs = (mp', r)" by simp
    from Cons.IH [OF this] recoverSigs_pool [OF r] Inr p show ?thesis by fastforce
  qed
qed auto

text \<open>The nonces of every message a block of the chain holds satisfy \<open>okn\<close>.\<close>

definition blocks_ok :: "(uint64 \<Rightarrow> bool) \<Rightarrow> ('sc, 'bc) mpool_env \<Rightarrow> bool" where
  "blocks_ok okn E \<longleftrightarrow> (\<forall>b bm sm. apiMessagesForBlock E b = Inr (bm, sm) \<longrightarrow>
     (\<forall>m \<in> set bm \<union> smMessage ` set sm. okn (msgNonce m)))"

definition rmsgs_ok :: "(uint64 \<Rightarrow> bool) \<Rightarrow> rmsgs \<Rightarrow> bool" where
  "rmsgs_ok okn rm \<longleftrightarrow> list_all (\<lambda>p. list_all (\<lambda>q. okn (msgNonce (smMessage (snd q)))) (snd p)) rm"

lemma rmsgs_ok_add:
  assumes "rmsgs_ok okn rm" "okn (msgNonce (smMessage m))"
  shows "rmsgs_ok okn (hc_add rm m)"
  using assms list_all_map_of [of "\<lambda>p. list_all (\<lambda>q. okn (msgNonce (smMessage (snd q)))) (snd p)" rm "msgFrom (smMessage m)"]
  by (auto simp: rmsgs_ok_def hc_add_def Let_def alist_simps split: option.splits)

lemma rmsgs_ok_adds:
  "rmsgs_ok okn rm \<Longrightarrow> list_all (\<lambda>m. okn (msgNonce (smMessage m))) ms \<Longrightarrow> rmsgs_ok okn (foldl hc_add rm ms)"
  by (induction ms arbitrary: rm) (simp_all add: rmsgs_ok_add)

locale pool_invariant =
  fixes I :: "('sc, 'bc) MessagePool \<Rightarrow> bool" and okn :: "uint64 \<Rightarrow> bool"
  assumes frame: "I mp \<Longrightarrow> pending mp' = pending mp \<Longrightarrow> currentSize mp' = currentSize mp \<Longrightarrow> I mp'"
    and add: "I mp \<Longrightarrow> okn (msgNonce (smMessage m)) \<Longrightarrow>
      msgGasLimit (smMessage m) \<le> BlockGasLimit \<Longrightarrow> I (fst (addPending M mp m))"
    and rem: "I mp \<Longrightarrow> okn n \<Longrightarrow> I (remove a n mp)"
    and stored: "I mp \<Longrightarrow> m \<in> set (pendingFor mp a) \<Longrightarrow> okn (msgNonce (smMessage m))"
begin

lemma addLocked_inv:
  assumes "addLocked E mp m = (mp', r)" "I mp" "okn (msgNonce (smMessage m))"
  shows "I mp'"
proof -
  have f: "pending mp1 = pending mp \<Longrightarrow> currentSize mp1 = currentSize mp \<Longrightarrow> I mp1" for mp1
    using frame [OF assms(2)] .
  have "(pending mp' = pending mp \<and> currentSize mp' = currentSize mp) \<or>
      (\<exists>mp1. pending mp1 = pending mp \<and> currentSize mp1 = currentSize mp \<and>
         msgGasLimit (smMessage m) \<le> BlockGasLimit \<and> addPending (mpMsgEnv E) mp1 m = (mp', r))"
    using assms(1) by (auto simp: addLocked_def Let_def split: sum.splits if_splits)
  then show ?thesis
  proof (elim disjE exE conjE)
    fix mp1 assume "pending mp1 = pending mp" "currentSize mp1 = currentSize mp"
      "msgGasLimit (smMessage m) \<le> BlockGasLimit" "addPending (mpMsgEnv E) mp1 m = (mp', r)"
    then show ?thesis using add [OF f assms(3), of mp1 "mpMsgEnv E"] by simp
  qed (rule f)
qed

lemma addTs_inv:
  "addTs E mp m cur = (mp', r) \<Longrightarrow> I mp \<Longrightarrow> okn (msgNonce (smMessage m)) \<Longrightarrow> I mp'"
  by (auto simp: addTs_def split: sum.splits if_splits intro: addLocked_inv)

lemma Add_inv:
  assumes "Add E mp m = (mp', r)" "I mp" "okn (msgNonce (smMessage m))"
  shows "I mp'"
proof -
  obtain mp1 q where q: "VerifyMsgSig E mp m = (mp1, q)" by fastforce
  have "I mp1" using frame [OF assms(2) VerifyMsgSig_pool(1,2) [OF q]] .
  then show ?thesis using assms q
    by (auto simp: Add_def split: option.splits if_splits sum.splits intro: addTs_inv)
qed

lemma addLocal_inv: "addLocal E mp m b = (mp', r) \<Longrightarrow> I mp \<Longrightarrow> I mp'"
  using frame addLocal_pool by blast

lemma publish_inv: "publish E mp b = (mp', r) \<Longrightarrow> I mp \<Longrightarrow> I mp'"
  using frame publish_pool by blast

lemma Push_inv:
  assumes "Push E mp m = (mp', r)" "I mp" "okn (msgNonce (smMessage m))"
  shows "I mp'"
proof -
  note inv = Add_inv [OF _ assms(2,3)] addLocal_inv publish_inv
  from assms(1,2) show ?thesis
    by (auto simp: Push_def split: option.splits sum.splits prod.splits dest: inv)
qed

lemma PushWithNonce_inv:
  assumes "PushWithNonce E mp a cb = (mp', r)" "I mp"
    and "\<And>a n m. cb a n = Inr m \<Longrightarrow> okn (msgNonce (smMessage m))"
  shows "I mp'"
proof -
  note inv = addLocked_inv [OF _ assms(2) assms(3)] addLocal_inv publish_inv
  from assms(1,2) show ?thesis
    by (auto simp: PushWithNonce_def split: option.splits sum.splits prod.splits if_splits mpool_err.splits dest: inv)
qed

lemma hc_revert_inv:
  assumes "hc_revert E rm mp tss = (mp', r)" "I mp" "rmsgs_ok okn rm" "blocks_ok okn E"
  shows "I mp' \<and> (\<forall>rm'. r = Inr rm' \<longrightarrow> rmsgs_ok okn rm')"
  using assms
proof (induction tss arbitrary: rm mp)
  case (Cons ts tss)
  obtain mp1 q where q: "MessagesForBlocks E mp (tsBlks ts) = (mp1, q)" by fastforce
  note p = MessagesForBlocks_pool [OF q [unfolded MessagesForBlocks_def]]
  have I1: "I (mp1\<lparr>curTs := c\<rparr>)" "I mp1" for c using p Cons.prems(2) frame by auto
  have ok: "q = Inr ms \<Longrightarrow> rmsgs_ok okn (foldl hc_add rm ms)" for ms
    using p Cons.prems(3,4) by (intro rmsgs_ok_adds) (fastforce simp: blocks_ok_def list_all_iff)+
  show ?case using Cons.prems q I1 ok Cons.IH by (auto split: list.splits sum.splits)
qed auto

lemma hc_rm_inv:
  assumes "foldl hc_rm (rm, mp) ks = (rm', mp')" "I mp" "rmsgs_ok okn rm" "\<forall>k \<in> set ks. okn (snd k)"
  shows "I mp' \<and> rmsgs_ok okn rm'"
  using assms
proof (induction ks arbitrary: rm mp)
  case (Cons k ks)
  obtain rm1 mp1 where s: "hc_rm (rm, mp) k = (rm1, mp1)" by fastforce
  have "I mp1" "rmsgs_ok okn rm1"
    using s Cons.prems rem [of mp "snd k" "fst k"]
      list_all_map_of [of "\<lambda>p. list_all (\<lambda>q. okn (msgNonce (smMessage (snd q)))) (snd p)" rm "fst k"]
    by (auto simp: hc_rm_def Remove_def rmsgs_ok_def alist_simps split: prod.splits option.splits if_splits)
  with s Cons show ?case by auto
qed simp

lemma hc_apply_blocks_inv:
  assumes "hc_apply_blocks E rm mp bs = (mp', r)" "I mp" "rmsgs_ok okn rm" "blocks_ok okn E"
  shows "I mp' \<and> (\<forall>rm'. r = Inr rm' \<longrightarrow> rmsgs_ok okn rm')"
  using assms
proof (induction bs arbitrary: rm mp)
  case (Cons b bs)
  show ?case
  proof (cases "apiMessagesForBlock E b")
    case (Inr p)
    obtain bm sm where p: "p = (bm, sm)" by fastforce
    let ?ks = "map (msgKey \<circ> smMessage) sm @ map msgKey bm"
    obtain rm1 mp1 where s: "foldl hc_rm (rm, mp) ?ks = (rm1, mp1)" by fastforce
    have "\<forall>k \<in> set ?ks. okn (snd k)"
      using Cons.prems(4) Inr p by (auto simp: blocks_ok_def msgKey_def)
    from hc_rm_inv [OF s Cons.prems(2,3) this] Cons.IH Cons.prems Inr p s show ?thesis by auto
  qed (use Cons.prems in auto)
qed auto

lemma hc_apply_inv:
  assumes "hc_apply E rm mp tss = (mp', r)" "I mp" "rmsgs_ok okn rm" "blocks_ok okn E"
  shows "I mp' \<and> (\<forall>rm'. r = Inr rm' \<longrightarrow> rmsgs_ok okn rm')"
  using assms
proof (induction tss arbitrary: rm mp)
  case (Cons ts tss)
  obtain mp1 q where q: "hc_apply_blocks E rm mp (tsBlks ts) = (mp1, q)" by fastforce
  note p = hc_apply_blocks_inv [OF q Cons.prems(2-4)]
  then have "I (mp1\<lparr>curTs := c\<rparr>)" for c using frame by auto
  with p q Cons show ?case by (auto split: sum.splits)
qed auto

lemma hc_readd_inv:
  assumes "hc_readd E mp ms = (mp', r)" "I mp" "\<forall>m \<in> set ms. okn (msgNonce (smMessage m))"
  shows "I mp'"
  using assms
proof (induction ms arbitrary: mp)
  case (Cons m ms)
  obtain mp1 q where q: "addLocked E mp m = (mp1, q)" by fastforce
  have "I mp1" using addLocked_inv [OF q] Cons.prems by simp
  with q Cons show ?case by (auto simp: addSkipChecks_def split: sum.splits mpool_err.splits)
qed simp

lemma HeadChange_inv:
  assumes "HeadChange E rng mp rts ats = (mp', r)" "I mp" "blocks_ok okn E" "\<And>xs. set (rng xs) \<subseteq> set xs"
  shows "I mp'"
proof -
  obtain mp1 q1 where q1: "hc_revert E [] mp rts = (mp1, q1)" by fastforce
  have s1: "I mp1 \<and> (\<forall>rm. q1 = Inr rm \<longrightarrow> rmsgs_ok okn rm)"
    using hc_revert_inv [OF q1 assms(2) _ assms(3)] by (simp add: rmsgs_ok_def)
  show ?thesis
  proof (cases q1)
    case (Inr rm)
    obtain mp2 q2 where q2: "hc_apply E rm mp1 ats = (mp2, q2)" by fastforce
    have s2: "I mp2 \<and> (\<forall>rm. q2 = Inr rm \<longrightarrow> rmsgs_ok okn rm)"
      using hc_apply_inv [OF q2 _ _ assms(3)] s1 Inr by simp
    have "rmsgs_ok okn rm2 \<Longrightarrow> m \<in> set (rng (concat (map (map snd \<circ> snd) rm2))) \<Longrightarrow>
        okn (msgNonce (smMessage m))" for rm2 m
      using assms(4) [of "concat (map (map snd \<circ> snd) rm2)"]
      by (fastforce simp: rmsgs_ok_def list_all_iff)
    with s2 q1 q2 Inr assms(1) show ?thesis
      by (auto simp: HeadChange_def split: sum.splits dest!: hc_readd_inv)
  qed (use s1 q1 assms(1) in \<open>simp add: HeadChange_def\<close>)
qed

lemma loadLocal_inv:
  assumes "loadLocal E mp rs = (mp', r)" "I mp" "\<And>m. Inr (Inr m) \<in> set rs \<Longrightarrow> okn (msgNonce (smMessage m))"
  shows "I mp'"
  using assms
proof (induction rs arbitrary: mp)
  case (Cons x rs)
  have "Add E mp m = (mp1, q) \<Longrightarrow> x = Inr (Inr m) \<Longrightarrow> I mp1" for m mp1 q
    using Add_inv Cons.prems(2,3) by auto
  with Cons show ?case by (auto split: sum.splits mpool_err.splits prod.splits)
qed simp

lemma republish_inv: "I mp \<Longrightarrow> I (republish E addrs mp)"
proof -
  have "I mp \<Longrightarrow> I (repub_publish E mp ms)" for mp ms
  proof (induction ms arbitrary: mp)
    case (Cons m ms)
    have "I (fst (publish E mp b))" for b using publish_inv [of E mp b] Cons.prems by (metis prod.collapse)
    with Cons show ?case by (auto split: sum.splits)
  qed simp
  then show "I mp \<Longrightarrow> I (republish E addrs mp)" by (simp add: republish_def)
qed

lemma removeBad_inv:
  assumes "removeBad M good mp ms = (mp', r)" "I mp" "\<forall>m \<in> set ms. okn (msgNonce (smMessage m))"
  shows "I mp'"
  using assms
proof (induction ms arbitrary: mp)
  case (Cons m ms)
  with rem [of mp "msgNonce (smMessage m)" "msgFrom (smMessage m)"] show ?case
    by (auto split: option.splits if_splits)
qed simp

lemma pruneMessages_inv:
  assumes "pruneMessages E B F addrs mp ts = (mp', r)" "I mp"
  shows "I mp'"
proof -
  have "\<forall>m \<in> set (sort_slice nonceLess (concat (map (pendingFor mp) addrs))). okn (msgNonce (smMessage m))"
    using stored [OF assms(2)] by auto
  with assms show ?thesis
    by (auto simp: pruneMessages_def Let_def split: option.splits dest!: removeBad_inv)
qed

lemma pruneExcessMessages_inv: "pruneExcessMessages E B F addrs mp = (mp', r) \<Longrightarrow> I mp \<Longrightarrow> I mp'"
  by (auto simp: pruneExcessMessages_def split: if_splits intro: pruneMessages_inv)

end

section \<open>Listing the pool\<close>

lemma mp_ok_set:
  assumes "mp_ok mp" "map_of (pending mp) a = Some ms"
  shows "distinct (map fst (msgs ms))" "msgs ms \<noteq> []" "list_all (entry_ok a) (msgs ms)"
  using assms list_all_map_of [of mset_ok "pending mp" a ms] by (auto simp: mp_ok_def mset_ok_def)

lemma pend_entry:
  assumes "mp_ok mp" "pend mp a n = Some m"
  shows "entry_ok a (n, m)"
proof -
  obtain ms where ms: "map_of (pending mp) a = Some ms" "map_of (msgs ms) n = Some m"
    using assms(2) by (auto simp: pend_def split: option.splits)
  show ?thesis using list_all_map_of [OF mp_ok_set(3) [OF assms(1) ms(1)] ms(2)] .
qed

lemma set_pendingFor:
  assumes "mp_ok mp"
  shows "set (pendingFor mp a) = {m. \<exists>n. pend mp a n = Some m}"
proof (cases "map_of (pending mp) a")
  case (Some ms)
  have "(\<exists>n. map_of (msgs ms) n = Some m) \<longleftrightarrow> m \<in> snd ` set (msgs ms)" for m
    using mp_ok_set(1) [OF assms Some] by (force simp: map_of_eq_Some_iff)
  with Some show ?thesis by (auto simp: pendingFor_def pend_def)
qed (simp add: pendingFor_def pend_def)

lemma pendingFor_nonces:
  assumes "mp_ok mp"
  shows "distinct (map (msgNonce \<circ> smMessage) (pendingFor mp a)) \<and>
    (\<forall>m \<in> set (pendingFor mp a). msgFrom (smMessage m) = a)"
proof (cases "map_of (pending mp) a")
  case (Some ms)
  have "list_all (entry_ok a) (msgs ms)" by (rule mp_ok_set(3) [OF assms Some])
  then have eq: "map ((msgNonce \<circ> smMessage) \<circ> snd) (msgs ms) = map fst (msgs ms)"
    by (intro map_cong) (auto simp: list_all_iff entry_ok_def)
  have "distinct (map (msgNonce \<circ> smMessage) (map snd (msgs ms)))"
    unfolding list.map_comp eq by (rule mp_ok_set(1) [OF assms Some])
  moreover have "mset (map (msgNonce \<circ> smMessage) (pendingFor mp a)) = mset (map (msgNonce \<circ> smMessage) (map snd (msgs ms)))"
    by (simp add: pendingFor_def Some mset_sort_slice multiset.map_comp)
  ultimately have "distinct (map (msgNonce \<circ> smMessage) (pendingFor mp a))"
    by (metis mset_eq_imp_distinct_iff)
  then show ?thesis using pend_entry [OF assms] by (auto simp: set_pendingFor [OF assms] entry_ok_def)
qed (simp add: pendingFor_def)

text \<open>\<open>pendingFor\<close> lists messages by strictly increasing nonce.\<close>

lemma pendingFor_sorted:
  assumes "mp_ok mp"
  shows "sorted_wrt nonceLess (pendingFor mp a)"
proof -
  have key: "strict_weak UNIV (\<lambda>x y :: SignedMessage. msgNonce (smMessage x) < msgNonce (smMessage y))"
    by (rule strict_weak_key)
  have "sorted_wrt (\<lambda>x y. \<not> msgNonce (smMessage y) < msgNonce (smMessage x)) (pendingFor mp a)"
    using strict_weak.sorted_sort_slice [OF key] by (simp add: pendingFor_def split: option.splits)
  then have "sorted_wrt (\<lambda>x y. x \<le> y) (map (msgNonce \<circ> smMessage) (pendingFor mp a))"
    by (simp add: sorted_wrt_map not_less)
  then have "sorted_wrt (\<lambda>x y. x < y) (map (msgNonce \<circ> smMessage) (pendingFor mp a))"
    using pendingFor_nonces [OF assms, of a] by (simp add: strict_sorted_iff)
  then show ?thesis by (simp add: sorted_wrt_map nonceLess_def [abs_def])
qed

text \<open>The size counter is the number of sender and nonce pairs the pool has a message for.\<close>

lemma pool_size_card:
  assumes "distinct (map fst ps)" "list_all mset_ok ps"
  shows "finite {(a, n). \<exists>ms. map_of ps a = Some ms \<and> map_of (msgs ms) n \<noteq> None} \<and>
    card {(a, n). \<exists>ms. map_of ps a = Some ms \<and> map_of (msgs ms) n \<noteq> None} = pool_size ps"
  using assms
proof (induction ps)
  case (Cons p ps)
  obtain a ms where p: "p = (a, ms)" by fastforce
  let ?S = "\<lambda>ps. {(a, n). \<exists>ms. map_of ps a = Some ms \<and> map_of (msgs ms) n \<noteq> None}"
  have a: "map_of ps a = None" using Cons.prems(1) p by (simp add: map_of_eq_None_iff)
  have dom: "map_of (msgs ms) n \<noteq> None \<longleftrightarrow> n \<in> set (map fst (msgs ms))" for n
    by (simp add: map_of_eq_None_iff)
  have split: "?S (p # ps) = Pair a ` set (map fst (msgs ms)) \<union> ?S ps"
  proof (rule set_eqI)
    fix x :: "address \<times> uint64"
    obtain b n where x: "x = (b, n)" by fastforce
    show "x \<in> ?S (p # ps) \<longleftrightarrow> x \<in> Pair a ` set (map fst (msgs ms)) \<union> ?S ps"
      unfolding x p using a dom [of n] by (cases "b = a") auto
  qed
  have "distinct (map fst (msgs ms))" using Cons.prems(2) p by (simp add: mset_ok_def)
  then have "card (Pair a ` set (map fst (msgs ms))) = length (msgs ms)"
    by (subst card_image) (simp_all add: inj_on_def distinct_card [where xs = "map fst (msgs ms)", simplified])
  moreover have "Pair a ` set (map fst (msgs ms)) \<inter> ?S ps = {}" using a by auto
  ultimately show ?case using Cons p
    unfolding split by (simp add: card_Un_disjoint pool_size_def)
qed (simp add: pool_size_def)

lemma currentSize_card:
  assumes "mp_ok mp"
  shows "currentSize mp = int (card {(a, n). pend mp a n \<noteq> None})"
proof -
  have "{(a, n). pend mp a n \<noteq> None} = {(a, n). \<exists>ms. map_of (pending mp) a = Some ms \<and> map_of (msgs ms) n \<noteq> None}"
    by (auto simp: pend_def split: option.splits)
  then show ?thesis using assms pool_size_card [of "pending mp"] by (simp add: mp_ok_def)
qed

interpretation shape: pool_invariant mp_ok "\<lambda>_. True"
  by unfold_locales (auto simp: mp_ok_addPending mp_ok_remove, simp add: mp_ok_def)

interpretation nonces: pool_invariant nonce_ok "\<lambda>n. n \<noteq> - 1"
proof
  fix mp :: "('a, 'b) MessagePool" and m a
  assume ok: "nonce_ok mp" and m: "m \<in> set (pendingFor mp a)"
  then have mp: "mp_ok mp" by (simp add: nonce_ok_def)
  then obtain n where n: "pend mp a n = Some m" using m by (auto simp: set_pendingFor)
  then obtain ms where ms: "map_of (pending mp) a = Some ms" "map_of (msgs ms) n = Some m"
    by (auto simp: pend_def split: option.splits)
  have "n < nextNonce ms"
    using ok ms list_all_map_of [of nonces_below "pending mp" a ms] map_of_SomeD [OF ms(2)]
    by (fastforce simp: nonce_ok_def nonces_below_def list_all_iff)
  then have "n \<noteq> - 1" using word_order.extremum_strict [of "nextNonce ms"] by auto
  then show "msgNonce (smMessage m) \<noteq> - 1" using pend_entry [OF mp n] by (simp add: entry_ok_def)
qed (simp_all add: nonce_ok_def mp_ok_addPending mp_ok_remove nonces_below_addPending
    nonces_below_remove, simp_all add: mp_ok_def)

end
