(* ===== verification/Mpool_Props.thy ===== *)
theory Mpool_Props
  imports Mpool_Inv
begin

text \<open>
  The message pool: its operations as a step relation, and its properties. They cover the shape
  of every reachable pool, what \<open>Add\<close> accepts and replaces, the nonces handed out by
  \<open>PushWithNonce\<close>, the effect of a head change, and the signature cache.
\<close>

section \<open>Steps\<close>

text \<open>
  The calls the node makes on its pool, in any order, each with its own answers from the outside
  (\<open>E\<close>). \<open>okn\<close> restricts the nonces of the messages that come in.
\<close>

inductive mp_step ::
  "(uint64 \<Rightarrow> bool) \<Rightarrow> 'f float_env \<Rightarrow> ('sc, 'bc) MessagePool \<Rightarrow> ('sc, 'bc) MessagePool \<Rightarrow> bool"
  for okn F where
  step_Add: "Add E mp m = (mp', r) \<Longrightarrow> okn (msgNonce (smMessage m)) \<Longrightarrow> mp_step okn F mp mp'"
| step_Push: "Push E mp m = (mp', rp) \<Longrightarrow> okn (msgNonce (smMessage m)) \<Longrightarrow> mp_step okn F mp mp'"
| step_PushWithNonce: "PushWithNonce E mp a cb = (mp', rw) \<Longrightarrow>
    (\<forall>k n m. cb k n = Inr m \<longrightarrow> okn (msgNonce (smMessage m))) \<Longrightarrow> mp_step okn F mp mp'"
| step_Remove: "okn n \<Longrightarrow> mp_step okn F mp (Remove a n mp)"
| step_HeadChange: "HeadChange E rng mp rts ats = (mp', r) \<Longrightarrow> blocks_ok okn E \<Longrightarrow>
    (\<forall>xs. set (rng xs) \<subseteq> set xs) \<Longrightarrow> mp_step okn F mp mp'"
| step_prune: "pruneExcessMessages E B F addrs mp = (mp', r) \<Longrightarrow> mp_step okn F mp mp'"
| step_republish: "mp_step okn F mp (republish E addrs mp)"

context pool_invariant
begin

lemma mp_step_inv: "mp_step okn F mp mp' \<Longrightarrow> I mp \<Longrightarrow> I mp'"
proof (induction rule: mp_step.induct)
  case (step_Remove n mp a)
  then show ?case by (simp add: Remove_def rem)
qed (auto intro: Add_inv Push_inv PushWithNonce_inv HeadChange_inv pruneExcessMessages_inv republish_inv)

lemma mp_steps_inv: "(mp_step okn F)\<^sup>*\<^sup>* mp mp' \<Longrightarrow> I mp \<Longrightarrow> I mp'"
  by (induction rule: rtranclp_induct) (auto intro: mp_step_inv)

lemma New_inv:
  assumes "New E sc bc ds rs head = Inr mp" "I (emptyPool sc bc ds)"
    and "\<And>m. Inr (Inr m) \<in> set rs \<Longrightarrow> okn (msgNonce (smMessage m))"
  shows "I mp"
proof -
  obtain mp1 r where r: "loadLocal E (emptyPool sc bc ds) rs = (mp1, r)" by fastforce
  have "I mp1" using loadLocal_inv [OF r assms(2,3)] .
  moreover have "mp = mp1\<lparr>curTs := head\<rparr>"
    using assms(1) r by (auto simp: New_def split: sum.splits mpool_err.splits)
  ultimately show ?thesis using frame by auto
qed

end

lemma emptyPool_ok: "nonce_ok (emptyPool sc bc ds)"
  by (simp add: nonce_ok_def mp_ok_def emptyPool_def pool_size_def)

section \<open>Adding\<close>

lemma addLocked_cases:
  assumes "addLocked E mp m = (mp', r)"
  shows "(pending mp' = pending mp \<and> currentSize mp' = currentSize mp \<and> r \<noteq> Inr ()) \<or>
    (\<exists>mp1. pending mp1 = pending mp \<and> currentSize mp1 = currentSize mp \<and>
       msgGasLimit (smMessage m) \<le> BlockGasLimit \<and> addPending (mpMsgEnv E) mp1 m = (mp', r))"
  using assms by (auto simp: addLocked_def Let_def split: sum.splits if_splits)

lemma pend_cong: "pending mp' = pending mp \<Longrightarrow> pend mp' = pend mp"
  by (simp add: pend_def fun_eq_iff)

lemma pend_addLocked:
  assumes "addLocked E mp m = (mp', r)"
  shows "pend mp' a n =
    (if r = Inr () \<and> a = msgFrom (smMessage m) \<and> n = msgNonce (smMessage m) then Some m else pend mp a n)"
  using addLocked_cases [OF assms]
proof (elim disjE exE conjE)
  fix mp1 assume "pending mp1 = pending mp" "addPending (mpMsgEnv E) mp1 m = (mp', r)"
  then show ?thesis using pend_addPending [of "mpMsgEnv E" mp1 m mp' r a n] pend_cong [of mp1 mp] by simp
qed (use pend_cong [of mp' mp] in simp)

lemma addLocked_replaces:
  assumes "addLocked E mp m = (mp', Inr ())"
  shows "msgGasLimit (smMessage m) \<le> BlockGasLimit \<and>
    (case pend mp (msgFrom (smMessage m)) (msgNonce (smMessage m)) of
       None \<Rightarrow> currentSize mp' = currentSize mp + 1
     | Some ex \<Rightarrow> currentSize mp' = currentSize mp \<and> checkReplace (mpMsgEnv E) m ex = Inr ())"
proof -
  obtain mp1 where mp1: "pending mp1 = pending mp" "currentSize mp1 = currentSize mp"
    "msgGasLimit (smMessage m) \<le> BlockGasLimit" "addPending (mpMsgEnv E) mp1 m = (mp', Inr ())"
    using addLocked_cases [OF assms] by auto
  show ?thesis
    using addPending_replaces [OF mp1(4)] mp1(3) unfolding pend_cong [OF mp1(1)] mp1(2) by simp
qed

text \<open>A replacement is the same message again, or pays more than 1.25 times the price.\<close>

lemma checkReplace_price:
  assumes "checkReplace M m ex = Inr ()"
  shows "SignedMessage_Cid M m = SignedMessage_Cid M ex \<or>
    5 * bigOf (msgGasPrice (smMessage ex)) < 4 * bigOf (msgGasPrice (smMessage m))"
proof -
  have "p * 64 div 256 = p div 4" for p :: int using div_mult_mult1 [of 64 p 4] by (simp add: mult.commute)
  moreover have "5 * p < 4 * (p + p div 4 + 1)" for p :: int by presburger
  ultimately have "5 * p < 4 * (p + p * 64 div 256 + 1)" for p :: int by metis
  then have "rbfMinPrice p \<le> q \<Longrightarrow> 5 * p < 4 * q" for p q
    unfolding rbfMinPrice_def rbfNum_def rbfDenom_def by (smt (verit))
  with assms show ?thesis
    by (auto simp: checkReplace_def bigOf_def split: option.splits if_splits)
qed

lemma Add_cases:
  assumes "Add E mp m = (mp', r)"
  shows "(pending mp' = pending mp \<and> r \<noteq> Inr ()) \<or>
    (\<exists>mp1 v sn bal. VerifyMsgSig E mp m = (mp1, Inr ()) \<and> pending mp1 = pending mp \<and>
       SignedMessage_Size (mpMsgEnv E) m \<le> 32 * 1024 \<and> msgTo (smMessage m) \<noteq> address_Undef \<and>
       msgValue (smMessage m) = Some v \<and> v < TotalFilecoinInt \<and>
       getStateNonce E (msgFrom (smMessage m)) (curTs mp) = Inr sn \<and> sn \<le> msgNonce (smMessage m) \<and>
       getStateBalance E (msgFrom (smMessage m)) (curTs mp) = Inr bal \<and>
       RequiredFunds (smMessage m) \<le> bal \<and> addLocked E mp1 m = (mp', r))"
proof -
  obtain mp1 q where q: "VerifyMsgSig E mp m = (mp1, q)" by fastforce
  show ?thesis
    using assms q VerifyMsgSig_pool [OF q]
    by (auto simp: Add_def addTs_def not_less split: if_splits option.splits sum.splits)
qed

section \<open>Nonces\<close>

lemma getNonceLocked_spec:
  assumes "nonce_ok mp" "getNonceLocked E mp a cur = Inr n"
  shows "(\<exists>sn. getStateNonce E a cur = Inr sn \<and> sn \<le> n) \<and> (\<forall>k. pend mp a k \<noteq> None \<longrightarrow> k < n)"
proof -
  obtain sn where sn: "getStateNonce E a cur = Inr sn"
    using assms(2) by (auto simp: getNonceLocked_def split: sum.splits)
  show ?thesis
  proof (cases "map_of (pending mp) a")
    case None
    then show ?thesis using assms(2) sn by (auto simp: getNonceLocked_def pend_def)
  next
    case (Some ms)
    have below: "map_of (msgs ms) k \<noteq> None \<Longrightarrow> k < nextNonce ms" for k
      using assms(1) Some list_all_map_of [of nonces_below "pending mp" a ms] map_of_SomeD [of "msgs ms" k]
      by (fastforce simp: nonce_ok_def nonces_below_def list_all_iff)
    have n: "n = (if sn > nextNonce ms then sn else nextNonce ms)"
      using assms(2) sn Some by (simp add: getNonceLocked_def split: if_splits)
    then have "nextNonce ms \<le> n" "sn \<le> n" by auto
    with below sn Some show ?thesis by (auto simp: pend_def intro: less_le_trans)
  qed
qed

lemma PushWithNonce_ok:
  assumes "PushWithNonce E mp a cb = (mp', Inr msg)"
  shows "\<exists>k n mp1. getNonceLocked E mp k (curTs mp) = Inr n \<and> cb k n = Inr msg \<and>
    addLocked E mp msg = (mp1, Inr ()) \<and> pending mp' = pending mp1 \<and> currentSize mp' = currentSize mp1"
proof -
  define key where "key = (if addrProtocol E a = ProtoID then apiAccountKey E a (curTs mp) else Inr a)"
  note d = assms [unfolded PushWithNonce_def key_def [symmetric]]
  obtain k where k: "key = Inr k" using d by (cases key) auto
  obtain n where n: "getNonceLocked E mp k (curTs mp) = Inr n"
    using d k by (cases "getNonceLocked E mp k (curTs mp)") auto
  obtain m where m: "cb k n = Inr m" using d k n by (cases "cb k n") auto
  obtain ts where ts: "curTs mp = Some ts" using d k n m by (cases "curTs mp") auto
  obtain u where v: "verifyMsgBeforePush (mpMsgEnv E) m (tsHeight ts) = Inr u"
    using d k n m ts by (cases "verifyMsgBeforePush (mpMsgEnv E) m (tsHeight ts)") auto
  obtain b where b: "smSerialize (mpMsgEnv E) m = Inr b"
    using d k n m ts v by (cases "smSerialize (mpMsgEnv E) m") auto
  obtain mp1 r1 where r1: "addLocked E mp m = (mp1, r1)" by fastforce
  obtain mp2 r2 where r2: "addLocal E mp1 m b = (mp2, r2)" by fastforce
  obtain mp3 r3 where r3: "publish E mp2 b = (mp3, r3)" by fastforce
  note d1 = d [simplified k sum.case ts n [unfolded ts] m v b option.case r1 prod.case]
  have ok: "r1 = Inr ()" using d1 by (cases r1) auto
  then have "mp' = mp3 \<and> msg = m"
    using d1 by (simp add: r2 r3 split: sum.splits mpool_err.splits)
  with n m r1 ok addLocal_pool [OF r2] publish_pool [OF r3] show ?thesis by auto
qed

section \<open>Head changes\<close>

definition rget :: "rmsgs \<Rightarrow> address \<Rightarrow> uint64 \<Rightarrow> SignedMessage option" where
  "rget rm a n = (case map_of rm a of None \<Rightarrow> None | Some s \<Rightarrow> map_of s n)"

definition rm_wf :: "rmsgs \<Rightarrow> bool" where
  "rm_wf rm \<longleftrightarrow> distinct (map fst rm) \<and> list_all (\<lambda>p. distinct (map fst (snd p))) rm \<and>
     (\<forall>a n m. rget rm a n = Some m \<longrightarrow> msgKey (smMessage m) = (a, n))"

text \<open>The messages of a list of blocks, and of a list of tipsets, with their senders and nonces.\<close>

definition blockMsgs :: "('sc, 'bc) mpool_env \<Rightarrow> BlockHeader list \<Rightarrow> Message list" where
  "blockMsgs E bs = concat (map (\<lambda>b. case apiMessagesForBlock E b of Inl _ \<Rightarrow> []
     | Inr (bmsgs, smsgs) \<Rightarrow> map smMessage smsgs @ bmsgs) bs)"

definition tipsetMsgs :: "('sc, 'bc) mpool_env \<Rightarrow> TipSet list \<Rightarrow> Message list" where
  "tipsetMsgs E tss = concat (map (blockMsgs E \<circ> tsBlks) tss)"

abbreviation blockKeys :: "('sc, 'bc) mpool_env \<Rightarrow> BlockHeader list \<Rightarrow> (address \<times> uint64) list" where
  "blockKeys E bs \<equiv> map msgKey (blockMsgs E bs)"

abbreviation tipsetKeys :: "('sc, 'bc) mpool_env \<Rightarrow> TipSet list \<Rightarrow> (address \<times> uint64) list" where
  "tipsetKeys E tss \<equiv> map msgKey (tipsetMsgs E tss)"

lemma rget_hc_add:
  "rget (hc_add rm m) a n = (if msgKey (smMessage m) = (a, n) then Some m else rget rm a n)"
  by (auto simp: rget_def hc_add_def Let_def update_conv' msgKey_def split: option.splits)

lemma rm_wf_hc_add: "rm_wf rm \<Longrightarrow> rm_wf (hc_add rm m)"
  unfolding rm_wf_def rget_hc_add
  using list_all_map_of [of "\<lambda>p. distinct (map fst (snd p))" rm "msgFrom (smMessage m)"]
  by (auto simp: hc_add_def Let_def alist_simps split: option.splits)

lemma rget_hc_adds:
  "rm_wf rm \<Longrightarrow> rm_wf (foldl hc_add rm ms) \<and>
     (rget rm a n \<noteq> None \<or> (a, n) \<in> (msgKey \<circ> smMessage) ` set ms \<longrightarrow> rget (foldl hc_add rm ms) a n \<noteq> None) \<and>
     (rget (foldl hc_add rm ms) a n = Some m \<longrightarrow> rget rm a n = Some m \<or> m \<in> set ms)"
proof (induction ms arbitrary: rm)
  case (Cons x ms)
  from Cons.IH [OF rm_wf_hc_add [OF Cons.prems, of x]] show ?case
    by (auto simp: rget_hc_add split: if_splits)
qed simp

lemma rm_messages:
  assumes "rm_wf rm"
  shows "m \<in> set (concat (map (map snd \<circ> snd) rm)) \<longleftrightarrow> (\<exists>a n. rget rm a n = Some m)"
proof -
  have d: "distinct (map fst rm)" "\<And>p. p \<in> set rm \<Longrightarrow> distinct (map fst (snd p))"
    using assms by (auto simp: rm_wf_def list_all_iff)
  have "m \<in> set (concat (map (map snd \<circ> snd) rm)) \<longleftrightarrow> (\<exists>a s n. (a, s) \<in> set rm \<and> (n, m) \<in> set s)"
    by (force simp: image_iff)
  also have "\<dots> \<longleftrightarrow> (\<exists>a s n. map_of rm a = Some s \<and> map_of s n = Some m)"
    using d by (metis map_of_eq_Some_iff snd_conv)
  also have "\<dots> \<longleftrightarrow> (\<exists>a n. rget rm a n = Some m)"
  proof -
    have "rget rm a n = Some m \<longleftrightarrow> (\<exists>s. map_of rm a = Some s \<and> map_of s n = Some m)" for a n
      by (cases "map_of rm a") (simp_all add: rget_def)
    then show ?thesis by blast
  qed
  finally show ?thesis .
qed

lemma rm_wf_Nil: "rm_wf []"
  by (simp add: rm_wf_def rget_def)

lemma rget_Nil [simp]: "rget [] a n = None"
  by (simp add: rget_def)

lemma rm_message_keys:
  assumes "rm_wf rm"
  shows "(a, n) \<in> (msgKey \<circ> smMessage) ` set (concat (map (map snd \<circ> snd) rm)) \<longleftrightarrow> rget rm a n \<noteq> None"
proof -
  have key: "rget rm b j = Some m \<Longrightarrow> msgKey (smMessage m) = (b, j)" for b j m
    using assms by (simp add: rm_wf_def)
  have "(a, n) \<in> (msgKey \<circ> smMessage) ` set (concat (map (map snd \<circ> snd) rm)) \<longleftrightarrow>
      (\<exists>m. (\<exists>b j. rget rm b j = Some m) \<and> msgKey (smMessage m) = (a, n))"
    unfolding image_iff rm_messages [OF assms, symmetric] comp_apply by metis
  also have "\<dots> \<longleftrightarrow> (\<exists>m. rget rm a n = Some m)" using key by fastforce
  finally show ?thesis by simp
qed

text \<open>The effect of taking a list of included messages out of \<open>rmsgs\<close> or the pool.\<close>

definition rm_effect ::
  "(address \<times> uint64) list \<Rightarrow> rmsgs \<Rightarrow> ('sc, 'bc) MessagePool \<Rightarrow> rmsgs \<Rightarrow> ('sc, 'bc) MessagePool \<Rightarrow> bool" where
  "rm_effect ks rm mp rm' mp' \<longleftrightarrow> (rm_wf rm \<longrightarrow> rm_wf rm') \<and>
     (\<forall>b k. rget rm' b k = (if (b, k) \<in> set ks then None else rget rm b k) \<and>
       (pend mp' b k = pend mp b k \<or> (b, k) \<in> set ks \<and> pend mp' b k = None) \<and>
       ((b, k) \<in> set ks \<and> rget rm b k = None \<longrightarrow> pend mp' b k = None))"

lemma rm_effect_Nil: "pend mp' = pend mp \<Longrightarrow> rm_effect [] rm mp rm mp'"
  by (simp add: rm_effect_def)

lemma rm_effect_trans:
  assumes "rm_effect ks rm mp rm1 mp1" "rm_effect ls rm1 mp1 rm2 mp2"
  shows "rm_effect (ks @ ls) rm mp rm2 mp2"
  unfolding rm_effect_def
proof (intro conjI allI impI)
  fix b k
  note f = assms [unfolded rm_effect_def, THEN conjunct2, rule_format, of b k]
  show "rget rm2 b k = (if (b, k) \<in> set (ks @ ls) then None else rget rm b k)" using f by simp
  show "pend mp2 b k = pend mp b k \<or> (b, k) \<in> set (ks @ ls) \<and> pend mp2 b k = None" using f by auto
  show "pend mp2 b k = None" if "(b, k) \<in> set (ks @ ls) \<and> rget rm b k = None"
  proof (cases "(b, k) \<in> set ls")
    case True
    then show ?thesis using f that by auto
  next
    case False
    then have "pend mp1 b k = None" using f(1) that by auto
    with f(2) show ?thesis by auto
  qed
qed (use assms in \<open>simp add: rm_effect_def\<close>)

lemma rm_effect_hc_rm:
  assumes "hc_rm (rm, mp) k = (rm', mp')"
  shows "rm_effect [k] rm mp rm' mp'"
proof -
  obtain a n where k: "k = (a, n)" by fastforce
  show ?thesis
  proof (cases "rget rm a n")
    case None
    then have "rm' = rm" "mp' = remove a n mp"
      using assms k by (auto simp: hc_rm_def rget_def Remove_def split: option.splits)
    then show ?thesis using None k by (auto simp: rm_effect_def pend_remove)
  next
    case (Some m)
    then obtain s where s: "map_of rm a = Some s" "map_of s n = Some m"
      by (auto simp: rget_def split: option.splits)
    then have rm': "rm' = AList.update a (AList.delete n s) rm" "mp' = mp"
      using assms k by (auto simp: hc_rm_def)
    have g: "rget rm' b j = (if (b, j) = (a, n) then None else rget rm b j)" for b j
      using s by (auto simp: rget_def rm' update_conv' delete_conv')
    have "rm_wf rm \<Longrightarrow> distinct (map fst s)"
      using list_all_map_of [of "\<lambda>p. distinct (map fst (snd p))" rm a s] s(1) by (simp add: rm_wf_def)
    then have "rm_wf rm \<Longrightarrow> rm_wf rm'"
      unfolding rm_wf_def g by (auto simp: rm' alist_simps)
    with g show ?thesis using k Some rm'(2) by (auto simp: rm_effect_def)
  qed
qed

lemma rm_effect_foldl: "foldl hc_rm (rm, mp) ks = (rm', mp') \<Longrightarrow> rm_effect ks rm mp rm' mp'"
proof (induction ks arbitrary: rm mp)
  case (Cons k ks)
  obtain rm1 mp1 where s: "hc_rm (rm, mp) k = (rm1, mp1)" by fastforce
  from rm_effect_trans [OF rm_effect_hc_rm [OF s] Cons.IH] Cons.prems s show ?case by simp
qed (simp add: rm_effect_Nil)

lemma rm_effect_blocks:
  "hc_apply_blocks E rm mp bs = (mp', Inr rm') \<Longrightarrow> rm_effect (blockKeys E bs) rm mp rm' mp'"
proof (induction bs arbitrary: rm mp)
  case (Cons b bs)
  show ?case
  proof (cases "apiMessagesForBlock E b")
    case (Inr p)
    obtain bm sm where p: "p = (bm, sm)" by fastforce
    obtain rm1 mp1 where s: "foldl hc_rm (rm, mp) (map (msgKey \<circ> smMessage) sm @ map msgKey bm) = (rm1, mp1)"
      by fastforce
    from Cons.prems Inr p s have "hc_apply_blocks E rm1 mp1 bs = (mp', Inr rm')" by simp
    from rm_effect_trans [OF rm_effect_foldl [OF s] Cons.IH [OF this]] Inr p
    show ?thesis by (simp add: blockMsgs_def)
  qed (use Cons.prems in simp)
qed (simp add: blockMsgs_def rm_effect_Nil)

lemma rm_effect_apply:
  "hc_apply E rm mp tss = (mp', Inr rm') \<Longrightarrow>
     rm_effect (tipsetKeys E tss) rm mp rm' mp' \<and> (tss \<noteq> [] \<longrightarrow> curTs mp' = Some (last tss))"
proof (induction tss arbitrary: rm mp)
  case (Cons ts tss)
  obtain mp1 rm1 where s: "hc_apply_blocks E rm mp (tsBlks ts) = (mp1, Inr rm1)"
    using Cons.prems by (auto split: prod.splits sum.splits)
  let ?mp1 = "mp1\<lparr>curTs := Some ts\<rparr>"
  have h: "hc_apply E rm1 ?mp1 tss = (mp', Inr rm')" using Cons.prems s by simp
  have "rm_effect (blockKeys E (tsBlks ts)) rm mp rm1 ?mp1"
    using rm_effect_trans [OF rm_effect_blocks [OF s] rm_effect_Nil [OF pend_cong, of ?mp1]] by simp
  from rm_effect_trans [OF this conjunct1 [OF Cons.IH [OF h]]]
  have "rm_effect (tipsetKeys E (ts # tss)) rm mp rm' mp'" by (simp add: tipsetMsgs_def)
  moreover have "curTs mp' = Some (last (ts # tss))"
    using Cons.IH [OF h] h by (cases "tss = []") auto
  ultimately show ?case by simp
qed (simp add: tipsetMsgs_def rm_effect_Nil)

text \<open>The signed messages of the blocks of a list of tipsets.\<close>

definition signedMsgs :: "('sc, 'bc) mpool_env \<Rightarrow> TipSet list \<Rightarrow> SignedMessage list" where
  "signedMsgs E tss = concat (map (\<lambda>b. case apiMessagesForBlock E b of Inl _ \<Rightarrow> [] | Inr (_, smsgs) \<Rightarrow> smsgs)
     (concat (map tsBlks tss)))"

lemma recoverSigs_keeps: "recoverSigs E mp out ms = (mp', out') \<Longrightarrow> set out \<subseteq> set out'"
proof (induction ms arbitrary: mp out)
  case (Cons m ms)
  then show ?case by (fastforce split: prod.splits option.splits)
qed simp

lemma MessagesForBlocks_keeps:
  assumes "MessagesForBlocks_loop E mp out bs = (mp', Inr out')"
  shows "set out \<subseteq> set out' \<and>
    (\<forall>b \<in> set bs. \<exists>bm sm. apiMessagesForBlock E b = Inr (bm, sm) \<and> set sm \<subseteq> set out')"
  using assms
proof (induction bs arbitrary: mp out)
  case (Cons b bs)
  then obtain bm sm where a: "apiMessagesForBlock E b = Inr (bm, sm)" by (auto split: sum.splits)
  obtain mp1 out1 where r: "recoverSigs E mp (out @ sm) bm = (mp1, out1)" by fastforce
  from Cons.prems a r have "MessagesForBlocks_loop E mp1 out1 bs = (mp', Inr out')" by simp
  from Cons.IH [OF this] recoverSigs_keeps [OF r] a show ?case by auto
qed simp

lemma MessagesForBlocks_msgs:
  assumes "MessagesForBlocks E mp bs = (mp', Inr out)"
  shows "smMessage ` set out \<subseteq> set (blockMsgs E bs)"
proof
  fix k assume "k \<in> smMessage ` set out"
  then obtain x where x: "x \<in> set out" "k = smMessage x" by auto
  then obtain b bm sm where b: "b \<in> set bs" "apiMessagesForBlock E b = Inr (bm, sm)"
      "x \<in> set sm \<or> smMessage x \<in> set bm"
    using MessagesForBlocks_pool [OF assms [unfolded MessagesForBlocks_def]] by auto
  then show "k \<in> set (blockMsgs E bs)" using x(2) by (force simp: blockMsgs_def)
qed

lemma hc_revert_spec:
  assumes "hc_revert E rm mp tss = (mp', Inr rm')" "rm_wf rm"
  shows "pending mp' = pending mp \<and> rm_wf rm' \<and>
    (rget rm a n \<noteq> None \<or> (a, n) \<in> (msgKey \<circ> smMessage) ` set (signedMsgs E tss) \<longrightarrow> rget rm' a n \<noteq> None) \<and>
    (rget rm' a n = Some m \<longrightarrow> rget rm a n = Some m \<or> smMessage m \<in> set (tipsetMsgs E tss))"
  using assms
proof (induction tss arbitrary: rm mp)
  case (Cons ts tss)
  then obtain pts mp1 ms where s: "MessagesForBlocks E mp (tsBlks ts) = (mp1, Inr ms)"
      "hc_revert E (foldl hc_add rm ms) (mp1\<lparr>curTs := Some pts\<rparr>) tss = (mp', Inr rm')"
    by (auto split: list.splits sum.splits prod.splits)
  note wf = rget_hc_adds [OF Cons.prems(2), of ms a n m]
  note IH = Cons.IH [OF s(2) conjunct1 [OF wf]]
  note p = MessagesForBlocks_pool [OF s(1) [unfolded MessagesForBlocks_def]]
    MessagesForBlocks_keeps [OF s(1) [unfolded MessagesForBlocks_def]] MessagesForBlocks_msgs [OF s(1)]
  have keys: "set (tipsetMsgs E (ts # tss)) = set (blockMsgs E (tsBlks ts)) \<union> set (tipsetMsgs E tss)"
    by (simp add: tipsetMsgs_def)
  have "set (signedMsgs E (ts # tss)) \<subseteq> set ms \<union> set (signedMsgs E tss)"
    using p(2) by (fastforce simp: signedMsgs_def split: sum.splits)
  then have sub: "(msgKey \<circ> smMessage) ` set (signedMsgs E (ts # tss)) \<subseteq>
      (msgKey \<circ> smMessage) ` set ms \<union> (msgKey \<circ> smMessage) ` set (signedMsgs E tss)"
    by (metis image_Un image_mono)
  have "pending mp' = pending mp" "rm_wf rm'" using IH p(1) by simp_all
  moreover have "rget rm' a n \<noteq> None"
    if "rget rm a n \<noteq> None \<or> (a, n) \<in> (msgKey \<circ> smMessage) ` set (signedMsgs E (ts # tss))"
  proof -
    have "(a, n) \<in> (msgKey \<circ> smMessage) ` set (signedMsgs E (ts # tss)) \<Longrightarrow>
        (a, n) \<in> (msgKey \<circ> smMessage) ` set ms \<or> (a, n) \<in> (msgKey \<circ> smMessage) ` set (signedMsgs E tss)"
      using subsetD [OF sub, of "(a, n)"] by (simp only: Un_iff)
    with that have "rget (foldl hc_add rm ms) a n \<noteq> None \<or> (a, n) \<in> (msgKey \<circ> smMessage) ` set (signedMsgs E tss)"
      using conjunct1 [OF conjunct2 [OF wf]] by argo
    then show ?thesis using IH by argo
  qed
  moreover have "rget rm a n = Some m \<or> smMessage m \<in> set (tipsetMsgs E (ts # tss))"
    if "rget rm' a n = Some m"
  proof -
    have "rget (foldl hc_add rm ms) a n = Some m \<or> smMessage m \<in> set (tipsetMsgs E tss)" using that IH by argo
    then have "rget rm a n = Some m \<or> m \<in> set ms \<or> smMessage m \<in> set (tipsetMsgs E tss)" using wf by argo
    then show ?thesis using p(3) unfolding keys by auto
  qed
  ultimately show ?case by blast
qed (simp add: tipsetMsgs_def signedMsgs_def)

lemma curTs_addLocked: "addLocked E mp m = (mp', r) \<Longrightarrow> curTs mp' = curTs mp"
  by (auto simp: addLocked_def addPending_def Let_def split: if_splits sum.splits prod.splits)

lemma addLocked_refuses:
  assumes "addLocked E mp m = (mp', Inl e)" "msgGasLimit (smMessage m) \<le> BlockGasLimit"
    and "apiPutSigned E m = Inr c" "apiPutMessage E (smMessage m) = Inr c'"
  shows "pend mp' (msgFrom (smMessage m)) (msgNonce (smMessage m)) \<noteq> None"
proof -
  obtain mp1 where mp1: "addPending (mpMsgEnv E) mp1 m = (mp', Inl e)"
    using assms by (auto simp: addLocked_def Let_def)
  obtain ms' q where q: "msgSet_add (mpMsgEnv E) (setOf mp1 (msgFrom (smMessage m))) m = (ms', q)" by fastforce
  have "pend mp1 (msgFrom (smMessage m)) (msgNonce (smMessage m)) \<noteq> None"
    using msgSet_add_spec [OF q] addPending_result(1) [of "mpMsgEnv E" mp1 m] mp1 q
    by (auto simp: map_of_setOf)
  then show ?thesis using pend_addPending [OF mp1] by simp
qed

lemma hc_readd_spec:
  assumes "hc_readd E mp ms = (mp', Inr ())"
  shows "curTs mp' = curTs mp \<and> (pend mp a n \<noteq> None \<longrightarrow> pend mp' a n \<noteq> None) \<and>
    ((a, n) \<notin> (msgKey \<circ> smMessage) ` set ms \<longrightarrow> pend mp' a n = pend mp a n) \<and>
    (\<forall>m \<in> set ms. msgKey (smMessage m) = (a, n) \<longrightarrow> msgGasLimit (smMessage m) \<le> BlockGasLimit \<longrightarrow>
       apiPutSigned E m \<in> range Inr \<longrightarrow> apiPutMessage E (smMessage m) \<in> range Inr \<longrightarrow> pend mp' a n \<noteq> None)"
  using assms
proof (induction ms arbitrary: mp)
  case (Cons m ms)
  obtain mp1 q where q: "addLocked E mp m = (mp1, q)" by fastforce
  have h: "hc_readd E mp1 ms = (mp', Inr ())"
    using Cons.prems q by (auto simp: addSkipChecks_def split: sum.splits mpool_err.splits)
  have new: "pend mp1 a n \<noteq> None" if "msgKey (smMessage m) = (a, n)" "msgGasLimit (smMessage m) \<le> BlockGasLimit"
      "apiPutSigned E m \<in> range Inr" "apiPutMessage E (smMessage m) \<in> range Inr"
    using that q addLocked_refuses [of E mp m mp1] pend_addLocked [OF q, of a n]
    by (cases q) (auto simp: msgKey_def)
  show ?case
    using Cons.IH [OF h] curTs_addLocked [OF q] pend_addLocked [OF q, of a n] new
    by (auto simp: msgKey_def)
qed simp

section \<open>The signature cache\<close>

text \<open>
  What a cache promises: it only answers for keys that were added, and it answers for a key just
  added or just answered for.
\<close>

definition sig_cache_laws :: "('sc, 'bc) mpool_env \<Rightarrow> bool" where
  "sig_cache_laws E \<longleftrightarrow>
     (\<forall>c k k'. fst (sigGet E (sigAdd E c k) k') \<longrightarrow> k' = k \<or> fst (sigGet E c k')) \<and>
     (\<forall>c k k'. fst (sigGet E (snd (sigGet E c k)) k') \<longrightarrow> fst (sigGet E c k')) \<and>
     (\<forall>c k. fst (sigGet E (sigAdd E c k) k)) \<and>
     (\<forall>c k. fst (sigGet E c k) \<longrightarrow> fst (sigGet E (snd (sigGet E c k)) k))"

definition sig_valid :: "('sc, 'bc) mpool_env \<Rightarrow> SignedMessage \<Rightarrow> bool" where
  "sig_valid E m \<longleftrightarrow> sigsVerify E (smSignature m) (msgFrom (smMessage m))
     (Message_Cid (mpMsgEnv E) (smMessage m)) = Inr ()"

text \<open>Every key the cache answers for belongs to a message whose signature was found valid.\<close>

definition sig_cache_ok :: "('sc, 'bc) mpool_env \<Rightarrow> 'sc \<Rightarrow> bool" where
  "sig_cache_ok E c \<longleftrightarrow> (\<forall>k. fst (sigGet E c k) \<longrightarrow> (\<exists>m. sigCacheKey (mpMsgEnv E) m = Inr k \<and> sig_valid E m))"

lemma sig_cache_ok_get: "sig_cache_laws E \<Longrightarrow> sig_cache_ok E c \<Longrightarrow> sig_cache_ok E (snd (sigGet E c k))"
  unfolding sig_cache_laws_def sig_cache_ok_def by meson

lemma sig_cache_ok_add:
  assumes "sig_cache_laws E" "sig_cache_ok E c" "sigCacheKey (mpMsgEnv E) m = Inr k" "sig_valid E m"
  shows "sig_cache_ok E (sigAdd E c k)"
  unfolding sig_cache_ok_def
proof (intro allI impI)
  fix j
  assume "fst (sigGet E (sigAdd E c k) j)"
  then consider "j = k" | "fst (sigGet E c j)" using assms(1) unfolding sig_cache_laws_def by metis
  then show "\<exists>m. sigCacheKey (mpMsgEnv E) m = Inr j \<and> sig_valid E m"
  proof cases
    case 1
    with assms(3,4) show ?thesis by auto
  next
    case 2
    with assms(2) show ?thesis by (simp add: sig_cache_ok_def)
  qed
qed

lemma VerifyMsgSig_key:
  assumes "VerifyMsgSig E mp m = (mp', Inr ())"
  obtains k where "sigCacheKey (mpMsgEnv E) m = Inr k"
    "fst (sigGet E (sigValCache mp) k) \<and> sigValCache mp' = snd (sigGet E (sigValCache mp) k) \<or>
     sig_valid E m \<and> sigValCache mp' = sigAdd E (snd (sigGet E (sigValCache mp) k)) k"
  using assms
  by (auto simp: VerifyMsgSig_def sig_valid_def Let_def split: sum.splits prod.splits if_splits)

lemma VerifyMsgSig_hit:
  assumes "sig_cache_laws E" "VerifyMsgSig E mp m = (mp', Inr ())"
    and "sigCacheKey (mpMsgEnv E) m' = sigCacheKey (mpMsgEnv E) m" "sigValCache mp1 = sigValCache mp'"
  shows "snd (VerifyMsgSig E mp1 m') = Inr ()"
proof -
  obtain k where k: "sigCacheKey (mpMsgEnv E) m = Inr k"
    "fst (sigGet E (sigValCache mp) k) \<and> sigValCache mp' = snd (sigGet E (sigValCache mp) k) \<or>
     sig_valid E m \<and> sigValCache mp' = sigAdd E (snd (sigGet E (sigValCache mp) k)) k"
    using VerifyMsgSig_key [OF assms(2)] .
  note laws = assms(1) [unfolded sig_cache_laws_def, THEN conjunct2, THEN conjunct2]
  have "fst (sigGet E (sigValCache mp') k)"
    using k(2)
  proof (elim disjE conjE)
    assume "fst (sigGet E (sigValCache mp) k)" "sigValCache mp' = snd (sigGet E (sigValCache mp) k)"
    then show ?thesis using conjunct2 [OF laws, rule_format, of "sigValCache mp" k] by simp
  qed (use conjunct1 [OF laws] in simp)
  then show ?thesis using assms(3,4) k(1)
    by (cases "sigGet E (sigValCache mp') k") (simp add: VerifyMsgSig_def)
qed

lemma sigValCache_addLocked: "addLocked E mp m = (mp', r) \<Longrightarrow> sigValCache mp' = sigValCache mp"
  by (auto simp: addLocked_def addPending_def Let_def split: if_splits sum.splits prod.splits)

lemma addLocked_put:
  assumes "addLocked E mp m = (mp', Inr ())"
  shows "apiPutMessage E (smMessage m) \<in> range Inr"
  using assms by (auto simp: addLocked_def Let_def split: if_splits sum.splits)

lemma addLocked_same:
  assumes "pend mp (msgFrom (smMessage m)) (msgNonce (smMessage m)) = Some ex" "checkReplace (mpMsgEnv E) m ex = Inr ()"
    and "msgGasLimit (smMessage m) \<le> BlockGasLimit" "apiPutSigned E m \<in> range Inr" "apiPutMessage E (smMessage m) \<in> range Inr"
  shows "snd (addLocked E mp m) = Inr ()"
proof -
  define mp0 where "mp0 = (if sigType (smSignature m) = SigTypeBLS
    then mp\<lparr>blsSigCache := blsAdd E (blsSigCache mp) (Message_Cid (mpMsgEnv E) (smMessage m)) (smSignature m)\<rparr>
    else mp)"
  define mp1 where "mp1 = emit (PutMsg (smMessage m)) (emit (PutSigned m) mp0)"
  have mp1: "pending mp1 = pending mp" "addLocked E mp m = addPending (mpMsgEnv E) mp1 m"
    using assms(3-5) by (auto simp: addLocked_def Let_def mp1_def mp0_def [symmetric]) (simp add: mp0_def)
  have "map_of (msgs (setOf mp1 (msgFrom (smMessage m)))) (msgNonce (smMessage m)) = Some ex"
    using assms(1) pend_cong [OF mp1(1)] by (simp add: map_of_setOf)
  then show ?thesis
    using assms(2) unfolding mp1(2) addPending_result(1) by (simp add: msgSet_add_def Let_def)
qed

section \<open>Properties\<close>

text \<open>
  C7. In every pool the node can reach, the size counter is the number of pending messages, every
  message is filed under its own sender and nonce with a gas limit a block allows, and the listing
  for a sender has exactly its messages in strictly increasing order of their nonces.
\<close>

theorem mpool_consistent:
  assumes "New E sc bc ds results head = Inr mp0" and "(mp_step (\<lambda>_. True) F)\<^sup>*\<^sup>* mp0 mp"
  shows "currentSize mp = int (card {(a, n). pend mp a n \<noteq> None}) \<and>
    (\<forall>a n m. pend mp a n = Some m \<longrightarrow> msgFrom (smMessage m) = a \<and> msgNonce (smMessage m) = n \<and>
       msgGasLimit (smMessage m) \<le> BlockGasLimit) \<and>
    (\<forall>a. set (pendingFor mp a) = {m. \<exists>n. pend mp a n = Some m} \<and> sorted_wrt nonceLess (pendingFor mp a))"
proof -
  have "mp_ok mp0"
    using shape.New_inv [OF assms(1)] emptyPool_ok [of sc bc ds] by (simp add: nonce_ok_def)
  then have ok: "mp_ok mp" by (rule shape.mp_steps_inv [OF assms(2)])
  then show ?thesis
    using currentSize_card [OF ok] pend_entry [OF ok] set_pendingFor [OF ok] pendingFor_sorted [OF ok]
    by (auto simp: entry_ok_def)
qed

text \<open>
  C10. \<open>Add\<close>, when it succeeds, makes the message the pending one for its sender and nonce and
  changes no other; the message is at most 32 KiB, has a recipient, a value below the total supply,
  a nonce not below the sender's, and gas funds the sender can pay; a message it replaces is the
  same message or paid less than 4/5 of the new gas price. When it fails, the pending messages are
  as before.
\<close>

theorem Add_functional:
  assumes "Add E mp m = (mp', r)"
  shows "(r \<noteq> Inr () \<longrightarrow> pend mp' = pend mp) \<and>
    (r = Inr () \<longrightarrow>
       pend mp' = (pend mp)(msgFrom (smMessage m) :=
         (pend mp (msgFrom (smMessage m)))(msgNonce (smMessage m) \<mapsto> m)) \<and>
       SignedMessage_Size (mpMsgEnv E) m \<le> 32 * 1024 \<and> msgTo (smMessage m) \<noteq> address_Undef \<and>
       bigOf (msgValue (smMessage m)) < TotalFilecoinInt \<and> msgGasLimit (smMessage m) \<le> BlockGasLimit \<and>
       (\<exists>sn. getStateNonce E (msgFrom (smMessage m)) (curTs mp) = Inr sn \<and> sn \<le> msgNonce (smMessage m)) \<and>
       (\<exists>bal. getStateBalance E (msgFrom (smMessage m)) (curTs mp) = Inr bal \<and> RequiredFunds (smMessage m) \<le> bal) \<and>
       (\<forall>ex. pend mp (msgFrom (smMessage m)) (msgNonce (smMessage m)) = Some ex \<longrightarrow>
          SignedMessage_Cid (mpMsgEnv E) m = SignedMessage_Cid (mpMsgEnv E) ex \<or>
          5 * bigOf (msgGasPrice (smMessage ex)) < 4 * bigOf (msgGasPrice (smMessage m))))"
  using Add_cases [OF assms]
proof (elim disjE exE conjE)
  fix mp1 v sn bal
  assume a: "pending mp1 = pending mp" "addLocked E mp1 m = (mp', r)"
    "SignedMessage_Size (mpMsgEnv E) m \<le> 32 * 1024" "msgTo (smMessage m) \<noteq> address_Undef"
    "msgValue (smMessage m) = Some v" "v < TotalFilecoinInt"
    "getStateNonce E (msgFrom (smMessage m)) (curTs mp) = Inr sn" "sn \<le> msgNonce (smMessage m)"
    "getStateBalance E (msgFrom (smMessage m)) (curTs mp) = Inr bal" "RequiredFunds (smMessage m) \<le> bal"
  note p = pend_addLocked [OF a(2), unfolded pend_cong [OF a(1)]]
  have rep: "r = Inr () \<Longrightarrow> msgGasLimit (smMessage m) \<le> BlockGasLimit \<and>
      (\<forall>ex. pend mp (msgFrom (smMessage m)) (msgNonce (smMessage m)) = Some ex \<longrightarrow>
         checkReplace (mpMsgEnv E) m ex = Inr ())"
    using addLocked_replaces [of E mp1 m mp'] a(2) pend_cong [OF a(1)] by (auto split: option.splits)
  have "r \<noteq> Inr () \<Longrightarrow> pend mp' = pend mp" by (simp add: fun_eq_iff p)
  moreover have "r = Inr () \<Longrightarrow> pend mp' = (pend mp)(msgFrom (smMessage m) :=
      (pend mp (msgFrom (smMessage m)))(msgNonce (smMessage m) \<mapsto> m))"
    by (auto simp: fun_eq_iff p)
  ultimately show ?thesis using a(3-10) rep checkReplace_price by (auto simp: bigOf_def)
qed (auto dest: pend_cong)

text \<open>
  C12. \<open>PushWithNonce\<close> hands out a nonce above every pending one of the sender and not below the
  sender's nonce on chain: in a pool that never saw the nonce \<open>2 ^ 64 - 1\<close>, the message it adds
  takes a free place, replaces nothing, and makes the pool one message larger.
\<close>

theorem PushWithNonce_fresh:
  assumes "New E0 sc bc ds results head = Inr mp0" and "(mp_step (\<lambda>n. n \<noteq> - 1) F)\<^sup>*\<^sup>* mp0 mp"
    and "\<And>m. Inr (Inr m) \<in> set results \<Longrightarrow> msgNonce (smMessage m) \<noteq> - 1"
    and "PushWithNonce E mp a cb = (mp', Inr msg)"
    and "\<And>k n m. cb k n = Inr m \<Longrightarrow> msgFrom (smMessage m) = k \<and> msgNonce (smMessage m) = n"
  shows "\<exists>k n sn. cb k n = Inr msg \<and> getStateNonce E k (curTs mp) = Inr sn \<and> sn \<le> n \<and>
    (\<forall>j. pend mp k j \<noteq> None \<longrightarrow> j < n) \<and> pend mp' = (pend mp)(k := (pend mp k)(n \<mapsto> msg)) \<and>
    currentSize mp' = currentSize mp + 1"
proof -
  have "nonce_ok mp0" using nonces.New_inv [OF assms(1) emptyPool_ok assms(3)] by simp
  then have ok: "nonce_ok mp" by (rule nonces.mp_steps_inv [OF assms(2)])
  obtain k n mp1 where k: "getNonceLocked E mp k (curTs mp) = Inr n" "cb k n = Inr msg"
      "addLocked E mp msg = (mp1, Inr ())" "pending mp' = pending mp1" "currentSize mp' = currentSize mp1"
    using PushWithNonce_ok [OF assms(4)] by auto
  have key: "msgFrom (smMessage msg) = k" "msgNonce (smMessage msg) = n" using assms(5) [OF k(2)] by auto
  note spec = getNonceLocked_spec [OF ok k(1)]
  have free: "pend mp k n = None" using spec by (metis less_irrefl)
  have "pend mp' = (pend mp)(k := (pend mp k)(n \<mapsto> msg))"
    unfolding pend_cong [OF k(4)] using key by (auto simp: fun_eq_iff pend_addLocked [OF k(3)])
  moreover have "currentSize mp' = currentSize mp + 1"
    using addLocked_replaces [OF k(3)] free k(5) by (simp add: key)
  ultimately show ?thesis using spec k(2) by blast
qed

text \<open>
  C11. A head change leaves no message of an applied tipset pending, unless that message was
  pending before although a reverted tipset had it; it puts every signed message of a reverted
  tipset that is not applied again back into the pool, when the store takes it; it changes no other
  message; and the pool's head becomes the last tipset applied.
\<close>

theorem HeadChange_effect:
  assumes "HeadChange E rng mp rts ats = (mp', Inr ())" and "\<And>xs. set (rng xs) = set xs"
  shows "(pend mp' a n \<noteq> None \<and> (a, n) \<in> set (tipsetKeys E ats) \<longrightarrow>
       (a, n) \<in> set (tipsetKeys E rts) \<and> pend mp' a n = pend mp a n) \<and>
    ((a, n) \<notin> set (tipsetKeys E rts) \<and> (a, n) \<notin> set (tipsetKeys E ats) \<longrightarrow> pend mp' a n = pend mp a n) \<and>
    ((a, n) \<in> (msgKey \<circ> smMessage) ` set (signedMsgs E rts) \<and> (a, n) \<notin> set (tipsetKeys E ats) \<and>
       (\<forall>m \<in> set (tipsetMsgs E rts). msgGasLimit m \<le> BlockGasLimit) \<and>
       range (apiPutSigned E) \<subseteq> range Inr \<and> range (apiPutMessage E) \<subseteq> range Inr \<longrightarrow> pend mp' a n \<noteq> None) \<and>
    (ats \<noteq> [] \<longrightarrow> curTs mp' = Some (last ats))"
proof -
  obtain mp1 rm where s1: "hc_revert E [] mp rts = (mp1, Inr rm)"
    using assms(1) by (auto simp: HeadChange_def split: prod.splits sum.splits)
  obtain mp2 rm2 where s2: "hc_apply E rm mp1 ats = (mp2, Inr rm2)"
    using assms(1) s1 by (auto simp: HeadChange_def split: prod.splits sum.splits)
  define ms where "ms = rng (concat (map (map snd \<circ> snd) rm2))"
  have s3: "hc_readd E mp2 ms = (mp', Inr ())" using assms(1) s1 s2 by (simp add: HeadChange_def ms_def)
  note r1 = hc_revert_spec [OF s1 rm_wf_Nil, of a n, simplified]
  note r2 = conjunct1 [OF rm_effect_apply [OF s2], unfolded rm_effect_def]
    conjunct2 [OF rm_effect_apply [OF s2]]
  note r3 = hc_readd_spec [OF s3, of a n]
  have key: "(a, n) \<in> (msgKey \<circ> smMessage) ` set ms \<longleftrightarrow> rget rm2 a n \<noteq> None"
    using rm_message_keys [of rm2 a n] r1 r2(1) by (simp add: ms_def assms(2))
  have p1: "pend mp1 a n = pend mp a n" using r1 pend_cong [of mp1 mp] by simp
  have g: "rget rm2 a n = (if (a, n) \<in> set (tipsetKeys E ats) then None else rget rm a n)"
    "pend mp2 a n = pend mp a n \<or> (a, n) \<in> set (tipsetKeys E ats) \<and> pend mp2 a n = None"
    "(a, n) \<in> set (tipsetKeys E ats) \<and> rget rm a n = None \<longrightarrow> pend mp2 a n = None"
    using conjunct2 [OF r2(1), rule_format, of a n] p1 by auto
  have rev: "rget rm a n = Some m \<Longrightarrow> smMessage m \<in> set (tipsetMsgs E rts) \<and> msgKey (smMessage m) = (a, n)" for m
    using r1 [of m] by (auto simp: rm_wf_def)
  then have reverted: "rget rm a n \<noteq> None \<Longrightarrow> (a, n) \<in> set (tipsetKeys E rts)"
    by (metis (no_types) image_eqI list.set_map not_Some_eq)
  show ?thesis
  proof (intro conjI impI)
    assume "pend mp' a n \<noteq> None \<and> (a, n) \<in> set (tipsetKeys E ats)"
    then show "(a, n) \<in> set (tipsetKeys E rts)" "pend mp' a n = pend mp a n"
      using reverted r3 g key by metis+
  next
    assume "(a, n) \<notin> set (tipsetKeys E rts) \<and> (a, n) \<notin> set (tipsetKeys E ats)"
    then show "pend mp' a n = pend mp a n" using reverted r3 g key by metis
  next
    assume h: "(a, n) \<in> (msgKey \<circ> smMessage) ` set (signedMsgs E rts) \<and> (a, n) \<notin> set (tipsetKeys E ats) \<and>
       (\<forall>m \<in> set (tipsetMsgs E rts). msgGasLimit m \<le> BlockGasLimit) \<and>
       range (apiPutSigned E) \<subseteq> range Inr \<and> range (apiPutMessage E) \<subseteq> range Inr"
    then have "rget rm a n \<noteq> None" using hc_revert_spec [OF s1 rm_wf_Nil, of a n] by simp
    then obtain m where m: "rget rm2 a n = Some m" "rget rm a n = Some m" using g(1) h by auto
    have "m \<in> set ms"
      using rm_messages [of rm2 m] m(1) r1 r2(1) unfolding ms_def assms(2) by blast
    then show "pend mp' a n \<noteq> None" using r3 h rev [OF m(2)] by (auto simp: image_subset_iff)
  next
    assume "ats \<noteq> []"
    then show "curTs mp' = Some (last ats)" using r2(2) r3 by simp
  qed
qed

lemma sigCacheKey_cid:
  "sigCacheKey M m = Inr k \<Longrightarrow> \<exists>c. SignedMessage_Cid M m = Some c \<and>
     (sigType (smSignature m) = SigTypeSecp256k1 \<and> k = c \<or>
      sigType (smSignature m) = SigTypeBLS \<and> 90 \<le> length (sigData (smSignature m)) \<and> k = c @ drop 64 (sigData (smSignature m)))"
  by (auto simp: sigCacheKey_def not_less split: SigType.splits if_splits option.splits)

lemma SignedMessage_Cid_length:
  "(\<And>b. length (cidSum M b) = n) \<Longrightarrow> SignedMessage_Cid M m = Some c \<Longrightarrow> length c = n"
  by (auto simp: SignedMessage_Cid_def Message_Cid_def split: if_splits sum.splits)

text \<open>
  What a message and another one with the same key share, when all CIDs have one length: the type of
  the signature, the CID and, for a BLS signature, the bytes from the 65th on.
\<close>

definition same_checked :: "msg_env \<Rightarrow> SignedMessage \<Rightarrow> SignedMessage \<Rightarrow> bool" where
  "same_checked M m m' \<longleftrightarrow>
     sigType (smSignature m') = sigType (smSignature m) \<and> SignedMessage_Cid M m' = SignedMessage_Cid M m \<and>
     (sigType (smSignature m) = SigTypeBLS \<longrightarrow> drop 64 (sigData (smSignature m')) = drop 64 (sigData (smSignature m)))"

lemma sigCacheKey_same:
  assumes len: "\<And>b. length (cidSum M b) = n" and k: "sigCacheKey M m = Inr k" "sigCacheKey M m' = Inr k"
  shows "same_checked M m m'"
proof -
  obtain c c' where c: "SignedMessage_Cid M m = Some c" "SignedMessage_Cid M m' = Some c'"
    and kc: "sigType (smSignature m) = SigTypeSecp256k1 \<and> k = c \<or>
      sigType (smSignature m) = SigTypeBLS \<and> 90 \<le> length (sigData (smSignature m)) \<and> k = c @ drop 64 (sigData (smSignature m))"
    "sigType (smSignature m') = SigTypeSecp256k1 \<and> k = c' \<or>
      sigType (smSignature m') = SigTypeBLS \<and> 90 \<le> length (sigData (smSignature m')) \<and> k = c' @ drop 64 (sigData (smSignature m'))"
    using sigCacheKey_cid [OF k(1)] sigCacheKey_cid [OF k(2)] by blast
  have "length c' = length c" using c SignedMessage_Cid_length [OF len] by metis
  with c kc show ?thesis by (auto simp: same_checked_def)
qed

lemma VerifyMsgSig_cache:
  assumes "sig_cache_laws E" and "sig_cache_ok E (sigValCache mp)" and "VerifyMsgSig E mp m = (mp', r)"
  shows "sig_cache_ok E (sigValCache mp')"
    "r = Inr () \<Longrightarrow> \<exists>m' k. sig_valid E m' \<and> sigCacheKey (mpMsgEnv E) m = Inr k \<and> sigCacheKey (mpMsgEnv E) m' = Inr k"
    "sig_valid E m \<Longrightarrow> sigCacheKey (mpMsgEnv E) m \<in> range Inr \<Longrightarrow> r = Inr ()"
  subgoal
  proof (cases "sigCacheKey (mpMsgEnv E) m")
    case (Inr k)
    then show ?thesis
      using assms sig_cache_ok_get [OF assms(1,2), of k] sig_cache_ok_add [OF assms(1) _ Inr]
      by (auto simp: VerifyMsgSig_def sig_valid_def Let_def split: prod.splits sum.splits if_splits)
  qed (use assms in \<open>auto simp: VerifyMsgSig_def\<close>)
  subgoal
    by (rule VerifyMsgSig_key [of E mp m mp']) (use assms in \<open>auto simp: sig_cache_ok_def\<close>)
  subgoal
    using assms(3) by (auto simp: VerifyMsgSig_def sig_valid_def Let_def split: prod.splits if_splits)
  done

text \<open>
  C38. The signature check with its cache, when CIDs have one length. A message is accepted only when
  a message with the same CID, the same type of signature and, for BLS, the same signature bytes from
  the 65th on was found to carry a valid signature of its sender; so a secp256k1 message, whose CID
  covers the signature, is accepted only with a valid signature unless its CID collides with the one
  of another validly signed message. Every valid signature of a known type is accepted (a BLS one
  when it has 90 bytes); an unknown type and a short BLS signature are refused, and an invalid
  signature is refused with the verifier's error when no such message exists. The cache
  keeps holding keys of validly signed messages only, and \<open>Add\<close> admits no message the check refuses.
\<close>

theorem VerifyMsgSig_sound:
  assumes "sig_cache_laws E" and "sig_cache_ok E (sigValCache mp)" and "VerifyMsgSig E mp m = (mp', r)"
    and "\<And>b. length (cidSum (mpMsgEnv E) b) = n"
  shows "sig_cache_ok E (sigValCache mp') \<and>
    (r = Inr () \<longrightarrow> (\<exists>m'. sig_valid E m' \<and> same_checked (mpMsgEnv E) m m')) \<and>
    (r = Inr () \<and> sigType (smSignature m) = SigTypeSecp256k1 \<and>
       (\<forall>m'. sig_valid E m' \<and> sigType (smSignature m') = SigTypeSecp256k1 \<and>
          SignedMessage_Cid (mpMsgEnv E) m' = SignedMessage_Cid (mpMsgEnv E) m \<longrightarrow> m' = m) \<longrightarrow> sig_valid E m) \<and>
    (sig_valid E m \<and> SignedMessage_Cid (mpMsgEnv E) m \<noteq> None \<and>
       (sigType (smSignature m) = SigTypeSecp256k1 \<or>
        sigType (smSignature m) = SigTypeBLS \<and> 90 \<le> length (sigData (smSignature m))) \<longrightarrow> r = Inr ()) \<and>
    (\<forall>t. sigType (smSignature m) = SigTypeOther t \<longrightarrow> r = Inl ErrSigType) \<and>
    (sigType (smSignature m) = SigTypeBLS \<and> length (sigData (smSignature m)) < 90 \<longrightarrow> r = Inl ErrSigTooShort) \<and>
    (\<forall>e. sigCacheKey (mpMsgEnv E) m \<in> range Inr \<and> (\<forall>m'. sig_valid E m' \<longrightarrow> \<not> same_checked (mpMsgEnv E) m m') \<and>
       sigsVerify E (smSignature m) (msgFrom (smMessage m)) (Message_Cid (mpMsgEnv E) (smMessage m)) = Inl e \<longrightarrow>
         r = Inl (ErrExternal e)) \<and>
    (\<forall>mp2. Add E mp m = (mp2, Inr ()) \<longrightarrow> r = Inr ())"
proof -
  note cache = VerifyMsgSig_cache [OF assms(1-3)]
  have s: "\<exists>m'. sig_valid E m' \<and> same_checked (mpMsgEnv E) m m'" if "r = Inr ()"
    using cache(2) [OF that] sigCacheKey_same [OF assms(4)] by blast
  have secp: "sig_valid E m" if "r = Inr ()" "sigType (smSignature m) = SigTypeSecp256k1"
    "\<forall>m'. sig_valid E m' \<and> sigType (smSignature m') = SigTypeSecp256k1 \<and>
          SignedMessage_Cid (mpMsgEnv E) m' = SignedMessage_Cid (mpMsgEnv E) m \<longrightarrow> m' = m"
    using s [OF that(1)] that(2,3) by (auto simp: same_checked_def)
  have inv: "r = Inl (ErrExternal e)" if "sigCacheKey (mpMsgEnv E) m \<in> range Inr"
    "\<forall>m'. sig_valid E m' \<longrightarrow> \<not> same_checked (mpMsgEnv E) m m'"
    "sigsVerify E (smSignature m) (msgFrom (smMessage m)) (Message_Cid (mpMsgEnv E) (smMessage m)) = Inl e" for e
    using that s assms(3) by (auto simp: VerifyMsgSig_def Let_def split: prod.splits if_splits)
  have ok: "r = Inr ()" if "sig_valid E m" "SignedMessage_Cid (mpMsgEnv E) m \<noteq> None"
    "sigType (smSignature m) = SigTypeSecp256k1 \<or>
     sigType (smSignature m) = SigTypeBLS \<and> 90 \<le> length (sigData (smSignature m))"
    using cache(3) that by (auto simp: sigCacheKey_def)
  have types: "sigType (smSignature m) = SigTypeOther t \<Longrightarrow> r = Inl ErrSigType"
    "sigType (smSignature m) = SigTypeBLS \<Longrightarrow> length (sigData (smSignature m)) < 90 \<Longrightarrow> r = Inl ErrSigTooShort" for t
    using assms(3) by (auto simp: VerifyMsgSig_def sigCacheKey_def)
  have "r = Inr ()" if "Add E mp m = (mp2, Inr ())" for mp2
    using Add_cases [OF that] assms(3) by auto
  with cache(1) s secp inv ok types show ?thesis by (intro conjI allI impI) simp_all
qed

text \<open>
  C39. The cache key of a BLS message holds the message and only the signature bytes from the
  65th on. Once a BLS message is in the pool, the same message with other bytes in front of that
  tail is accepted without its signature being checked, and takes the place of the valid one.
\<close>

theorem bls_signature_swapped:
  assumes "sig_cache_laws E" and "Add E mp m = (mp1, Inr ())"
    and "sigType (smSignature m) = SigTypeBLS" and "sigType (smSignature m') = SigTypeBLS"
    and "smMessage m' = smMessage m" and "90 \<le> length (sigData (smSignature m'))"
    and "drop 64 (sigData (smSignature m')) = drop 64 (sigData (smSignature m))"
    and "SignedMessage_Size (mpMsgEnv E) m' \<le> 32 * 1024" and "apiPutSigned E m' \<in> range Inr"
  shows "\<exists>mp2. Add E mp1 m' = (mp2, Inr ()) \<and> pend mp2 (msgFrom (smMessage m)) (msgNonce (smMessage m)) = Some m'"
proof -
  obtain mp0 v sn bal where a: "VerifyMsgSig E mp m = (mp0, Inr ())" "msgTo (smMessage m) \<noteq> address_Undef"
      "msgValue (smMessage m) = Some v" "v < TotalFilecoinInt"
      "getStateNonce E (msgFrom (smMessage m)) (curTs mp) = Inr sn" "sn \<le> msgNonce (smMessage m)"
      "getStateBalance E (msgFrom (smMessage m)) (curTs mp) = Inr bal" "RequiredFunds (smMessage m) \<le> bal"
      "addLocked E mp0 m = (mp1, Inr ())"
    using Add_cases [OF assms(2)] by auto
  have price: "msgGasPrice (smMessage m) \<noteq> None"
    using assms(2) a(1-8) VerifyMsgSig_pool [OF a(1)] by (auto simp: Add_def addTs_def split: if_splits)
  obtain k where k: "sigCacheKey (mpMsgEnv E) m = Inr k" using VerifyMsgSig_key [OF a(1)] .
  have cid: "SignedMessage_Cid (mpMsgEnv E) m' = SignedMessage_Cid (mpMsgEnv E) m"
      "SignedMessage_Cid (mpMsgEnv E) m \<noteq> None"
    using assms(3-5) by (simp_all add: SignedMessage_Cid_def)
  have key: "sigCacheKey (mpMsgEnv E) m' = sigCacheKey (mpMsgEnv E) m"
    using assms(3,4,6,7) cid k by (auto simp: sigCacheKey_def split: if_splits option.splits)
  have hit: "snd (VerifyMsgSig E mp1 m') = Inr ()"
    using VerifyMsgSig_hit [OF assms(1) a(1) key] sigValCache_addLocked [OF a(9)] by simp
  then obtain mp1' where v1: "VerifyMsgSig E mp1 m' = (mp1', Inr ())" by (metis prod.collapse)
  note pool = VerifyMsgSig_pool [OF v1]
  have ts: "curTs mp1' = curTs mp"
    using pool(3) curTs_addLocked [OF a(9)] VerifyMsgSig_pool(3) [OF a(1)] by simp
  have ex: "pend mp1' (msgFrom (smMessage m')) (msgNonce (smMessage m')) = Some m"
    using pend_addLocked [OF a(9)] pend_cong [OF pool(1)] assms(5) by simp
  have rep: "checkReplace (mpMsgEnv E) m' m = Inr ()"
    using cid by (auto simp: checkReplace_def)
  have gl: "msgGasLimit (smMessage m') \<le> BlockGasLimit"
    using addLocked_replaces [OF a(9)] assms(5) by simp
  have "snd (addLocked E mp1' m') = Inr ()"
    using addLocked_same [OF ex rep gl assms(9)] addLocked_put [OF a(9)] assms(5) by simp
  then obtain mp2 where mp2: "addLocked E mp1' m' = (mp2, Inr ())" by (metis prod.collapse)
  have "Add E mp1 m' = (mp2, Inr ())"
    using assms(5,8) a price v1 ts mp2 by (simp add: Add_def addTs_def)
  with pend_addLocked [OF mp2] assms(5) show ?thesis by simp
qed

section \<open>Witnesses\<close>

definition wit_actor :: Actor where
  "wit_actor = \<lparr>actCode = ''c'', actHead = ''h'', actNonce = 0, actBalance = 1000000\<rparr>"

definition wit_sm :: "uint64 \<Rightarrow> bigint \<Rightarrow> SigType \<Rightarrow> bytes \<Rightarrow> SignedMessage" where
  "wit_sm n p t d = \<lparr>smMessage = wit_msg ''a'' ''b'' n 1 p 1000 0, smSignature = \<lparr>sigType = t, sigData = d\<rparr>\<rparr>"

definition wit_mpool_env :: "(bytes list, (cid \<times> Signature) list) mpool_env" where
  "wit_mpool_env =
     \<lparr>mpMsgEnv = \<lparr>msgSerialize = (\<lambda>m. msgFrom m @ msgTo m), smSerialize = (\<lambda>m. Inr (sigData (smSignature m))),
                 cidSum = (\<lambda>b. b)\<rparr>,
      sigsVerify = (\<lambda>s a b. if take 1 (sigData s) = ''y'' then Inl ''bad'' else Inr ()),
      addrProtocol = (\<lambda>a. ProtoSECP256K1),
      sigGet = (\<lambda>c k. (k \<in> set c, c)), sigAdd = (\<lambda>c k. k # c),
      blsGet = (\<lambda>c k. (map_of c k, c)), blsAdd = (\<lambda>c k s. (k, s) # c),
      dsPut = (\<lambda>k v. Inr ()), apiPutSigned = (\<lambda>m. Inr ''c''), apiPutMessage = (\<lambda>m. Inr ''c''),
      apiPublish = (\<lambda>b. Inr ()), apiGetActor = (\<lambda>a ts. Inr wit_actor), apiAccountKey = (\<lambda>a ts. Inr a),
      apiMessagesForBlock = (\<lambda>b. if bhHeight b = 5 then Inr ([], [wit_sm 0 2 SigTypeSecp256k1 ''s'']) else Inr ([], [])),
      apiMessagesForTipset = (\<lambda>ts. Inr []), apiLoadTipSet = (\<lambda>k. Inr wit_ts)\<rparr>"

definition wit_pool :: "(bytes list, (cid \<times> Signature) list) MessagePool" where
  "wit_pool = (emptyPool [] [] [])\<lparr>curTs := Some wit_ts\<rparr>"

definition wit_ts9 :: TipSet where
  "wit_ts9 = \<lparr>tsCids = [''z''], tsBlks = [wit_block ''z'' ''3'' [''g''] 9 7], tsHeight = 9\<rparr>"

lemmas wit_mpool = wit_mpool_env_def wit_sm_def wit_actor_def wit_msg_def

lemma wit_laws: "sig_cache_laws wit_mpool_env"
  by (simp add: sig_cache_laws_def wit_mpool_env_def)

lemma pend_wit_pool [simp]: "pend wit_pool a n = None"
  by (simp add: pend_def wit_pool_def emptyPool_def)

lemma wit_New: "New wit_mpool_env [] [] [] [] (Some wit_ts) = Inr wit_pool"
  by (simp add: New_def wit_pool_def)

lemma wit_Add_secp:
  "\<exists>mp. Add wit_mpool_env wit_pool (wit_sm 0 2 SigTypeSecp256k1 ''s'') = (mp, Inr ())"
  by (simp add: Add_def addTs_def addLocked_def addPending_def VerifyMsgSig_def sigCacheKey_def SignedMessage_Cid_def
      SignedMessage_Size_def getStateNonce_def getStateBalance_def RequiredFunds_def NewInt_def u64_def bigOf_def
      TotalFilecoinInt_eq BlockGasLimit_def msgSet_add_def newMsgSet_def wit_pool_def emptyPool_def emit_def
      wit_mpool Let_def)

lemma wit_step:
  "\<exists>mp. mp_step (\<lambda>_. True) F wit_pool mp \<and> pend mp ''a'' 0 = Some (wit_sm 0 2 SigTypeSecp256k1 ''s'')"
proof -
  obtain mp where mp: "Add wit_mpool_env wit_pool (wit_sm 0 2 SigTypeSecp256k1 ''s'') = (mp, Inr ())"
    using wit_Add_secp by auto
  have "pend mp ''a'' 0 = Some (wit_sm 0 2 SigTypeSecp256k1 ''s'')"
    using Add_cases [OF mp] pend_addLocked by (fastforce simp: wit_sm_def wit_msg_def)
  with mp_step.step_Add [OF mp, of "\<lambda>_. True" F] show ?thesis by auto
qed

definition wit_float :: "int float_env" where
  "wit_float = \<lparr>fOfBig = (\<lambda>x. x), fOfInt64 = (\<lambda>x. x), fDiv = (\<lambda>x y. x div y), fGe = (\<lambda>x y. y \<le> x), fZero = 0\<rparr>"

theorem mpool_consistent_witness:
  "\<exists>mp. pend mp ''a'' 0 = Some (wit_sm 0 2 SigTypeSecp256k1 ''s'') \<and> mp_step (\<lambda>_. True) wit_float wit_pool mp \<and>
     currentSize mp = int (card {(a, n). pend mp a n \<noteq> None}) \<and>
     wit_sm 0 2 SigTypeSecp256k1 ''s'' \<in> set (pendingFor mp ''a'')"
proof -
  obtain mp where mp: "mp_step (\<lambda>_. True) wit_float wit_pool mp"
      "pend mp ''a'' 0 = Some (wit_sm 0 2 SigTypeSecp256k1 ''s'')"
    using wit_step by blast
  have "(mp_step (\<lambda>_. True) wit_float)\<^sup>*\<^sup>* wit_pool mp" using mp(1) by (rule r_into_rtranclp)
  from mpool_consistent [OF wit_New this] mp show ?thesis by (intro exI [of _ mp]) auto
qed

theorem Add_functional_witness:
  "\<exists>mp. Add wit_mpool_env wit_pool (wit_sm 0 2 SigTypeSecp256k1 ''s'') = (mp, Inr ()) \<and>
     pend mp ''a'' 0 = Some (wit_sm 0 2 SigTypeSecp256k1 ''s'') \<and> pend mp ''b'' 0 = None"
proof -
  obtain mp where mp: "Add wit_mpool_env wit_pool (wit_sm 0 2 SigTypeSecp256k1 ''s'') = (mp, Inr ())"
    using wit_Add_secp by auto
  from Add_functional [OF mp] have "pend mp = (pend wit_pool)(''a'' := (pend wit_pool ''a'')(0 \<mapsto> wit_sm 0 2 SigTypeSecp256k1 ''s''))"
    by (simp add: wit_sm_def wit_msg_def)
  with mp show ?thesis by simp
qed

definition wit_cb :: "address \<Rightarrow> uint64 \<Rightarrow> string + SignedMessage" where
  "wit_cb k n = Inr \<lparr>smMessage = wit_msg k ''b'' n 1 0 1000000000 0,
     smSignature = \<lparr>sigType = SigTypeSecp256k1, sigData = ''s''\<rparr>\<rparr>"

lemma wit_PushWithNonce:
  "\<exists>mp. PushWithNonce wit_mpool_env wit_pool ''a'' wit_cb =
     (mp, Inr \<lparr>smMessage = wit_msg ''a'' ''b'' 0 1 0 1000000000 0, smSignature = \<lparr>sigType = SigTypeSecp256k1, sigData = ''s''\<rparr>\<rparr>)"
  by (simp add: PushWithNonce_def getNonceLocked_def getStateNonce_def wit_cb_def verifyMsgBeforePush_def
      SignedMessage_ChainLength_def ValidForBlockInclusion_def TotalFilecoinInt_eq BlockGasLimit_def
      OnChainMessage_def price0_def i64_def addLocked_def addPending_def addLocal_def publish_def
      SignedMessage_Cid_def msgSet_add_def newMsgSet_def wit_pool_def emptyPool_def emit_def wit_mpool Let_def)

theorem PushWithNonce_fresh_witness:
  "\<exists>mp. currentSize mp = 1 \<and> PushWithNonce wit_mpool_env wit_pool ''a'' wit_cb =
     (mp, Inr \<lparr>smMessage = wit_msg ''a'' ''b'' 0 1 0 1000000000 0, smSignature = \<lparr>sigType = SigTypeSecp256k1, sigData = ''s''\<rparr>\<rparr>)"
proof -
  obtain mp where mp: "PushWithNonce wit_mpool_env wit_pool ''a'' wit_cb =
     (mp, Inr \<lparr>smMessage = wit_msg ''a'' ''b'' 0 1 0 1000000000 0, smSignature = \<lparr>sigType = SigTypeSecp256k1, sigData = ''s''\<rparr>\<rparr>)"
    using wit_PushWithNonce by blast
  have "currentSize mp = currentSize wit_pool + 1"
    using PushWithNonce_fresh [OF wit_New rtranclp.rtrancl_refl [of "mp_step (\<lambda>n. n \<noteq> - 1) wit_float"] _ mp]
    by (auto simp: wit_cb_def wit_msg_def)
  with mp show ?thesis by (auto simp: wit_pool_def emptyPool_def)
qed

lemma wit_HeadChange: "\<exists>mp. HeadChange wit_mpool_env (\<lambda>xs. xs) wit_pool [wit_ts] [wit_ts9] = (mp, Inr ())"
  by (simp add: HeadChange_def MessagesForBlocks_def wit_ts_def wit_ts9_def wit_block_def hc_add_def hc_rm_def
      addSkipChecks_def addLocked_def addPending_def msgSet_add_def newMsgSet_def wit_pool_def emptyPool_def emit_def
      BlockGasLimit_def wit_mpool Let_def)

theorem HeadChange_effect_witness:
  "\<exists>mp. HeadChange wit_mpool_env (\<lambda>xs. xs) wit_pool [wit_ts] [wit_ts9] = (mp, Inr ()) \<and>
     pend mp ''a'' 0 \<noteq> None \<and> curTs mp = Some wit_ts9"
proof -
  obtain mp where mp: "HeadChange wit_mpool_env (\<lambda>xs. xs) wit_pool [wit_ts] [wit_ts9] = (mp, Inr ())"
    using wit_HeadChange by auto
  have r: "(''a'', 0) \<in> (msgKey \<circ> smMessage) ` set (signedMsgs wit_mpool_env [wit_ts])"
    "\<forall>m \<in> set (tipsetMsgs wit_mpool_env [wit_ts]). msgGasLimit m \<le> BlockGasLimit"
    "tipsetMsgs wit_mpool_env [wit_ts9] = []"
    by (simp_all add: signedMsgs_def tipsetMsgs_def blockMsgs_def wit_ts_def wit_ts9_def wit_block_def wit_mpool
        msgKey_def BlockGasLimit_def)
  have "range (apiPutSigned wit_mpool_env) \<subseteq> range Inr" "range (apiPutMessage wit_mpool_env) \<subseteq> range Inr"
    by (auto simp: wit_mpool_env_def)
  with HeadChange_effect [OF mp, of "''a''" 0] r mp show ?thesis by auto
qed

text \<open>The environment with CIDs of one byte: a forged message is refused, the genuine one is accepted.\<close>

definition wit_cid_env :: "(bytes list, (cid \<times> Signature) list) mpool_env" where
  "wit_cid_env = wit_mpool_env\<lparr>mpMsgEnv := (mpMsgEnv wit_mpool_env)\<lparr>cidSum := \<lambda>b. take 1 (b @ ''0'')\<rparr>\<rparr>"

theorem VerifyMsgSig_sound_witness:
  "snd (VerifyMsgSig wit_cid_env wit_pool (wit_sm 0 2 SigTypeSecp256k1 ''y'')) = Inl (ErrExternal ''bad'') \<and>
   snd (VerifyMsgSig wit_cid_env wit_pool (wit_sm 0 2 SigTypeSecp256k1 ''s'')) = Inr ()"
proof -
  have laws: "sig_cache_laws wit_cid_env" by (simp add: sig_cache_laws_def wit_cid_env_def wit_mpool_env_def)
  have ok: "sig_cache_ok wit_cid_env (sigValCache wit_pool)"
    by (simp add: sig_cache_ok_def wit_pool_def emptyPool_def wit_cid_env_def wit_mpool_env_def)
  have len: "length (cidSum (mpMsgEnv wit_cid_env) b) = 1" for b by (simp add: wit_cid_env_def)
  note sound = VerifyMsgSig_sound [OF laws ok surjective_pairing len]
  have "sig_valid wit_cid_env (wit_sm 0 2 SigTypeSecp256k1 ''s'')"
    "SignedMessage_Cid (mpMsgEnv wit_cid_env) (wit_sm 0 2 SigTypeSecp256k1 ''s'') \<noteq> None"
    "sigType (smSignature (wit_sm 0 2 SigTypeSecp256k1 ''s'')) = SigTypeSecp256k1"
    by (simp_all add: sig_valid_def wit_cid_env_def wit_mpool SignedMessage_Cid_def)
  with sound [of "wit_sm 0 2 SigTypeSecp256k1 ''s''"]
  have good: "snd (VerifyMsgSig wit_cid_env wit_pool (wit_sm 0 2 SigTypeSecp256k1 ''s'')) = Inr ()" by argo
  have y: "take (Suc 0) d = ''y''" if "take (Suc 0) d @ take (Suc 0 - length d) ''0'' = ''y''" for d :: bytes
    using that by (cases d) auto
  have "sigCacheKey (mpMsgEnv wit_cid_env) (wit_sm 0 2 SigTypeSecp256k1 ''y'') \<in> range Inr"
    "\<forall>m'. sig_valid wit_cid_env m' \<longrightarrow> \<not> same_checked (mpMsgEnv wit_cid_env) (wit_sm 0 2 SigTypeSecp256k1 ''y'') m'"
    "sigsVerify wit_cid_env (smSignature (wit_sm 0 2 SigTypeSecp256k1 ''y''))
      (msgFrom (smMessage (wit_sm 0 2 SigTypeSecp256k1 ''y'')))
      (Message_Cid (mpMsgEnv wit_cid_env) (smMessage (wit_sm 0 2 SigTypeSecp256k1 ''y''))) = Inl ''bad''"
    by (auto simp: sig_valid_def same_checked_def wit_cid_env_def wit_mpool SignedMessage_Cid_def sigCacheKey_def
        split: if_splits dest: y)
  with sound [of "wit_sm 0 2 SigTypeSecp256k1 ''y''"] good show ?thesis by blast
qed

abbreviation (input) wit_good :: SignedMessage where
  "wit_good \<equiv> wit_sm 0 2 SigTypeBLS (replicate 96 CHR ''x'')"

abbreviation (input) wit_forged :: SignedMessage where
  "wit_forged \<equiv> wit_sm 0 2 SigTypeBLS (CHR ''y'' # replicate 95 CHR ''x'')"

lemma wit_Add_bls: "\<exists>mp. Add wit_mpool_env wit_pool wit_good = (mp, Inr ())"
  by (simp add: Add_def addTs_def addLocked_def addPending_def VerifyMsgSig_def sigCacheKey_def SignedMessage_Cid_def
      SignedMessage_Size_def getStateNonce_def getStateBalance_def RequiredFunds_def NewInt_def u64_def bigOf_def
      TotalFilecoinInt_eq BlockGasLimit_def msgSet_add_def newMsgSet_def wit_pool_def emptyPool_def emit_def
      wit_mpool Let_def)

theorem bls_signature_swapped_witness:
  "\<exists>mp1 mp2. Add wit_mpool_env wit_pool wit_good = (mp1, Inr ()) \<and> \<not> sig_valid wit_mpool_env wit_forged \<and>
     Add wit_mpool_env mp1 wit_forged = (mp2, Inr ()) \<and> pend mp2 ''a'' 0 = Some wit_forged"
proof -
  obtain mp1 where mp1: "Add wit_mpool_env wit_pool wit_good = (mp1, Inr ())" using wit_Add_bls by auto
  have invalid: "\<not> sig_valid wit_mpool_env wit_forged" by (simp add: sig_valid_def wit_mpool)
  have "drop 64 (CHR ''y'' # replicate 95 CHR ''x'') = drop 64 (replicate 96 CHR ''x'')"
    by (simp add: drop_Cons')
  then have "\<exists>mp2. Add wit_mpool_env mp1 wit_forged = (mp2, Inr ()) \<and>
      pend mp2 (msgFrom (smMessage wit_good)) (msgNonce (smMessage wit_good)) = Some wit_forged"
    by (intro bls_signature_swapped [OF wit_laws mp1])
      (simp_all add: wit_sm_def SignedMessage_Size_def wit_mpool_env_def)
  with mp1 invalid show ?thesis by (auto simp: wit_sm_def wit_msg_def)
qed

end
