(* ===== verification/Mpool_Keep.thy ===== *)
theory Mpool_Keep
  imports Mpool_Props
begin

text \<open>
  What pruning keeps: the bound on the pool, and that each sender keeps an unbroken run of nonces
  from the one its account is at.
\<close>

abbreviation fromOf :: "SignedMessage \<Rightarrow> address" where
  "fromOf m \<equiv> msgFrom (smMessage m)"

definition metaOf :: "(address \<times> senderMeta) list \<Rightarrow> address \<Rightarrow> SignedMessage list" where
  "metaOf bys a = (case map_of bys a of None \<Rightarrow> [] | Some meta \<Rightarrow> metaMsgs meta)"

section \<open>The messages selected\<close>

lemma metaOf_takeBest:
  assumes "map_of bys s = Some meta"
  shows "metaOf (takeBest bys s meta n) a = (if a = s then drop n (metaMsgs meta) else metaOf bys a)"
  by (auto simp: metaOf_def takeBest_def Let_def update_conv' delete_conv')

text \<open>
  \<open>orig\<close> are the candidates of each sender: what is taken from a sender is always a prefix of them,
  and what is left in the table is the rest.
\<close>

lemma pruneSelect_spec:
  assumes "\<And>a. orig a = filter (\<lambda>m. fromOf m = a) out @ metaOf bys a"
    and "\<And>a m. m \<in> set (metaOf bys a) \<Longrightarrow> fromOf m = a" and "int (length out) \<le> lo"
  shows "int (length (pruneSelect F lo ss bys out)) \<le> lo \<and>
    (\<forall>a. \<exists>rest. orig a = filter (\<lambda>m. fromOf m = a) (pruneSelect F lo ss bys out) @ rest)"
  using assms
proof (induction F lo ss bys out rule: pruneSelect.induct)
  case (1 F lo ss bys out)
  obtain s n g where b: "best_outer F lo (length out) bys ([], 0, fZero F) ss = (s, n, g)"
    by (metis prod_cases3)
  show ?case
  proof (cases "n = 0 \<or> map_of bys s = None")
    case True
    then have "pruneSelect F lo ss bys out = out"
      using b by (auto simp: pruneSelect.simps [of F lo ss bys out])
    with 1(2,4) show ?thesis by auto
  next
    case False
    then obtain meta where meta: "n \<noteq> 0" "map_of bys s = Some meta" by auto
    define out1 where "out1 = out @ take n (metaMsgs meta)"
    define bys1 where "bys1 = takeBest bys s meta n"
    have bound: "n \<le> length (metaMsgs meta)" "int (length out1) \<le> lo"
      using best_outer_take [OF b meta] by (auto simp: out1_def)
    have from_s: "fromOf m = s" if "m \<in> set (metaMsgs meta)" for m
      using that meta(2) 1(3) [of m s] by (simp add: metaOf_def)
    have "filter (\<lambda>m. fromOf m = a) (take n (metaMsgs meta)) = (if a = s then take n (metaMsgs meta) else [])" for a
      using from_s by (auto simp: filter_empty_conv filter_id_conv dest: in_set_takeD)
    then have orig: "orig a = filter (\<lambda>m. fromOf m = a) out1 @ metaOf bys1 a" for a
      using 1(2) [of a] meta(2) unfolding out1_def bys1_def metaOf_takeBest [OF meta(2)]
      by (simp add: metaOf_def)
    have own: "fromOf m = a" if "m \<in> set (metaOf bys1 a)" for a m
      using that 1(3) [of m a] from_s [of m] meta(2)
      by (auto simp: bys1_def metaOf_takeBest dest: in_set_dropD split: if_splits)
    have step: "pruneSelect F lo ss bys out = (if int (length out1) \<ge> lo then out1 else pruneSelect F lo ss bys1 out1)"
      using b meta by (simp add: pruneSelect.simps [of F lo ss bys out] out1_def bys1_def Let_def)
    show ?thesis
    proof (cases "int (length out1) \<ge> lo")
      case True
      then have eq: "pruneSelect F lo ss bys out = out1" using step by simp
      show ?thesis unfolding eq using bound(2) orig by blast
    next
      case False
      then have eq: "pruneSelect F lo ss bys out = pruneSelect F lo ss bys1 out1" using step by simp
      show ?thesis unfolding eq bys1_def
        by (rule 1(1) [OF b [symmetric] refl meta out1_def]) (use False orig own bound(2) in \<open>auto simp: bys1_def\<close>)
    qed
  qed
qed

section \<open>The candidates\<close>

text \<open>The candidates of a sender have consecutive nonces, from the nonce of its account on.\<close>

definition consecutive :: "uint64 \<Rightarrow> SignedMessage list \<Rightarrow> bool" where
  "consecutive n0 ms \<longleftrightarrow> map (msgNonce \<circ> smMessage) ms = map (\<lambda>i. n0 + of_nat i) [0..<length ms]"

definition sel_at ::
  "('sc, 'bc) mpool_env \<Rightarrow> SignedMessage set \<Rightarrow> address \<Rightarrow> (uint64 \<times> bigint) option \<Rightarrow> SignedMessage list \<Rightarrow> bool" where
  "sel_at E S a io ms \<longleftrightarrow> set ms \<subseteq> {m \<in> S. fromOf m = a} \<and>
     (case io of None \<Rightarrow> ms = []
      | Some (n, _) \<Rightarrow> \<exists>act. apiGetActor E a None = Inr act \<and>
          n = actNonce act + of_nat (length ms) \<and> consecutive (actNonce act) ms)"

definition sel_ok :: "('sc, 'bc) mpool_env \<Rightarrow> SignedMessage set \<Rightarrow> selState \<Rightarrow> bool" where
  "sel_ok E S st \<longleftrightarrow> (\<forall>a. sel_at E S a (map_of (incl st) a) (metaOf (outBySender st) a))"

lemma consecutive_snoc:
  "consecutive n0 ms \<Longrightarrow> msgNonce (smMessage m) = n0 + of_nat (length ms) \<Longrightarrow> consecutive n0 (ms @ [m])"
  by (simp add: consecutive_def)

lemma sel_ok_lookup:
  assumes "sel_ok E S st" "lookupIncl E st a = Some (st1, n, b)"
  shows "sel_ok E S st1 \<and> outBySender st1 = outBySender st \<and> map_of (incl st1) a = Some (n, b)"
proof (cases "map_of (incl st) a")
  case None
  then obtain act where act: "apiGetActor E a None = Inr act" "n = actNonce act" "b = actBalance act"
      "st1 = st\<lparr>incl := AList.update a (actNonce act, actBalance act) (incl st)\<rparr>"
    using assms(2) by (auto simp: lookupIncl_def split: sum.splits)
  have "metaOf (outBySender st) a = []"
    using assms(1) [unfolded sel_ok_def, rule_format, of a] None by (simp add: sel_at_def)
  then have "sel_at E S a (Some (n, b)) (metaOf (outBySender st) a)"
    using act(1,2) by (simp add: sel_at_def consecutive_def)
  then show ?thesis
    using assms(1) act(2-4) by (auto simp: sel_ok_def update_conv')
next
  case (Some p)
  then show ?thesis using assms by (auto simp: lookupIncl_def)
qed

lemma sel_ok_include:
  assumes "sel_ok E S st" "map_of (incl st) (fromOf m) = Some (msgNonce (smMessage m), b)" "m \<in> S"
  shows "sel_ok E S (includeMsg E B ts b st m)"
proof -
  let ?st = "includeMsg E B ts b st m"
  obtain act where act: "apiGetActor E (fromOf m) None = Inr act"
      "msgNonce (smMessage m) = actNonce act + of_nat (length (metaOf (outBySender st) (fromOf m)))"
      "consecutive (actNonce act) (metaOf (outBySender st) (fromOf m))"
    using assms(1) [unfolded sel_ok_def, rule_format, of "fromOf m"] assms(2) by (auto simp: sel_at_def)
  have meta: "metaOf (outBySender ?st) a =
      (if a = fromOf m then metaOf (outBySender st) a @ [m] else metaOf (outBySender st) a)" for a
    by (auto simp: includeMsg_def metaOf_def Let_def update_conv' emptyMeta_def split: option.splits)
  have inc: "map_of (incl ?st) a = (if a = fromOf m
      then Some (msgNonce (smMessage m) + 1, b - RequiredFunds (smMessage m)) else map_of (incl st) a)" for a
    by (simp add: includeMsg_def Let_def update_conv')
  have "sel_at E S (fromOf m) (Some (msgNonce (smMessage m) + 1, b - RequiredFunds (smMessage m)))
      (metaOf (outBySender st) (fromOf m) @ [m])"
    using assms(1) [unfolded sel_ok_def, rule_format, of "fromOf m"] assms(3) act consecutive_snoc [OF act(3,2)]
    by (auto simp: sel_at_def)
  with assms(1) show ?thesis by (simp add: sel_ok_def meta inc)
qed

lemma sel_ok_selectMsg:
  assumes "sel_ok E S st" "selectMsg E B ts st m = Some st'" "m \<in> S"
  shows "sel_ok E S st'"
proof (cases "lookupIncl E st (fromOf m)")
  case None
  then show ?thesis using assms
    by (auto simp: selectMsg_def split: sum.splits mpool_err.splits if_splits)
next
  case (Some p)
  obtain st1 n b where p: "p = (st1, n, b)" by (metis prod_cases3)
  note l = sel_ok_lookup [OF assms(1) Some [unfolded p]]
  have "sel_ok E S (includeMsg E B ts b st1 m)" if "n = msgNonce (smMessage m)"
    using sel_ok_include [of E S st1 m b B ts] l that assms(3) by simp
  then show ?thesis using assms Some p l
    by (auto simp: selectMsg_def split: sum.splits mpool_err.splits if_splits)
qed

lemma sel_ok_selectMsgs:
  "selectMsgs E B ots st ms = Some st' \<Longrightarrow> sel_ok E S st \<Longrightarrow> set ms \<subseteq> S \<Longrightarrow> sel_ok E S st'"
proof (induction ms arbitrary: st)
  case (Cons m ms)
  then show ?case by (auto split: option.splits intro: sel_ok_selectMsg)
qed simp

section \<open>The messages removed\<close>

lemma pend_removeBad:
  assumes "removeBad M good mp ms = (mp', Inr ())"
  shows "pend mp' a n = (if \<exists>m \<in> set ms. fromOf m = a \<and> msgNonce (smMessage m) = n \<and>
      SignedMessage_Cid M m \<notin> Some ` set good then None else pend mp a n)"
  using assms
proof (induction ms arbitrary: mp)
  case (Cons m ms)
  then obtain c where c: "SignedMessage_Cid M m = Some c" by (auto split: option.splits)
  have "removeBad M good (if c \<in> set good then mp else remove (fromOf m) (msgNonce (smMessage m)) mp) ms = (mp', Inr ())"
    using Cons.prems c by simp
  from Cons.IH [OF this] show ?case using c by (auto simp: pend_remove)
qed simp

lemma those_set: "those xs = Some ys \<Longrightarrow> Some ` set ys = set xs"
proof (induction xs arbitrary: ys)
  case (Cons x xs)
  then obtain y zs where "x = Some y" "those xs = Some zs" "ys = y # zs" by (auto split: option.splits)
  with Cons.IH [of zs] show ?case by simp
qed simp

lemma prune_phases:
  assumes "mp_ok mp" "set addrs = fst ` set (pending mp)" "0 \<le> maxTxPoolSizeLo mp"
    and "pruneMessages E B F addrs mp ts = (mp', Inr ())"
  obtains st out where "sel_ok E {m. \<exists>a n. pend mp a n = Some m} st"
    "int (length out) \<le> maxTxPoolSizeLo mp"
    "\<forall>a. \<exists>rest. metaOf (outBySender st) a = filter (\<lambda>m. fromOf m = a) out @ rest"
    "\<forall>a n. pend mp' a n = (if \<exists>m. pend mp a n = Some m \<and>
       SignedMessage_Cid (mpMsgEnv E) m \<notin> SignedMessage_Cid (mpMsgEnv E) ` set out then None else pend mp a n)"
proof -
  define ms where "ms = sort_slice nonceLess (concat (map (pendingFor mp) addrs))"
  have "set ms = (\<Union>a \<in> set addrs. set (pendingFor mp a))" by (simp add: ms_def)
  also have "\<dots> = {m. \<exists>a n. pend mp a n = Some m}"
  proof -
    have "a \<in> set addrs" if "pend mp a n = Some m" for a n m
    proof -
      obtain s where "map_of (pending mp) a = Some s" using \<open>pend mp a n = Some m\<close> by (auto simp: pend_def split: option.splits)
      from map_of_SomeD [OF this] show ?thesis unfolding assms(2) by force
    qed
    then show ?thesis unfolding set_pendingFor [OF assms(1)] by blast
  qed
  finally have ms: "set ms = {m. \<exists>a n. pend mp a n = Some m}" .
  obtain st where st: "selectMsgs E B ts \<lparr>incl = [], outBySender = []\<rparr> ms = Some st"
    using assms(4) by (auto simp: pruneMessages_def Let_def ms_def split: option.splits)
  define out where "out = pruneSelect F (maxTxPoolSizeLo mp) (sort_slice (<) (map fst (outBySender st))) (outBySender st) []"
  obtain good where good: "those (map (SignedMessage_Cid (mpMsgEnv E)) out) = Some good"
      "removeBad (mpMsgEnv E) good mp ms = (mp', Inr ())"
    using assms(4) st by (auto simp: pruneMessages_def Let_def ms_def out_def split: option.splits)
  have ok: "sel_ok E {m. \<exists>a n. pend mp a n = Some m} st"
    by (rule sel_ok_selectMsgs [OF st]) (simp_all add: ms sel_ok_def sel_at_def metaOf_def)
  have own: "m \<in> set (metaOf (outBySender st) a) \<Longrightarrow> fromOf m = a" for a m
    using ok by (auto simp: sel_ok_def sel_at_def)
  have key: "m \<in> set ms \<and> fromOf m = a \<and> msgNonce (smMessage m) = n \<longleftrightarrow> pend mp a n = Some m" for m a n
    using pend_entry [OF assms(1)] by (auto simp: ms entry_ok_def)
  have rest: "pend mp' a n = (if \<exists>m. pend mp a n = Some m \<and>
      SignedMessage_Cid (mpMsgEnv E) m \<notin> SignedMessage_Cid (mpMsgEnv E) ` set out then None else pend mp a n)" for a n
  proof -
    have "(\<exists>m \<in> set ms. fromOf m = a \<and> msgNonce (smMessage m) = n \<and> Q m) \<longleftrightarrow> (\<exists>m. pend mp a n = Some m \<and> Q m)" for Q
      using key [of _ a n] by metis
    then show ?thesis unfolding pend_removeBad [OF good(2)] those_set [OF good(1)] by simp
  qed
  have sel: "int (length out) \<le> maxTxPoolSizeLo mp"
    "\<forall>a. \<exists>rest. metaOf (outBySender st) a = filter (\<lambda>m. fromOf m = a) out @ rest"
    using pruneSelect_spec [of "metaOf (outBySender st)" "[]" "outBySender st" "maxTxPoolSizeLo mp" F] own assms(3)
    by (simp_all add: out_def)
  show ?thesis by (rule that [OF ok sel]) (intro allI, rule rest)
qed

text \<open>The nonces of a prefix of the candidates of a sender.\<close>

lemma kept_run:
  assumes "sel_ok E S st" "\<exists>rest. metaOf (outBySender st) a = filter (\<lambda>m. fromOf m = a) out @ rest"
  shows "\<exists>k. {msgNonce (smMessage m) |m. m \<in> set out \<and> fromOf m = a} =
    (case apiGetActor E a None of Inl _ \<Rightarrow> {} | Inr act \<Rightarrow> (\<lambda>i. actNonce act + of_nat i) ` {..<k})"
proof -
  define xs where "xs = filter (\<lambda>m. fromOf m = a) out"
  obtain rest where rest: "metaOf (outBySender st) a = xs @ rest" using assms(2) by (auto simp: xs_def)
  have set: "{msgNonce (smMessage m) |m. m \<in> set out \<and> fromOf m = a} = set (map (msgNonce \<circ> smMessage) xs)"
    by (auto simp: xs_def)
  note at = assms(1) [unfolded sel_ok_def, rule_format, of a, unfolded rest]
  show ?thesis
  proof (cases "map_of (incl st) a")
    case None
    then have "xs = []" using at by (simp add: sel_at_def)
    then show ?thesis unfolding set by (auto intro: exI [of _ 0] split: sum.splits)
  next
    case (Some p)
    then obtain act where act: "apiGetActor E a None = Inr act" "consecutive (actNonce act) (xs @ rest)"
      using at by (auto simp: sel_at_def split: prod.splits)
    then have "map (msgNonce \<circ> smMessage) xs = map (\<lambda>i. actNonce act + of_nat i) (take (length xs) [0..<length (xs @ rest)])"
      unfolding consecutive_def by (metis append_eq_conv_conj length_map map_append take_map)
    then have "set (map (msgNonce \<circ> smMessage) xs) = (\<lambda>i. actNonce act + of_nat i) ` {..<length xs}"
      by (simp only: set_map) (simp add: lessThan_atLeast0)
    then show ?thesis unfolding set using act(1) by auto
  qed
qed

lemma pairs_image: "{(a, n). \<exists>y. y \<in> A \<and> f y = a \<and> g y = n} = (\<lambda>m. (f m, g m)) ` A"
  by auto

lemma card_pairs_image: "card ((\<lambda>m. (f m, g m)) ` set xs) \<le> length xs"
  by (rule order_trans [OF card_image_le card_length]) simp

section \<open>Property\<close>

text \<open>
  C18. Pruning a pool whose messages have different CIDs leaves at most the low-water mark of
  messages, adds none, and keeps for every sender an unbroken run of nonces from the nonce of its
  account, so that everything kept can still be included in a block.
\<close>

theorem pruneMessages_bounds:
  assumes "mp_ok mp" and "set addrs = fst ` set (pending mp)" and "0 \<le> maxTxPoolSizeLo mp"
    and "inj_on (SignedMessage_Cid (mpMsgEnv E)) {m. \<exists>a n. pend mp a n = Some m}"
    and "pruneMessages E B F addrs mp ts = (mp', Inr ())"
  shows "currentSize mp' \<le> maxTxPoolSizeLo mp \<and>
    (\<forall>a n. pend mp' a n \<noteq> None \<longrightarrow> pend mp' a n = pend mp a n) \<and>
    (\<forall>a. \<exists>k. {n. pend mp' a n \<noteq> None} =
       (case apiGetActor E a None of Inl _ \<Rightarrow> {} | Inr act \<Rightarrow> (\<lambda>i. actNonce act + of_nat i) ` {..<k}))"
proof -
  let ?S = "{m. \<exists>a n. pend mp a n = Some m}"
  obtain st out where p: "sel_ok E ?S st" "int (length out) \<le> maxTxPoolSizeLo mp"
    "\<forall>a. \<exists>rest. metaOf (outBySender st) a = filter (\<lambda>m. fromOf m = a) out @ rest"
    "\<forall>a n. pend mp' a n = (if \<exists>m. pend mp a n = Some m \<and>
       SignedMessage_Cid (mpMsgEnv E) m \<notin> SignedMessage_Cid (mpMsgEnv E) ` set out then None else pend mp a n)"
    by (rule prune_phases [OF assms(1-3,5)])
  have S: "set out \<subseteq> ?S"
  proof
    fix m assume m: "m \<in> set out"
    obtain rest where "metaOf (outBySender st) (fromOf m) = filter (\<lambda>m'. fromOf m' = fromOf m) out @ rest"
      using p(3) by blast
    then have "m \<in> set (metaOf (outBySender st) (fromOf m))" using m by simp
    then have "m \<in> {m' \<in> ?S. fromOf m' = fromOf m}"
      using spec [OF p(1) [unfolded sel_ok_def], of "fromOf m", unfolded sel_at_def, THEN conjunct1] by (rule subsetD [rotated])
    then show "m \<in> ?S" by simp
  qed
  have key: "pend mp a n = Some m \<longleftrightarrow> m \<in> ?S \<and> fromOf m = a \<and> msgNonce (smMessage m) = n" for a n m
  proof
    assume "pend mp a n = Some m"
    with pend_entry [OF assms(1) this] show "m \<in> ?S \<and> fromOf m = a \<and> msgNonce (smMessage m) = n"
      by (auto simp: entry_ok_def)
  next
    assume "m \<in> ?S \<and> fromOf m = a \<and> msgNonce (smMessage m) = n"
    then obtain b k where b: "pend mp b k = Some m" "fromOf m = a" "msgNonce (smMessage m) = n" by auto
    with pend_entry [OF assms(1) b(1)] have "b = a" "k = n" by (simp_all add: entry_ok_def)
    with b(1) show "pend mp a n = Some m" by simp
  qed
  have kept: "pend mp' a n = Some m \<longleftrightarrow> m \<in> set out \<and> fromOf m = a \<and> msgNonce (smMessage m) = n" for a n m
  proof -
    define good where "good x \<longleftrightarrow> SignedMessage_Cid (mpMsgEnv E) x \<in> SignedMessage_Cid (mpMsgEnv E) ` set out" for x
    have iff: "pend mp a n = Some x \<Longrightarrow> good x \<longleftrightarrow> x \<in> set out" for x
      unfolding good_def by (rule inj_on_image_mem_iff [OF assms(4) _ S]) (rule CollectI, rule exI, rule exI)
    have "pend mp' a n = (if \<exists>m. pend mp a n = Some m \<and> \<not> good m then None else pend mp a n)"
      unfolding good_def by (rule p(4) [rule_format, of a n])
    then have "pend mp' a n = Some m \<longleftrightarrow> pend mp a n = Some m \<and> m \<in> set out"
      using iff by (cases "pend mp a n") auto
    also have "\<dots> \<longleftrightarrow> m \<in> set out \<and> fromOf m = a \<and> msgNonce (smMessage m) = n"
      using key [of a n m] subsetD [OF S, of m] by argo
    finally show ?thesis .
  qed
  have "mp_ok mp'" using shape.pruneMessages_inv [OF assms(5,1)] .
  moreover have "card {(a, n). pend mp' a n \<noteq> None} \<le> length out"
  proof -
    have "{(a, n). pend mp' a n \<noteq> None} = (\<lambda>m. (fromOf m, msgNonce (smMessage m))) ` set out"
      unfolding not_None_eq kept by (rule pairs_image)
    then show ?thesis by (simp add: card_pairs_image)
  qed
  ultimately have "currentSize mp' \<le> maxTxPoolSizeLo mp" using currentSize_card [of mp'] p(2) by linarith
  moreover have "pend mp' a n = pend mp a n" if "pend mp' a n \<noteq> None" for a n
    using that p(4) [rule_format, of a n] by argo
  moreover have "\<exists>k. {n. pend mp' a n \<noteq> None} =
       (case apiGetActor E a None of Inl _ \<Rightarrow> {} | Inr act \<Rightarrow> (\<lambda>i. actNonce act + of_nat i) ` {..<k})" for a
  proof -
    have "{n. pend mp' a n \<noteq> None} = {msgNonce (smMessage m) |m. m \<in> set out \<and> fromOf m = a}"
      unfolding not_None_eq kept by auto
    then show ?thesis using kept_run [OF p(1) p(3) [rule_format, of a]] by simp
  qed
  ultimately show ?thesis by (intro conjI allI impI)
qed

definition wit_pool1 :: "(bytes list, (cid \<times> Signature) list) MessagePool" where
  "wit_pool1 = wit_pool\<lparr>currentSize := 1, pending := [(''a'', \<lparr>msgs = [(0, \<lparr>smMessage = wit_msg ''a'' ''b'' 0 1 0 1000000000 0,
     smSignature = \<lparr>sigType = SigTypeSecp256k1, sigData = ''s''\<rparr>\<rparr>)], nextNonce = 1\<rparr>)]\<rparr>"

definition wit_codes :: builtin_codes where
  "wit_codes = \<lparr>InitActorCodeID = ''i'', StorageMarketActorCodeID = ''k'', StorageMinerActorCodeID = ''m'',
     StoragePowerActorCodeID = ''p''\<rparr>"

lemma wit_prune:
  "pruneMessages wit_mpool_env wit_codes wit_float [''a''] wit_pool1 (Some wit_ts) = (wit_pool1, Inr ())"
  by (simp add: pruneMessages_def pendingFor_def wit_pool1_def wit_pool_def emptyPool_def selectMsg_def
      verifyMsgBeforePush_def SignedMessage_ChainLength_def ValidForBlockInclusion_def TotalFilecoinInt_eq
      BlockGasLimit_def OnChainMessage_def price0_def i64_def lookupIncl_def includeMsg_def emptyMeta_def
      GuessGasUsed_def MethodSend_def pruneSelect.simps takeBest_def MemPoolSizeLimitLoDefault_def wit_float_def
      SignedMessage_Cid_def RequiredFunds_def bigOf_def NewInt_def u64_def wit_mpool Let_def)

theorem pruneMessages_bounds_witness:
  "currentSize wit_pool1 \<le> 20000 \<and>
   pruneMessages wit_mpool_env wit_codes wit_float [''a''] wit_pool1 (Some wit_ts) = (wit_pool1, Inr ())"
proof -
  have ok: "mp_ok wit_pool1" "0 \<le> maxTxPoolSizeLo wit_pool1" "set [''a''] = fst ` set (pending wit_pool1)"
    by (simp_all add: mp_ok_def wit_pool1_def wit_pool_def emptyPool_def mset_ok_def entry_ok_def wit_msg_def
        BlockGasLimit_def pool_size_def MemPoolSizeLimitLoDefault_def)
  have one: "pend wit_pool1 a n = Some m \<Longrightarrow> m = \<lparr>smMessage = wit_msg ''a'' ''b'' 0 1 0 1000000000 0,
     smSignature = \<lparr>sigType = SigTypeSecp256k1, sigData = ''s''\<rparr>\<rparr>" for a n m
    by (auto simp: pend_def wit_pool1_def split: if_splits)
  have inj: "inj_on (SignedMessage_Cid (mpMsgEnv wit_mpool_env)) {m. \<exists>a n. pend wit_pool1 a n = Some m}"
    using one by (intro inj_onI) blast
  from pruneMessages_bounds [OF ok(1,3,2) inj wit_prune] wit_prune show ?thesis
    by (simp add: wit_pool1_def wit_pool_def emptyPool_def MemPoolSizeLimitLoDefault_def)
qed

end
