(* ===== verification/Chain_Index.thy ===== *)
theory Chain_Index
  imports Tipset_Key
begin

text \<open>
  Walking the chain: \<open>chain/store/index.go\<close>, and the ancestor queries of \<open>chain/store/store.go\<close>.

  The code reaches the parent of a tipset through a function that loads a tipset by its key
  (\<open>loadTipSetFunc\<close>, which is \<open>ChainStore.LoadTipSet\<close>); it is the parameter \<open>load\<close> here. The loops
  stop only where the heights they meet make them stop, so not returning is \<open>None\<close>. The skip cache
  is an \<open>lru.ARCCache\<close>, a parameter as well. An error is the message of its cause: what a caller
  wraps around it with \<open>%w\<close> is left out.
\<close>

section \<open>Walking back\<close>

type_synonym loader = "TipSetKey \<Rightarrow> string + TipSet"

definition ErrAbove :: string where
  "ErrAbove = ''looking for tipset with height greater than start point''"

partial_function (option) walkBack_loop :: "loader \<Rightarrow> TipSet \<Rightarrow> epoch \<Rightarrow> (string + TipSet) option" where
  "walkBack_loop load ts to =
     (case load (Parents ts) of Inl e \<Rightarrow> Some (Inl e)
      | Inr pts \<Rightarrow>
          if to > tsHeight pts then Some (Inr ts)
          else if to = tsHeight pts then Some (Inr pts)
          else walkBack_loop load pts to)"

definition walkBack :: "loader \<Rightarrow> TipSet \<Rightarrow> epoch \<Rightarrow> (string + TipSet) option" where
  "walkBack load from to =
     (if to > tsHeight from then Some (Inl ErrAbove)
      else if to = tsHeight from then Some (Inr from)
      else walkBack_loop load from to)"

section \<open>The skip list\<close>

record lbEntry =
  lbTs :: TipSet
  parentHeight :: epoch
  targetHeight :: epoch
  target :: TipSetKey

record 'c skip_cache =
  skipGet :: "'c \<Rightarrow> TipSetKey \<Rightarrow> lbEntry option \<times> 'c"
  skipAdd :: "'c \<Rightarrow> TipSetKey \<Rightarrow> lbEntry \<Rightarrow> 'c"

definition skipLength :: epoch where "skipLength = 20"

definition roundHeight :: "epoch \<Rightarrow> epoch" where
  "roundHeight h = go_div h skipLength * skipLength"

definition roundDown :: "loader \<Rightarrow> TipSet \<Rightarrow> (string + TipSet) option" where
  "roundDown load ts = walkBack load ts (roundHeight (tsHeight ts))"

text \<open>The entry for a key, before it is stored: \<open>None\<close> when the walk does not return.\<close>

definition skipEntry :: "loader \<Rightarrow> TipSetKey \<Rightarrow> (string + lbEntry \<times> bool) option" where
  "skipEntry load tsk =
     (case load tsk of Inl e \<Rightarrow> Some (Inl e)
      | Inr ts \<Rightarrow>
          if tsHeight ts = 0
          then Some (Inr (\<lparr>lbTs = ts, parentHeight = 0, targetHeight = 0, target = EmptyTSK\<rparr>, False))
          else (case load (Parents ts) of Inl e \<Rightarrow> Some (Inl e)
          | Inr parent \<Rightarrow>
              let rheight = roundHeight (tsHeight ts) - skipLength in
              (case (if tsHeight parent < rheight then Some (Inr parent) else walkBack load parent rheight) of
                 None \<Rightarrow> None
               | Some (Inl e) \<Rightarrow> Some (Inl e)
               | Some (Inr skipTarget) \<Rightarrow>
                   Some (Inr (\<lparr>lbTs = ts, parentHeight = tsHeight parent,
                               targetHeight = tsHeight skipTarget, target = Key skipTarget\<rparr>, True)))))"

definition fillCache ::
  "'c skip_cache \<Rightarrow> loader \<Rightarrow> 'c \<Rightarrow> TipSetKey \<Rightarrow> ('c \<times> (string + lbEntry)) option" where
  "fillCache C load sc tsk =
     (case skipEntry load tsk of None \<Rightarrow> None
      | Some (Inl e) \<Rightarrow> Some (sc, Inl e)
      | Some (Inr (lbe, store)) \<Rightarrow> Some (if store then skipAdd C sc tsk lbe else sc, Inr lbe))"

definition lookupEntry ::
  "'c skip_cache \<Rightarrow> loader \<Rightarrow> 'c \<Rightarrow> TipSetKey \<Rightarrow> ('c \<times> (string + lbEntry)) option" where
  "lookupEntry C load sc cur =
     (case skipGet C sc cur of
        (Some lbe, sc1) \<Rightarrow> Some (sc1, Inr lbe)
      | (None, sc1) \<Rightarrow> fillCache C load sc1 cur)"

partial_function (option) skip_loop ::
  "'c skip_cache \<Rightarrow> loader \<Rightarrow> 'c \<Rightarrow> TipSetKey \<Rightarrow> epoch \<Rightarrow> ('c \<times> (string + TipSet)) option" where
  "skip_loop C load sc cur to =
     Option.bind (lookupEntry C load sc cur) (\<lambda>(sc1, r).
       case r of Inl e \<Rightarrow> Some (sc1, Inl e)
       | Inr lbe \<Rightarrow>
           if tsHeight (lbTs lbe) = to \<or> parentHeight lbe < to then Some (sc1, Inr (lbTs lbe))
           else if to > targetHeight lbe then map_option (Pair sc1) (walkBack load (lbTs lbe) to)
           else skip_loop C load sc1 (target lbe) to)"

definition index_GetTipsetByHeight ::
  "'c skip_cache \<Rightarrow> loader \<Rightarrow> 'c \<Rightarrow> TipSet \<Rightarrow> epoch \<Rightarrow> ('c \<times> (string + TipSet)) option" where
  "index_GetTipsetByHeight C load sc from to =
     (if tsHeight from - to \<le> skipLength then map_option (Pair sc) (walkBack load from to)
      else case roundDown load from of None \<Rightarrow> None
      | Some (Inl e) \<Rightarrow> Some (sc, Inl e)
      | Some (Inr rounded) \<Rightarrow> skip_loop C load sc (Key rounded) to)"

definition GetTipsetByHeightWithoutCache :: "loader \<Rightarrow> TipSet \<Rightarrow> epoch \<Rightarrow> (string + TipSet) option" where
  "GetTipsetByHeightWithoutCache load from to = walkBack load from to"

definition PanicNil :: string where
  "PanicNil = ''runtime error: invalid memory address or nil pointer dereference''"

text \<open>\<open>ChainStore.GetTipsetByHeight\<close>; without a tipset to start from, it takes the head.\<close>

definition GetTipsetByHeight ::
  "'c skip_cache \<Rightarrow> loader \<Rightarrow> TipSet option \<Rightarrow> 'c \<Rightarrow> epoch \<Rightarrow> TipSet option \<Rightarrow> bool \<Rightarrow>
     ('c \<times> (string + TipSet)) option" where
  "GetTipsetByHeight C load head sc h ots prev =
     (case (case ots of None \<Rightarrow> head | Some ts \<Rightarrow> Some ts) of
        None \<Rightarrow> Some (sc, Inl PanicNil)
      | Some ts \<Rightarrow>
          if h > tsHeight ts then Some (sc, Inl ErrAbove)
          else if h = tsHeight ts then Some (sc, Inr ts)
          else Option.bind (index_GetTipsetByHeight C load sc ts h) (\<lambda>(sc1, r).
            case r of Inl e \<Rightarrow> Some (sc1, Inl e)
            | Inr lbts \<Rightarrow>
                Option.bind (if tsHeight lbts < h then GetTipsetByHeightWithoutCache load ts h else Some (Inr lbts))
                  (\<lambda>r2. case r2 of Inl e \<Rightarrow> Some (sc1, Inl e)
                   | Inr lbts2 \<Rightarrow>
                       if tsHeight lbts2 = h \<or> \<not> prev then Some (sc1, Inr lbts2)
                       else Some (sc1, load (Parents lbts2)))))"

section \<open>Ancestors and reorganisations\<close>

text \<open>The loop of \<open>IsAncestorOf\<close> loads the parents of \<open>b\<close> in every turn, not those of \<open>cur\<close>.\<close>

partial_function (option) IsAncestorOf_loop ::
  "hash_env \<Rightarrow> loader \<Rightarrow> TipSet \<Rightarrow> TipSet \<Rightarrow> TipSet \<Rightarrow> (string + TipSet) option" where
  "IsAncestorOf_loop E load a b cur =
     (if \<not> TipSet_Equals E a cur \<and> tsHeight cur > tsHeight a
      then case load (Parents b) of Inl e \<Rightarrow> Some (Inl e)
           | Inr next \<Rightarrow> IsAncestorOf_loop E load a b next
      else Some (Inr cur))"

definition IsAncestorOf :: "hash_env \<Rightarrow> loader \<Rightarrow> TipSet \<Rightarrow> TipSet \<Rightarrow> (string + bool) option" where
  "IsAncestorOf E load a b =
     (if tsHeight b \<le> tsHeight a then Some (Inr False)
      else map_option (map_sum (\<lambda>e. e) (\<lambda>cur. TipSet_Equals E cur a)) (IsAncestorOf_loop E load a b b))"

partial_function (option) ReorgOps_loop ::
  "hash_env \<Rightarrow> loader \<Rightarrow> TipSet \<Rightarrow> TipSet \<Rightarrow> TipSet list \<Rightarrow> TipSet list \<Rightarrow>
     (string + TipSet list \<times> TipSet list) option" where
  "ReorgOps_loop E load left right leftChain rightChain =
     (if TipSet_Equals E left right then Some (Inr (leftChain, rightChain))
      else if tsHeight left > tsHeight right
      then case load (Parents left) of Inl e \<Rightarrow> Some (Inl e)
           | Inr par \<Rightarrow> ReorgOps_loop E load par right (leftChain @ [left]) rightChain
      else case load (Parents right) of Inl e \<Rightarrow> Some (Inl e)
           | Inr par \<Rightarrow> ReorgOps_loop E load left par leftChain (rightChain @ [right]))"

definition ReorgOps ::
  "hash_env \<Rightarrow> loader \<Rightarrow> TipSet \<Rightarrow> TipSet \<Rightarrow> (string + TipSet list \<times> TipSet list) option" where
  "ReorgOps E load a b = ReorgOps_loop E load a b [] []"

definition PanicIndex :: string where
  "PanicIndex = ''runtime error: index out of range''"

text \<open>Indexing the last element panics when no tipset has to be reverted.\<close>

definition NearestCommonAncestor :: "hash_env \<Rightarrow> loader \<Rightarrow> TipSet \<Rightarrow> TipSet \<Rightarrow> (string + TipSet) option" where
  "NearestCommonAncestor E load a b =
     (case ReorgOps E load a b of None \<Rightarrow> None
      | Some (Inl e) \<Rightarrow> Some (Inl e)
      | Some (Inr (l, _)) \<Rightarrow> if l = [] then Some (Inl PanicIndex) else Some (load (Parents (last l))))"

text \<open>The in-place reversal of the \<open>apply\<close> slice: \<open>for i := len/2 - 1; i >= 0; i--\<close>.\<close>

fun reverse_loop :: "nat \<Rightarrow> 'a list \<Rightarrow> 'a list" where
  "reverse_loop 0 xs = xs"
| "reverse_loop (Suc i) xs =
     (let opp = length xs - 1 - i in reverse_loop i (xs[i := xs ! opp, opp := xs ! i]))"

definition reverse_slice :: "'a list \<Rightarrow> 'a list" where
  "reverse_slice xs = reverse_loop (length xs div 2) xs"

datatype head_change = HCRevert TipSet | HCApply TipSet | HCCurrent TipSet

text \<open>What the reorg worker hands to each notifee, and the notification \<open>hcnf\<close> makes of it.\<close>

definition reorg_notice ::
  "hash_env \<Rightarrow> loader \<Rightarrow> TipSet \<Rightarrow> TipSet \<Rightarrow> (string + TipSet list \<times> TipSet list) option" where
  "reorg_notice E load old new =
     map_option (map_sum (\<lambda>e. e) (\<lambda>(revert, apply_ts). (revert, reverse_slice apply_ts))) (ReorgOps E load old new)"

definition hcnf :: "TipSet list \<Rightarrow> TipSet list \<Rightarrow> head_change list" where
  "hcnf revert apply_ts = map HCRevert revert @ map HCApply apply_ts"

definition GetPath ::
  "hash_env \<Rightarrow> loader \<Rightarrow> TipSetKey \<Rightarrow> TipSetKey \<Rightarrow> (string + head_change list) option" where
  "GetPath E load from to =
     (case load from of Inl e \<Rightarrow> Some (Inl e)
      | Inr fts \<Rightarrow>
          (case load to of Inl e \<Rightarrow> Some (Inl e)
           | Inr tts \<Rightarrow>
               map_option (map_sum (\<lambda>e. e) (\<lambda>(revert, apply_ts). map HCRevert revert @ map HCApply (rev apply_ts)))
                 (ReorgOps E load fts tts)))"

definition latestBeacon :: "TipSet \<Rightarrow> BeaconEntry option" where
  "latestBeacon ts = (let cbe = bhBeaconEntries (hd (tsBlks ts)) in if cbe = [] then None else Some (last cbe))"

text \<open>The loop over at most 20 tipsets; \<open>fuel\<close> is the number of turns left.\<close>

fun beacon_loop :: "loader \<Rightarrow> nat \<Rightarrow> TipSet \<Rightarrow> (string + BeaconEntry) option" where
  "beacon_loop load 0 cur = None"
| "beacon_loop load (Suc n) cur =
     (case latestBeacon cur of Some be \<Rightarrow> Some (Inr be)
      | None \<Rightarrow>
          if tsHeight cur = 0
          then Some (Inl ''made it back to genesis block without finding beacon entry'')
          else (case load (Parents cur) of Inl e \<Rightarrow> Some (Inl e) | Inr nxt \<Rightarrow> beacon_loop load n nxt))"

definition GetLatestBeaconEntry :: "loader \<Rightarrow> bool \<Rightarrow> TipSet \<Rightarrow> string + BeaconEntry" where
  "GetLatestBeaconEntry load ignoreDrand ts =
     (case beacon_loop load 20 ts of Some r \<Rightarrow> r
      | None \<Rightarrow>
          if ignoreDrand then Inr \<lparr>beRound = 0, beData = replicate 16 (CHR 0x09)\<rparr>
          else Inl ''found NO beacon entries in the 20 blocks prior to given tipset'')"

section \<open>Chains\<close>

text \<open>
  A chain: from a tipset down to the genesis tipset at height 0, each loaded by its key and as the
  parent of the one before, at ever lower heights.
\<close>

fun chain_ok :: "loader \<Rightarrow> TipSet list \<Rightarrow> bool" where
  "chain_ok load [] = False"
| "chain_ok load [g] \<longleftrightarrow> tsHeight g = 0 \<and> load (Key g) = Inr g"
| "chain_ok load (t # p # ts) \<longleftrightarrow>
     load (Parents t) = Inr p \<and> tsHeight p < tsHeight t \<and> load (Key t) = Inr t \<and> chain_ok load (p # ts)"

text \<open>The lowest tipset of a chain that is not below a height.\<close>

definition lookback :: "TipSet list \<Rightarrow> epoch \<Rightarrow> TipSet" where
  "lookback ts to = last (takeWhile (\<lambda>t. to \<le> tsHeight t) ts)"

lemma chain_heights: "chain_ok load (t # ts) \<Longrightarrow> 0 \<le> tsHeight t \<and> (\<forall>p \<in> set ts. 0 \<le> tsHeight p \<and> tsHeight p < tsHeight t)"
proof (induction ts arbitrary: t)
  case (Cons p ts)
  then have "chain_ok load (p # ts)" "tsHeight p < tsHeight t" by simp_all
  with Cons.IH [of p] show ?case by auto
qed simp

lemma chain_last: "chain_ok load ts \<Longrightarrow> tsHeight (last ts) = 0"
  by (induction load ts rule: chain_ok.induct) auto

lemma chain_suffix: "chain_ok load (xs @ ys) \<Longrightarrow> ys \<noteq> [] \<Longrightarrow> chain_ok load ys"
proof (induction xs)
  case (Cons x xs)
  then show ?case by (cases "xs @ ys") auto
qed simp

lemma chain_Key: "chain_ok load (t # ts) \<Longrightarrow> load (Key t) = Inr t"
  by (cases ts) auto

lemma chain_unique: "chain_ok load (t # xs) \<Longrightarrow> chain_ok load (t # ys) \<Longrightarrow> xs = ys"
proof (induction xs arbitrary: t ys)
  case Nil
  then show ?case using chain_heights [of load t ys] by (cases ys) auto
next
  case (Cons p xs)
  then have "0 < tsHeight t" using chain_heights [of load p xs] by simp
  with Cons.prems(2) obtain q zs where ys: "ys = q # zs" by (cases ys) auto
  with Cons.prems have "q = p" "chain_ok load (p # xs)" "chain_ok load (p # zs)" by auto
  with Cons.IH [of p zs] ys show ?case by simp
qed

lemma lookback_Cons:
  "to \<le> tsHeight t \<Longrightarrow> lookback (t # p # ts) to = (if to \<le> tsHeight p then lookback (p # ts) to else t)"
  by (simp add: lookback_def)

lemma lookback_exact:
  assumes "chain_ok load (t # ts)" "to = tsHeight t"
  shows "lookback (t # ts) to = t"
proof (cases ts)
  case (Cons p ps)
  with assms have "tsHeight p < to" by simp
  with Cons assms(2) show ?thesis by (simp add: lookback_def)
qed (simp add: lookback_def assms)

lemma lookback_append:
  assumes "chain_ok load (xs @ u # us)" "to \<le> tsHeight u"
  shows "lookback (xs @ u # us) to = lookback (u # us) to"
  using assms
proof (induction xs)
  case (Cons x xs)
  then have c: "chain_ok load (xs @ u # us)" using chain_suffix [of load "[x]" "xs @ u # us"] by simp
  have "tsHeight u < tsHeight x" using chain_heights [of load x "xs @ u # us"] Cons.prems(1) by simp
  with Cons.prems(2) have x: "to \<le> tsHeight x" by simp
  obtain p ps where p: "xs @ u # us = p # ps" by (cases xs) auto
  have "p = u \<or> tsHeight u < tsHeight p" using p chain_heights [of load p ps] c by (cases xs) auto
  with Cons.prems(2) have "to \<le> tsHeight p" by auto
  then have "lookback (x # p # ps) to = lookback (p # ps) to" using x by (simp add: lookback_Cons)
  with Cons.IH [OF c Cons.prems(2)] p show ?case by simp
qed simp

text \<open>The tipset looked back to is on the chain, with the rest of the chain below it.\<close>

lemma lookback_split:
  assumes "chain_ok load (t # ts)" "to \<le> tsHeight t"
  obtains xs us where "t # ts = xs @ lookback (t # ts) to # us" "to \<le> tsHeight (lookback (t # ts) to)"
    "\<forall>u \<in> set us. tsHeight u < to"
  using assms
proof (induction ts arbitrary: t thesis)
  case Nil
  then show ?case using Nil.prems(1) [of "[]" "[]"] by (simp add: lookback_def)
next
  case (Cons p ts)
  have c: "chain_ok load (p # ts)" using Cons.prems(2) by simp
  show ?case
  proof (cases "to \<le> tsHeight p")
    case True
    obtain xs us where "p # ts = xs @ lookback (p # ts) to # us" "to \<le> tsHeight (lookback (p # ts) to)"
      "\<forall>u \<in> set us. tsHeight u < to"
      using Cons.IH [OF _ c True] by blast
    with True Cons.prems(3) Cons.prems(1) [of "t # xs" us] show ?thesis by (simp add: lookback_Cons)
  next
    case False
    have "\<forall>u \<in> set (p # ts). tsHeight u < to" using False chain_heights [OF c] by auto
    with False Cons.prems(3) Cons.prems(1) [of "[]" "p # ts"] show ?thesis by (simp add: lookback_Cons)
  qed
qed

lemma lookback_zero:
  assumes "chain_ok load (t # ts)"
  shows "lookback (t # ts) 0 = last (t # ts)" "tsHeight (lookback (t # ts) 0) = 0"
proof -
  have "takeWhile (\<lambda>u. 0 \<le> tsHeight u) (t # ts) = t # ts"
    using chain_heights [OF assms] by (subst takeWhile_eq_all_conv) auto
  then show "lookback (t # ts) 0 = last (t # ts)" by (simp add: lookback_def)
  then show "tsHeight (lookback (t # ts) 0) = 0" using chain_last [OF assms] by simp
qed

section \<open>Walking back on a chain\<close>

lemma walkBack_loop_chain:
  assumes "chain_ok load (t # ts)" "0 \<le> to" "to < tsHeight t"
  shows "walkBack_loop load t to = Some (Inr (lookback (t # ts) to))"
  using assms
proof (induction ts arbitrary: t)
  case (Cons p ts)
  have c: "chain_ok load (p # ts)" and l: "load (Parents t) = Inr p" using Cons.prems(1) by simp_all
  show ?case
  proof (cases to "tsHeight p" rule: linorder_cases)
    case less
    with Cons.IH [OF c Cons.prems(2)] l Cons.prems(3) show ?thesis
      by (simp add: walkBack_loop.simps [of load t] lookback_Cons)
  next
    case equal
    with l c Cons.prems(3) show ?thesis
      by (simp add: walkBack_loop.simps [of load t] lookback_Cons lookback_exact)
  next
    case greater
    with l Cons.prems(3) show ?thesis
      by (simp add: walkBack_loop.simps [of load t] lookback_Cons)
  qed
qed simp

lemma walkBack_chain:
  assumes "chain_ok load (t # ts)" "0 \<le> to" "to \<le> tsHeight t"
  shows "walkBack load t to = Some (Inr (lookback (t # ts) to))"
  using walkBack_loop_chain [OF assms(1,2)] lookback_exact [OF assms(1)] assms(3)
  by (auto simp: walkBack_def)

text \<open>A walk below genesis ends with the error of loading its parents.\<close>

lemma walkBack_below:
  assumes "chain_ok load (t # ts)" "to < 0" "load (Parents (last (t # ts))) = Inl e"
  shows "walkBack_loop load t to = Some (Inl e)"
  using assms
proof (induction ts arbitrary: t)
  case Nil
  then show ?case by (simp add: walkBack_loop.simps)
next
  case (Cons p ts)
  then have "chain_ok load (p # ts)" "load (Parents t) = Inr p" by simp_all
  moreover have "to < tsHeight p" using chain_heights [of load p ts] calculation(1) Cons.prems(2) by simp
  ultimately show ?case using Cons.IH [of p] Cons.prems by (simp add: walkBack_loop.simps [of load t])
qed

section \<open>The skip list on a chain\<close>

text \<open>
  What a cache promises: it only answers with entries that were added under the key. With it, and
  entries that are the ones \<open>fillCache\<close> computes, the cache never changes an answer.
\<close>

definition skip_laws :: "'c skip_cache \<Rightarrow> bool" where
  "skip_laws C \<longleftrightarrow>
     (\<forall>sc k k' e e'. fst (skipGet C (skipAdd C sc k e) k') = Some e' \<longrightarrow> k' = k \<and> e' = e \<or> fst (skipGet C sc k') = Some e') \<and>
     (\<forall>sc k k' e. fst (skipGet C (snd (skipGet C sc k)) k') = Some e \<longrightarrow> fst (skipGet C sc k') = Some e)"

definition skip_ok :: "'c skip_cache \<Rightarrow> loader \<Rightarrow> 'c \<Rightarrow> bool" where
  "skip_ok C load sc \<longleftrightarrow> (\<forall>k e. fst (skipGet C sc k) = Some e \<longrightarrow> skipEntry load k = Some (Inr (e, True)))"

lemma skip_ok_get: "skip_laws C \<Longrightarrow> skip_ok C load sc \<Longrightarrow> skip_ok C load (snd (skipGet C sc k))"
  unfolding skip_laws_def skip_ok_def by blast

lemma skip_ok_add:
  assumes "skip_laws C" "skip_ok C load sc" "skipEntry load k = Some (Inr (e, True))"
  shows "skip_ok C load (skipAdd C sc k e)"
  using assms unfolding skip_laws_def skip_ok_def by metis

lemma lookupEntry_ok:
  assumes "skip_laws C" "skip_ok C load sc" "skipEntry load k = Some (Inr (e, store))"
  shows "\<exists>sc'. lookupEntry C load sc k = Some (sc', Inr e) \<and> skip_ok C load sc'"
proof -
  obtain o1 sc1 where g: "skipGet C sc k = (o1, sc1)" by fastforce
  have ok: "skip_ok C load sc1" using skip_ok_get [OF assms(1,2), of k] g by simp
  show ?thesis
  proof (cases o1)
    case (Some e')
    then have "skipEntry load k = Some (Inr (e', True))" using assms(2) g by (simp add: skip_ok_def)
    then show ?thesis using assms(3) g Some ok by (simp add: lookupEntry_def)
  next
    case None
    then show ?thesis using g ok assms(3) skip_ok_add [OF assms(1) ok]
      by (cases store) (auto simp: lookupEntry_def fillCache_def)
  qed
qed

lemma lookupEntry_err:
  assumes "skip_laws C" "skip_ok C load sc" "skipEntry load k = Some (Inl e)"
  shows "\<exists>sc'. lookupEntry C load sc k = Some (sc', Inl e)"
proof -
  obtain o1 sc1 where g: "skipGet C sc k = (o1, sc1)" by fastforce
  have "o1 = None" using assms(2,3) g by (auto simp: skip_ok_def split: option.splits) (metis fst_conv not_None_eq option.inject sum.distinct(1))
  then show ?thesis using g assms(3) by (simp add: lookupEntry_def fillCache_def)
qed

lemma roundHeight_bounds:
  assumes "0 \<le> h"
  shows "roundHeight h \<le> h" "h < roundHeight h + 20" "0 \<le> roundHeight h" "20 dvd roundHeight h"
proof -
  have "roundHeight h = (h div 20) * 20" using assms by (simp add: roundHeight_def skipLength_def go_div_nonneg)
  then show "roundHeight h \<le> h" "h < roundHeight h + 20" "0 \<le> roundHeight h" "20 dvd roundHeight h"
    using assms by auto
qed

text \<open>
  No run of null rounds that skips at least the heights 20 to 39 starts at one of the heights 1 to
  19.
\<close>

fun gap_free :: "TipSet list \<Rightarrow> bool" where
  "gap_free (t # p # ts) \<longleftrightarrow> \<not> (40 \<le> tsHeight t \<and> 0 < tsHeight p \<and> tsHeight p < 20) \<and> gap_free (p # ts)"
| "gap_free _ = True"

lemma gap_free_suffix: "gap_free (xs @ ys) \<Longrightarrow> gap_free ys"
proof (induction xs)
  case (Cons x xs)
  then show ?case by (cases "xs @ ys") auto
qed simp

text \<open>Where the skip pointer of a tipset leads: below it on the chain, and to a safe height.\<close>

lemma skipEntry_chain:
  assumes c: "chain_ok load (u # p # us)" and g: "gap_free (u # p # us)" and u: "20 \<le> tsHeight u"
  shows "\<exists>xs v vs. skipEntry load (Key u) =
      Some (Inr (\<lparr>lbTs = u, parentHeight = tsHeight p, targetHeight = tsHeight v, target = Key v\<rparr>, True)) \<and>
    p # us = xs @ v # vs \<and> (tsHeight v = 0 \<or> 20 \<le> tsHeight v)"
proof -
  define rh where "rh = roundHeight (tsHeight u) - skipLength"
  have cp: "chain_ok load (p # us)" "load (Parents u) = Inr p" "load (Key u) = Inr u" using c by simp_all
  have p0: "0 \<le> tsHeight p" using chain_heights [OF cp(1)] by simp
  have r: "20 dvd roundHeight (tsHeight u)" "tsHeight u < roundHeight (tsHeight u) + 20"
      "roundHeight (tsHeight u) \<le> tsHeight u"
    using roundHeight_bounds [of "tsHeight u"] u by simp_all
  then have rh: "0 \<le> rh" "rh = 0 \<or> 20 \<le> rh" using u by (auto simp: rh_def skipLength_def)
  have e: "skipEntry load (Key u) =
      (case (if tsHeight p < rh then Some (Inr p) else walkBack load p rh) of None \<Rightarrow> None
       | Some (Inl e) \<Rightarrow> Some (Inl e)
       | Some (Inr v) \<Rightarrow> Some (Inr (\<lparr>lbTs = u, parentHeight = tsHeight p, targetHeight = tsHeight v, target = Key v\<rparr>, True)))"
    using cp(2,3) u by (simp add: skipEntry_def rh_def Let_def)
  show ?thesis
  proof (cases "tsHeight p < rh")
    case True
    then have "40 \<le> tsHeight u" using rh p0 r(3) by (auto simp: rh_def skipLength_def)
    then have "tsHeight p = 0 \<or> 20 \<le> tsHeight p" using g p0 by auto
    with True e show ?thesis by (intro exI [of _ "[]"] exI [of _ p] exI [of _ us]) simp
  next
    case False
    then have le: "rh \<le> tsHeight p" by simp
    define v where "v = lookback (p # us) rh"
    have w: "walkBack load p rh = Some (Inr v)" using walkBack_chain [OF cp(1) rh(1) le] by (simp add: v_def)
    obtain xs vs where s: "p # us = xs @ v # vs" "rh \<le> tsHeight v"
      using lookback_split [OF cp(1) le] unfolding v_def by metis
    have "tsHeight v = 0 \<or> 20 \<le> tsHeight v"
      using rh(2) s(2) lookback_zero(2) [OF cp(1)] by (auto simp: v_def)
    with s(1) e w False show ?thesis by (intro exI [of _ xs] exI [of _ v] exI [of _ vs]) simp
  qed
qed

lemma skip_loop_chain:
  assumes "skip_laws C" "skip_ok C load sc" "chain_ok load (u # us)" "gap_free (u # us)"
    and "tsHeight u = 0 \<or> 20 \<le> tsHeight u" "0 \<le> to" "to \<le> tsHeight u"
  shows "\<exists>sc'. skip_loop C load sc (Key u) to = Some (sc', Inr (lookback (u # us) to)) \<and> skip_ok C load sc'"
  using assms(2-)
proof (induction "length us" arbitrary: u us sc rule: less_induct)
  case less
  show ?case
  proof (cases us)
    case Nil
    then have h: "tsHeight u = 0" "to = 0" "load (Key u) = Inr u" using less.prems by auto
    then have e: "skipEntry load (Key u) = Some (Inr (\<lparr>lbTs = u, parentHeight = 0, targetHeight = 0, target = EmptyTSK\<rparr>, False))"
      by (simp add: skipEntry_def)
    from lookupEntry_ok [OF assms(1) less.prems(1) e] Nil h show ?thesis
      by (auto simp: skip_loop.simps [of C load sc "Key u"] lookback_def)
  next
    case (Cons p ps)
    have cp: "chain_ok load (p # ps)" "tsHeight p < tsHeight u" using less.prems(2) Cons by simp_all
    have u: "20 \<le> tsHeight u" using less.prems(4) cp chain_heights [OF cp(1)] by auto
    obtain xs v vs where e: "skipEntry load (Key u) =
          Some (Inr (\<lparr>lbTs = u, parentHeight = tsHeight p, targetHeight = tsHeight v, target = Key v\<rparr>, True))"
        and v: "p # ps = xs @ v # vs" "tsHeight v = 0 \<or> 20 \<le> tsHeight v"
      using skipEntry_chain [of load u p ps] less.prems(2,3) u Cons by blast
    obtain sc1 where l: "lookupEntry C load sc (Key u) =
          Some (sc1, Inr \<lparr>lbTs = u, parentHeight = tsHeight p, targetHeight = tsHeight v, target = Key v\<rparr>)"
        "skip_ok C load sc1"
      using lookupEntry_ok [OF assms(1) less.prems(1) e] by auto
    note step = skip_loop.simps [of C load sc "Key u" to]
    consider "tsHeight u = to \<or> tsHeight p < to" | "tsHeight u \<noteq> to" "to \<le> tsHeight p" "tsHeight v < to"
      | "tsHeight u \<noteq> to" "to \<le> tsHeight p" "to \<le> tsHeight v" by linarith
    then show ?thesis
    proof cases
      case 1
      then have "lookback (u # us) to = u"
        using Cons less.prems(6) lookback_exact [OF less.prems(2)] by (auto simp: lookback_Cons)
      with 1 l show ?thesis unfolding step by auto
    next
      case 2
      with walkBack_chain [OF less.prems(2,5,6)] l show ?thesis unfolding step by auto
    next
      case 3
      have cv: "chain_ok load (v # vs)" "gap_free (v # vs)"
        using chain_suffix [of load xs "v # vs"] gap_free_suffix [of "u # xs" "v # vs"] cp(1) less.prems(3) v(1) Cons by auto
      have "length vs < length us" using arg_cong [OF v(1), of length] Cons by simp
      from less.hyps [OF this l(2) cv v(2) less.prems(5) 3(3)]
      obtain sc' where "skip_loop C load sc1 (Key v) to = Some (sc', Inr (lookback (v # vs) to))" "skip_ok C load sc'" by auto
      moreover have "lookback (u # us) to = lookback (v # vs) to"
        using lookback_append [of load "u # xs" v vs to] less.prems(2) Cons v(1) 3(3) by simp
      ultimately show ?thesis using 3 l unfolding step by auto
    qed
  qed
qed

lemma index_chain:
  assumes "skip_laws C" "skip_ok C load sc" "chain_ok load (t # ts)" "gap_free (t # ts)" "0 \<le> to" "to \<le> tsHeight t"
  shows "\<exists>sc'. index_GetTipsetByHeight C load sc t to = Some (sc', Inr (lookback (t # ts) to)) \<and> skip_ok C load sc'"
proof (cases "tsHeight t - to \<le> skipLength")
  case True
  then show ?thesis using walkBack_chain [OF assms(3,5,6)] assms(2) by (simp add: index_GetTipsetByHeight_def)
next
  case False
  define rh where "rh = roundHeight (tsHeight t)"
  have t: "20 < tsHeight t" using False assms(5) by (simp add: skipLength_def)
  have "20 dvd rh" "tsHeight t < rh + 20" "rh \<le> tsHeight t" "0 \<le> rh"
    using roundHeight_bounds [of "tsHeight t"] t by (simp_all add: rh_def)
  then have rh: "20 \<le> rh" "to \<le> rh" "rh \<le> tsHeight t" using t False by (auto simp: skipLength_def)
  define v where "v = lookback (t # ts) rh"
  have w: "roundDown load t = Some (Inr v)"
    using walkBack_chain [OF assms(3)] rh by (simp add: roundDown_def rh_def [symmetric] v_def)
  obtain xs vs where s: "t # ts = xs @ v # vs" "rh \<le> tsHeight v"
    using lookback_split [OF assms(3) rh(3)] unfolding v_def by metis
  have cv: "chain_ok load (v # vs)" "gap_free (v # vs)"
    using chain_suffix [of load xs "v # vs"] gap_free_suffix [of xs "v # vs"] assms(3,4) s(1) by auto
  have v: "to \<le> tsHeight v" "20 \<le> tsHeight v" using s(2) rh by linarith+
  have "lookback (t # ts) to = lookback (v # vs) to"
    using lookback_append [of load xs v vs to] assms(3) s(1) v(1) by simp
  with skip_loop_chain [OF assms(1,2) cv _ assms(5) v(1)] v(2) False w show ?thesis
    by (simp add: index_GetTipsetByHeight_def)
qed

section \<open>Reorganisations\<close>

lemma length_reverse_loop [simp]: "length (reverse_loop i xs) = length xs"
  by (induction i arbitrary: xs) (simp_all add: Let_def)

lemma reverse_loop_nth:
  "i \<le> length xs div 2 \<Longrightarrow> j < length xs \<Longrightarrow>
     reverse_loop i xs ! j = (if j < i \<or> length xs - i \<le> j then xs ! (length xs - 1 - j) else xs ! j)"
proof (induction i arbitrary: xs)
  case (Suc i)
  define opp where "opp = length xs - 1 - i"
  define ys where "ys = xs[i := xs ! opp, opp := xs ! i]"
  have i: "i < opp" "opp < length xs" using Suc.prems(1) by (auto simp: opp_def)
  have ys: "length ys = length xs" "k < length xs \<Longrightarrow> ys ! k = (if k = opp then xs ! i else if k = i then xs ! opp else xs ! k)" for k
    using i by (auto simp: ys_def nth_list_update)
  have "reverse_loop (Suc i) xs = reverse_loop i ys" by (simp add: Let_def ys_def opp_def)
  also have "\<dots> ! j = (if j < i \<or> length xs - i \<le> j then ys ! (length xs - 1 - j) else ys ! j)"
    using Suc.IH [of ys] Suc.prems ys(1) by simp
  also have "\<dots> = (if j < Suc i \<or> length xs - Suc i \<le> j then xs ! (length xs - 1 - j) else xs ! j)"
  proof -
    consider "j < i" | "length xs - i \<le> j" | "j = i" | "j = opp" | "i < j" "j < opp"
      using Suc.prems i by (auto simp: opp_def) linarith
    then show ?thesis using ys(2) [of j] ys(2) [of "length xs - 1 - j"] Suc.prems i
      by cases (auto simp: opp_def)
  qed
  finally show ?case .
qed simp

lemma reverse_slice_rev: "reverse_slice xs = rev xs"
proof (rule nth_equalityI)
  fix j assume "j < length (reverse_slice xs)"
  then have j: "j < length xs" by (simp add: reverse_slice_def)
  have "\<not> (j < length xs div 2 \<or> length xs - length xs div 2 \<le> j) \<Longrightarrow> length xs - 1 - j = j" using j by presburger
  with reverse_loop_nth [OF order_refl j] j show "reverse_slice xs ! j = rev xs ! j"
    by (auto simp: reverse_slice_def rev_nth)
qed (simp add: reverse_slice_def)

text \<open>Tipsets made of blocks with different CIDs are told apart by \<open>Equals\<close>.\<close>

definition told_apart :: "hash_env \<Rightarrow> TipSet set \<Rightarrow> bool" where
  "told_apart E S \<longleftrightarrow> (\<forall>s \<in> S. tipset_ok E s) \<and> inj_on (blockCid E) (\<Union>s \<in> S. set (tsBlks s))"

lemma told_apart_Equals:
  assumes "told_apart E S" "s \<in> S" "t \<in> S"
  shows "TipSet_Equals E s t \<longleftrightarrow> s = t"
proof
  assume eq: "TipSet_Equals E s t"
  have ok: "tipset_ok E s" "tipset_ok E t" using assms by (auto simp: told_apart_def)
  have cids: "map (blockCid E) (tsBlks s) = map (blockCid E) (tsBlks t)"
    using eq by (simp add: TipSet_Equals_iff)
  have "inj_on (blockCid E) (set (tsBlks s) \<union> set (tsBlks t))"
    using assms by (auto simp: told_apart_def intro: inj_on_subset)
  then have blks: "tsBlks s = tsBlks t" using cids by (rule map_inj_on [rotated])
  then have "tsHeight s = tsHeight t" using ok by (cases "tsBlks t") (auto simp: tipset_ok_def)
  with blks ok show "s = t" by (intro TipSet.equality) (auto simp: tipset_ok_def)
qed (simp add: TipSet_Equals_refl)

lemma told_apart_subset: "told_apart E T \<Longrightarrow> S \<subseteq> T \<Longrightarrow> told_apart E S"
  by (auto simp: told_apart_def intro: inj_on_subset)

lemma ReorgOps_loop_chain:
  assumes "chain_ok load (a # as)" "chain_ok load (b # bs)" "last (a # as) = last (b # bs)"
    and "told_apart E (set (a # as) \<union> set (b # bs))"
  shows "\<exists>l r rest. a # as = l @ rest \<and> b # bs = r @ rest \<and> rest \<noteq> [] \<and>
    set l \<inter> set (b # bs) = {} \<and> set r \<inter> set (a # as) = {} \<and>
    ReorgOps_loop E load a b lc rc = Some (Inr (lc @ l, rc @ r))"
  using assms
proof (induction "length as + length bs" arbitrary: a as b bs lc rc rule: less_induct)
  case less
  note c = less.prems(1,2) and ta = less.prems(4)
  have eq: "TipSet_Equals E a b \<longleftrightarrow> a = b" using told_apart_Equals [OF ta] by simp
  note step = ReorgOps_loop.simps [of E load a b lc rc]
  consider "a = b" | "a \<noteq> b" "tsHeight b < tsHeight a" | "a \<noteq> b" "tsHeight a \<le> tsHeight b" by linarith
  then show ?case
  proof cases
    case 1
    then have "as = bs" using chain_unique [of load a as bs] c by simp
    moreover have "ReorgOps_loop E load a b lc rc = Some (Inr (lc @ [], rc @ []))"
      unfolding step using 1 eq by simp
    ultimately show ?thesis
      using 1 by (metis append_Nil inf_bot_left list.distinct(1) list.set(1))
  next
    case 2
    have "0 < tsHeight a" using 2(2) chain_heights [OF c(2)] by simp
    then obtain p ps where as: "as = p # ps" using c(1) by (cases as) auto
    have cp: "chain_ok load (p # ps)" "load (Parents a) = Inr p" using c(1) as by simp_all
    have "told_apart E (set (p # ps) \<union> set (b # bs))"
      using ta as by (auto elim: told_apart_subset)
    then obtain l r rest where h: "p # ps = l @ rest" "b # bs = r @ rest" "rest \<noteq> []"
        "set l \<inter> set (b # bs) = {}" "set r \<inter> set (p # ps) = {}"
        "ReorgOps_loop E load p b (lc @ [a]) rc = Some (Inr ((lc @ [a]) @ l, rc @ r))"
      using less.hyps [OF _ cp(1) c(2), of "lc @ [a]" rc] less.prems(3) as
      by (metis last_ConsR list.distinct(1) length_Cons add_Suc lessI)
    have "a \<notin> set (b # bs)" using 2(2) chain_heights [OF c(2)] by auto
    moreover have "set r \<subseteq> set (b # bs)" using h(2) by simp
    ultimately have "set (a # l) \<inter> set (b # bs) = {}" "set r \<inter> set (a # as) = {}"
      using h(4,5) as by auto
    then show ?thesis using h 2 eq cp(2) as
      by (intro exI [of _ "a # l"] exI [of _ r] exI [of _ rest]) (simp add: step)
  next
    case 3
    have "0 < tsHeight b"
    proof (rule ccontr)
      assume "\<not> 0 < tsHeight b"
      then have "tsHeight b = 0" "tsHeight a = 0" using 3(2) chain_heights [OF c(1)] chain_heights [OF c(2)] by auto
      then have "as = []" "bs = []" using c chain_heights [OF c(1)] chain_heights [OF c(2)]
        by (metis list.set_intros(1) neq_Nil_conv not_less)+
      with less.prems(3) 3(1) show False by simp
    qed
    then obtain p ps where bs: "bs = p # ps" using c(2) by (cases bs) auto
    have cp: "chain_ok load (p # ps)" "load (Parents b) = Inr p" using c(2) bs by simp_all
    have "told_apart E (set (a # as) \<union> set (p # ps))"
      using ta bs by (auto elim: told_apart_subset)
    then obtain l r rest where h: "a # as = l @ rest" "p # ps = r @ rest" "rest \<noteq> []"
        "set l \<inter> set (p # ps) = {}" "set r \<inter> set (a # as) = {}"
        "ReorgOps_loop E load a p lc (rc @ [b]) = Some (Inr (lc @ l, (rc @ [b]) @ r))"
      using less.hyps [OF _ c(1) cp(1), of lc "rc @ [b]"] less.prems(3) bs
      by (metis last_ConsR list.distinct(1) length_Cons add_Suc_right lessI)
    have "b \<notin> set (a # as)" using 3 chain_heights [OF c(1)] by auto
    moreover have "set l \<subseteq> set (a # as)" using h(1) by simp
    ultimately have "set l \<inter> set (b # bs) = {}" "set (b # r) \<inter> set (a # as) = {}"
      using h(4,5) bs by auto
    then show ?thesis using h 3 eq cp(2) bs
      by (intro exI [of _ l] exI [of _ "b # r"] exI [of _ rest]) (simp add: step)
  qed
qed

text \<open>Once the loop of \<open>IsAncestorOf\<close> is past its first turn, it sees the same tipset for ever.\<close>

lemma IsAncestorOf_loop_stuck:
  assumes "load (Parents b) = Inr p" "\<not> TipSet_Equals E a p" "tsHeight a < tsHeight p"
  shows "IsAncestorOf_loop E load a b p = None"
proof (rule ccontr)
  assume "IsAncestorOf_loop E load a b p \<noteq> None"
  then obtain y where "IsAncestorOf_loop E load a b p = Some y" by auto
  then have "load (Parents b) = Inr p \<longrightarrow> \<not> TipSet_Equals E a p \<longrightarrow> tsHeight a < tsHeight p \<longrightarrow> False"
    by (rule IsAncestorOf_loop.raw_induct [where P = "\<lambda>E load a b cur y.
        load (Parents b) = Inr cur \<longrightarrow> \<not> TipSet_Equals E a cur \<longrightarrow> tsHeight a < tsHeight cur \<longrightarrow> False", rotated]) auto
  with assms show False by blast
qed

section \<open>A chain to apply the properties to\<close>

text \<open>
  Tipsets of one block each: a chain at heights 0, 10, 35 and 45 and a fork of it at height 40,
  loaded by key from a list, with a skip cache that keeps every entry it is given.
\<close>

definition wit_link :: "address \<Rightarrow> cid list \<Rightarrow> epoch \<Rightarrow> TipSet" where
  "wit_link m ps h = \<lparr>tsCids = [m], tsBlks = [wit_block m ''1'' ps h 7], tsHeight = h\<rparr>"

definition wit_g :: TipSet where "wit_g = wit_link ''g'' [] 0"
definition wit_p :: TipSet where "wit_p = wit_link ''p'' [''g''] 10"
definition wit_q :: TipSet where "wit_q = wit_link ''q'' [''p''] 35"
definition wit_r :: TipSet where "wit_r = wit_link ''r'' [''q''] 45"
definition wit_f :: TipSet where "wit_f = wit_link ''f'' [''p''] 40"

definition wit_load :: loader where
  "wit_load k = (case map_of (map (\<lambda>t. (Key t, t)) [wit_g, wit_p, wit_q, wit_r, wit_f]) k of
     None \<Rightarrow> Inl ''not found'' | Some t \<Rightarrow> Inr t)"

definition wit_skip_cache :: "(TipSetKey \<rightharpoonup> lbEntry) skip_cache" where
  "wit_skip_cache = \<lparr>skipGet = (\<lambda>sc k. (sc k, sc)), skipAdd = (\<lambda>sc k e. sc(k \<mapsto> e))\<rparr>"

lemmas wit_links = wit_g_def wit_p_def wit_q_def wit_r_def wit_f_def wit_link_def

lemma wit_chain: "chain_ok wit_load [wit_r, wit_q, wit_p, wit_g]" "chain_ok wit_load [wit_f, wit_p, wit_g]"
  by (simp_all add: wit_load_def wit_links wit_block_def Key_def Parents_def NewTipSetKey_def)

lemma wit_told_apart: "told_apart wit_env (set [wit_r, wit_q, wit_p, wit_g] \<union> set [wit_f, wit_p, wit_g])"
  by (simp add: told_apart_def tipset_ok_def wit_links inj_on_def) (simp add: wit_block_def)

lemma wit_skip_cache_ok: "skip_laws wit_skip_cache" "skip_ok wit_skip_cache load (\<lambda>_. None)"
  by (auto simp: skip_laws_def skip_ok_def wit_skip_cache_def)

section \<open>Properties\<close>

text \<open>
  C15. For two tipsets on chains to the same genesis, whose blocks have different CIDs,
  \<open>ReorgOps\<close> returns, and its result splits the two chains at their nearest common ancestor: the
  tipsets to revert are those of the old chain above it, none of which is on the new chain, and the
  tipsets to apply those of the new chain, none of which is on the old one. Notifees get the
  tipsets to apply from the lowest up.
\<close>

theorem ReorgOps_correct:
  assumes "chain_ok load (a # as)" and "chain_ok load (b # bs)" and "last (a # as) = last (b # bs)"
    and "told_apart E (set (a # as) \<union> set (b # bs))"
  shows "\<exists>l r rest. a # as = l @ rest \<and> b # bs = r @ rest \<and> rest \<noteq> [] \<and>
    set l \<inter> set (b # bs) = {} \<and> set r \<inter> set (a # as) = {} \<and>
    ReorgOps E load a b = Some (Inr (l, r)) \<and> reorg_notice E load a b = Some (Inr (l, rev r))"
proof -
  obtain l r rest where h: "a # as = l @ rest" "b # bs = r @ rest" "rest \<noteq> []"
      "set l \<inter> set (b # bs) = {}" "set r \<inter> set (a # as) = {}"
      "ReorgOps E load a b = Some (Inr (l, r))"
    using ReorgOps_loop_chain [OF assms, of "[]" "[]"] unfolding ReorgOps_def append_Nil by (elim exE conjE)
  then have "reorg_notice E load a b = Some (Inr (l, rev r))"
    by (simp add: reorg_notice_def reverse_slice_rev)
  with h show ?thesis by (intro exI conjI)
qed

theorem ReorgOps_correct_witness:
  "\<exists>l r rest. [wit_r, wit_q, wit_p, wit_g] = l @ rest \<and> [wit_f, wit_p, wit_g] = r @ rest \<and> rest \<noteq> [] \<and>
    set l \<inter> set [wit_f, wit_p, wit_g] = {} \<and> set r \<inter> set [wit_r, wit_q, wit_p, wit_g] = {} \<and>
    ReorgOps wit_env wit_load wit_r wit_f = Some (Inr (l, r)) \<and>
    reorg_notice wit_env wit_load wit_r wit_f = Some (Inr (l, rev r))"
  by (rule ReorgOps_correct [OF wit_chain _ wit_told_apart]) simp

text \<open>
  C16. On a chain without a run of null rounds from one of the heights 1 to 19 to height 40 or
  above, looking up a height through the skip list and its cache returns what walking the chain
  tipset by tipset gives: the tipset at the height, or around a null round the one above it, or
  with \<open>prev\<close> the one below.
\<close>

theorem GetTipsetByHeight_correct:
  assumes "skip_laws C" and "skip_ok C load sc" and "chain_ok load (t # ts)" and "gap_free (t # ts)"
    and "0 \<le> h" and "h \<le> tsHeight t" and "ots = Some t \<or> ots = None \<and> head = Some t"
  shows "\<exists>sc'. skip_ok C load sc' \<and>
    index_GetTipsetByHeight C load sc t h = Some (sc', Inr (lookback (t # ts) h)) \<and>
    GetTipsetByHeightWithoutCache load t h = Some (Inr (lookback (t # ts) h)) \<and>
    map_option snd (GetTipsetByHeight C load head sc h ots prev) =
      Some (Inr (if tsHeight (lookback (t # ts) h) = h \<or> \<not> prev then lookback (t # ts) h
                 else hd (dropWhile (\<lambda>u. h \<le> tsHeight u) (t # ts))))"
proof -
  let ?v = "lookback (t # ts) h"
  obtain sc' where i: "index_GetTipsetByHeight C load sc t h = Some (sc', Inr ?v)" "skip_ok C load sc'"
    using index_chain [OF assms(1-6)] by auto
  have w: "GetTipsetByHeightWithoutCache load t h = Some (Inr ?v)"
    using walkBack_chain [OF assms(3,5,6)] by (simp add: GetTipsetByHeightWithoutCache_def)
  obtain xs us where s: "t # ts = xs @ ?v # us" "h \<le> tsHeight ?v" "\<forall>u \<in> set us. tsHeight u < h"
    using lookback_split [OF assms(3,6)] .
  have cv: "chain_ok load (?v # us)" using chain_suffix [of load xs "?v # us"] assms(3) s(1) by simp
  have top: "h = tsHeight t \<Longrightarrow> ?v = t" using lookback_exact [OF assms(3)] by simp
  have below: "load (Parents ?v) = Inr (hd (dropWhile (\<lambda>u. h \<le> tsHeight u) (t # ts)))" if "tsHeight ?v \<noteq> h"
  proof -
    have "us \<noteq> []" using that cv s(2) assms(5) by (cases us) auto
    then obtain p ps where us: "us = p # ps" by (cases us) auto
    have hi: "\<forall>x \<in> set xs. h \<le> tsHeight x"
    proof
      fix x assume "x \<in> set xs"
      then obtain ys zs where x: "xs = ys @ x # zs" by (auto simp: in_set_conv_decomp)
      have "chain_ok load (x # zs @ ?v # us)" using chain_suffix [of load ys "x # zs @ ?v # us"] assms(3) s(1) x by simp
      from chain_heights [OF this] s(2) show "h \<le> tsHeight x" by auto
    qed
    have "dropWhile (\<lambda>u. h \<le> tsHeight u) (xs @ ?v # us) = us" using hi s(2,3) us by simp
    then have "hd (dropWhile (\<lambda>u. h \<le> tsHeight u) (t # ts)) = p" using s(1) us by simp
    with cv us show ?thesis by simp
  qed
  have "map_option snd (GetTipsetByHeight C load head sc h ots prev) =
      Some (Inr (if tsHeight ?v = h \<or> \<not> prev then ?v else hd (dropWhile (\<lambda>u. h \<le> tsHeight u) (t # ts))))"
    using i(1) s(2) assms(6,7) top below by (auto simp: GetTipsetByHeight_def)
  with i w show ?thesis by (intro exI conjI)
qed

theorem GetTipsetByHeight_correct_witness:
  "\<exists>sc'. skip_ok wit_skip_cache wit_load sc' \<and>
    index_GetTipsetByHeight wit_skip_cache wit_load (\<lambda>_. None) wit_r 11 = Some (sc', Inr wit_q) \<and>
    GetTipsetByHeightWithoutCache wit_load wit_r 11 = Some (Inr wit_q) \<and>
    map_option snd (GetTipsetByHeight wit_skip_cache wit_load (Some wit_r) (\<lambda>_. None) 11 None True) = Some (Inr wit_p)"
  using GetTipsetByHeight_correct [OF wit_skip_cache_ok wit_chain(1), of 11 None "Some wit_r" True]
  by (simp add: wit_links lookback_def)

text \<open>
  C40. \<open>IsAncestorOf\<close> answers for the parent, but for an ancestor further down it does not return:
  every turn of its loop loads the parents of the tipset it started from.
\<close>

theorem IsAncestorOf_diverges:
  assumes "chain_ok load (b # p # ts)" and "a \<in> set ts" and "told_apart E (set (b # p # ts))"
  shows "IsAncestorOf E load p b = Some (Inr True) \<and> IsAncestorOf E load a b = None"
proof -
  have c: "load (Parents b) = Inr p" "tsHeight p < tsHeight b" "chain_ok load (p # ts)" using assms(1) by simp_all
  have a: "tsHeight a < tsHeight p" using chain_heights [OF c(3)] assms(2) by auto
  have ne: "\<not> TipSet_Equals E a p" "\<not> TipSet_Equals E a b" "\<not> TipSet_Equals E p b"
    using told_apart_Equals [OF assms(3)] assms(2) a c(2) by auto
  have "IsAncestorOf_loop E load a b b = None"
    using IsAncestorOf_loop_stuck [of load b p E a] c a ne by (simp add: IsAncestorOf_loop.simps [of E load a b b])
  moreover have "IsAncestorOf_loop E load p b b = Some (Inr p)"
    using c ne by (simp add: IsAncestorOf_loop.simps [of E load p b b] IsAncestorOf_loop.simps [of E load p b p] TipSet_Equals_refl)
  ultimately show ?thesis using c a by (simp add: IsAncestorOf_def TipSet_Equals_refl)
qed

theorem IsAncestorOf_diverges_witness:
  "IsAncestorOf wit_env wit_load wit_q wit_r = Some (Inr True) \<and> IsAncestorOf wit_env wit_load wit_g wit_r = None"
proof -
  have "told_apart wit_env (set [wit_r, wit_q, wit_p, wit_g])"
    using wit_told_apart by (rule told_apart_subset) simp
  then show ?thesis using IsAncestorOf_diverges [OF wit_chain(1), of wit_g wit_env] by simp
qed

text \<open>
  C30. The skip list fails where a run of null rounds leads from a tipset at height 40 or above to
  a parent below height 20 that is not the genesis: a lookup of any height up to that of the parent
  ends in the error of loading the parent of the genesis, though walking back finds the tipset.
  The pointer of a tipset at one of the heights 1 to 19 is computed by a walk to a negative height.
\<close>

theorem index_gap_fails:
  assumes "skip_laws C" and "skip_ok C load sc" and "chain_ok load (u # p # q # ts)"
    and "40 \<le> tsHeight u" and "tsHeight p < 20" and "0 \<le> to" and "to \<le> tsHeight p"
    and "load (Parents (last (q # ts))) = Inl e"
  shows "(\<exists>sc'. index_GetTipsetByHeight C load sc u to = Some (sc', Inl e)) \<and>
    walkBack load u to = Some (Inr (lookback (u # p # q # ts) to))"
proof -
  have c: "chain_ok load (p # q # ts)" "chain_ok load (q # ts)" "load (Parents u) = Inr p" "load (Parents p) = Inr q"
      "load (Key u) = Inr u" "load (Key p) = Inr p" "tsHeight q < tsHeight p"
    using assms(3) by simp_all
  have q: "0 \<le> tsHeight q" using chain_heights [OF c(2)] by simp
  define rh where "rh = roundHeight (tsHeight u)"
  have rh: "40 \<le> rh" "rh \<le> tsHeight u"
    using roundHeight_bounds [of "tsHeight u"] assms(4) by (auto simp: rh_def)
  have down: "roundDown load u = Some (Inr u)"
    using rh assms(5) c(3) by (auto simp: roundDown_def walkBack_def rh_def [symmetric] walkBack_loop.simps [of load u])
  have eu: "skipEntry load (Key u) = Some (Inr (\<lparr>lbTs = u, parentHeight = tsHeight p, targetHeight = tsHeight p, target = Key p\<rparr>, True))"
    using rh assms(4,5) c by (simp add: skipEntry_def rh_def [symmetric] skipLength_def)
  have rp: "roundHeight (tsHeight p) = 0"
    using c(7) q assms(5) by (simp add: roundHeight_def skipLength_def go_div_nonneg)
  have "walkBack load q (- 20) = Some (Inl e)"
    using walkBack_below [OF c(2) _ assms(8)] q by (simp add: walkBack_def)
  then have ep: "skipEntry load (Key p) = Some (Inl e)"
    using c q by (simp add: skipEntry_def rp skipLength_def)
  obtain sc1 where l1: "lookupEntry C load sc (Key u) = Some (sc1, Inr \<lparr>lbTs = u, parentHeight = tsHeight p, targetHeight = tsHeight p, target = Key p\<rparr>)"
      "skip_ok C load sc1"
    using lookupEntry_ok [OF assms(1,2) eu] by auto
  obtain sc2 where l2: "lookupEntry C load sc1 (Key p) = Some (sc2, Inl e)"
    using lookupEntry_err [OF assms(1) l1(2) ep] by auto
  have "skip_loop C load sc (Key u) to = Some (sc2, Inl e)"
    using l1(1) l2 assms(4,5,7) by (simp add: skip_loop.simps [of C load sc "Key u"] skip_loop.simps [of C load sc1 "Key p"])
  then have "index_GetTipsetByHeight C load sc u to = Some (sc2, Inl e)"
    using down assms(4,5,7) by (simp add: index_GetTipsetByHeight_def skipLength_def)
  with walkBack_chain [OF assms(3,6)] assms(4,5,7) show ?thesis by auto
qed

theorem index_gap_fails_witness:
  "(\<exists>sc'. index_GetTipsetByHeight wit_skip_cache wit_load (\<lambda>_. None) wit_f 10 = Some (sc', Inl ''not found'')) \<and>
    walkBack wit_load wit_f 10 = Some (Inr wit_p)"
  using index_gap_fails [OF wit_skip_cache_ok wit_chain(2), of 10 "''not found''"]
  by (simp add: wit_load_def wit_links wit_block_def Key_def Parents_def NewTipSetKey_def lookback_def)

end
