(* ===== verification/Cbor.thy ===== *)
theory Cbor
  imports Tipset
begin

text \<open>
  The encoding the generated files \<open>cbor_gen.go\<close> share: writers and readers of the CBOR items a
  struct is made of, and what it means that a reader undoes a writer.

  The package \<open>cbor-gen\<close> and the types of other modules (addresses, big integers, signatures,
  proofs, CIDs) are library code: their functions and limits are fields of \<open>cbor_env\<close>, with
  \<open>cbor_laws\<close> what the generated code relies on. A writer returns the bytes it writes or the error
  of the field it cannot write; the buffer it writes to does not fail. A reader takes the bytes left
  and returns what it read with the bytes after it.
\<close>

section \<open>Writers and readers\<close>

datatype cerr = CErrType | CErrFields | CErrTooLong | CErrOverflow | CErrEOF | CErrField | CErrLib

type_synonym 'a dec = "bytes \<Rightarrow> cerr + 'a \<times> bytes"

definition dret :: "'a \<Rightarrow> 'a dec" where
  "dret x bs = Inr (x, bs)"

definition dfail :: "cerr \<Rightarrow> 'a dec" where
  "dfail e bs = Inl e"

definition dbind :: "'a dec \<Rightarrow> ('a \<Rightarrow> 'b dec) \<Rightarrow> 'b dec" where
  "dbind d f bs = (case d bs of Inl e \<Rightarrow> Inl e | Inr (x, rest) \<Rightarrow> f x rest)"

text \<open>Writes in sequence; the first that fails ends them.\<close>

fun wseq :: "(cerr + bytes) list \<Rightarrow> cerr + bytes" where
  "wseq [] = Inr []"
| "wseq (w # ws) =
     (case w of Inl e \<Rightarrow> Inl e
      | Inr bs \<Rightarrow> (case wseq ws of Inl e \<Rightarrow> Inl e | Inr cs \<Rightarrow> Inr (bs @ cs)))"

definition MajUnsignedInt :: nat where "MajUnsignedInt = 0"
definition MajNegativeInt :: nat where "MajNegativeInt = 1"
definition MajByteString :: nat where "MajByteString = 2"
definition MajTextString :: nat where "MajTextString = 3"
definition MajArray :: nat where "MajArray = 4"
definition MajMap :: nat where "MajMap = 5"

lemmas Maj_defs = MajUnsignedInt_def MajNegativeInt_def MajByteString_def MajTextString_def MajArray_def MajMap_def

definition CborNull :: char where
  "CborNull = CHR 0xF6"

record cbor_env =
  cbWriteHeader :: "nat \<Rightarrow> uint64 \<Rightarrow> bytes"
  cbReadHeader :: "(nat \<times> uint64) dec"
  cbWriteCid :: "cid \<Rightarrow> cerr + bytes"
  cbReadCid :: "cid dec"
  cbReadString :: "string dec"
  cbMaxLength :: nat
  cbByteArrayMaxLen :: nat
  addrMarshal :: "address \<Rightarrow> cerr + bytes"
  addrUnmarshal :: "address dec"
  addrValid :: "address \<Rightarrow> bool"
  bigMarshal :: "bigint option \<Rightarrow> cerr + bytes"
  bigUnmarshal :: "bigint option dec"
  bigValid :: "bigint \<Rightarrow> bool"
  sigMarshal :: "Signature option \<Rightarrow> cerr + bytes"
  sigUnmarshal :: "Signature dec"
  sigValid :: "Signature \<Rightarrow> bool"
  postMarshal :: "PoStProof \<Rightarrow> cerr + bytes"
  postUnmarshal :: "PoStProof dec"
  postValid :: "PoStProof \<Rightarrow> bool"
  cidValid :: "cid \<Rightarrow> bool"

section \<open>Items\<close>

definition lengthBuf :: "nat \<Rightarrow> cerr + bytes" where
  "lengthBuf n = Inr [char_of n]"

text \<open>The head of a struct encoded as an array: its number of fields.\<close>

definition r_fields :: "cbor_env \<Rightarrow> uint64 \<Rightarrow> unit dec" where
  "r_fields E n = dbind (cbReadHeader E) (\<lambda>(maj, extra).
     if maj \<noteq> MajArray then dfail CErrType
     else if extra \<noteq> n then dfail CErrFields else dret ())"

definition w_uint :: "cbor_env \<Rightarrow> uint64 \<Rightarrow> cerr + bytes" where
  "w_uint E x = Inr (cbWriteHeader E MajUnsignedInt x)"

definition r_uint :: "cbor_env \<Rightarrow> uint64 dec" where
  "r_uint E = dbind (cbReadHeader E) (\<lambda>(maj, extra).
     if maj \<noteq> MajUnsignedInt then dfail CErrType else dret extra)"

text \<open>\<open>int64\<close>: the sign is in the major type.\<close>

definition w_int :: "cbor_env \<Rightarrow> int \<Rightarrow> cerr + bytes" where
  "w_int E x =
     (if x \<ge> 0 then Inr (cbWriteHeader E MajUnsignedInt (word_of_int x))
      else Inr (cbWriteHeader E MajNegativeInt (word_of_int (i64 (i64 (- x) - 1)))))"

definition r_int :: "cbor_env \<Rightarrow> int dec" where
  "r_int E = dbind (cbReadHeader E) (\<lambda>(maj, extra).
     let extraI = i64 (uint extra)
     in if maj = MajUnsignedInt then (if extraI < 0 then dfail CErrOverflow else dret extraI)
        else if maj = MajNegativeInt then (if extraI < 0 then dfail CErrOverflow else dret (i64 (- 1 - extraI)))
        else dfail CErrType)"

definition readFull :: "nat \<Rightarrow> bytes dec" where
  "readFull n bs = (if n \<le> length bs then Inr (take n bs, drop n bs) else Inl CErrEOF)"

definition w_bytes :: "cbor_env \<Rightarrow> bytes \<Rightarrow> cerr + bytes" where
  "w_bytes E b =
     (if length b > cbByteArrayMaxLen E then Inl CErrTooLong
      else wseq [Inr (cbWriteHeader E MajByteString (of_nat (length b))), Inr b])"

text \<open>
  The slice read into is made anew only when the length read is positive, and then it is read in
  full: with length 0 the read fills whatever slice the field \<open>old\<close> held.
\<close>

definition r_bytes :: "cbor_env \<Rightarrow> bytes \<Rightarrow> bytes dec" where
  "r_bytes E old = dbind (cbReadHeader E) (\<lambda>(maj, extra).
     if unat extra > cbByteArrayMaxLen E then dfail CErrTooLong
     else if maj \<noteq> MajByteString then dfail CErrType
     else readFull (if extra > 0 then unat extra else length old))"

definition w_string :: "cbor_env \<Rightarrow> string \<Rightarrow> cerr + bytes" where
  "w_string E s =
     (if length s > cbMaxLength E then Inl CErrTooLong
      else wseq [Inr (cbWriteHeader E MajTextString (of_nat (length s))), Inr s])"

fun w_each :: "('a \<Rightarrow> cerr + bytes) \<Rightarrow> 'a list \<Rightarrow> cerr + bytes" where
  "w_each enc [] = Inr []"
| "w_each enc (x # xs) = wseq [enc x, w_each enc xs]"

definition w_slice :: "cbor_env \<Rightarrow> ('a \<Rightarrow> cerr + bytes) \<Rightarrow> 'a list \<Rightarrow> cerr + bytes" where
  "w_slice E enc xs =
     (if length xs > cbMaxLength E then Inl CErrTooLong
      else wseq [Inr (cbWriteHeader E MajArray (of_nat (length xs))), w_each enc xs])"

fun r_each :: "'a dec \<Rightarrow> nat \<Rightarrow> 'a list dec" where
  "r_each dec 0 = dret []"
| "r_each dec (Suc n) = dbind dec (\<lambda>x. dbind (r_each dec n) (\<lambda>xs. dret (x # xs)))"

definition r_slice :: "cbor_env \<Rightarrow> 'a dec \<Rightarrow> 'a list \<Rightarrow> 'a list dec" where
  "r_slice E dec old = dbind (cbReadHeader E) (\<lambda>(maj, extra).
     if unat extra > cbMaxLength E then dfail CErrTooLong
     else if maj \<noteq> MajArray then dfail CErrType
     else if extra > 0 then r_each dec (unat extra) else dret old)"

text \<open>Pointers: nil is \<open>CborNull\<close>.\<close>

definition w_ptr :: "('a \<Rightarrow> cerr + bytes) \<Rightarrow> 'a option \<Rightarrow> cerr + bytes" where
  "w_ptr enc t = (case t of None \<Rightarrow> Inr [CborNull] | Some x \<Rightarrow> enc x)"

definition r_ptr :: "'a dec \<Rightarrow> 'a option \<Rightarrow> 'a option dec" where
  "r_ptr dec old bs =
     (case bs of [] \<Rightarrow> Inl CErrEOF
      | pb # rest \<Rightarrow> if pb = CborNull then Inr (old, rest) else dbind dec (\<lambda>x. dret (Some x)) bs)"

text \<open>
  Structs encoded as maps: each field is its name and its value, and the reader takes the fields
  in any order, filling the struct \<open>t\<close> it has so far.
\<close>

fun r_map_loop :: "cbor_env \<Rightarrow> ('t \<Rightarrow> string \<Rightarrow> 't dec) \<Rightarrow> nat \<Rightarrow> 't \<Rightarrow> 't dec" where
  "r_map_loop E field 0 t = dret t"
| "r_map_loop E field (Suc n) t =
     dbind (cbReadString E) (\<lambda>name. dbind (field t name) (r_map_loop E field n))"

definition r_map :: "cbor_env \<Rightarrow> ('t \<Rightarrow> string \<Rightarrow> 't dec) \<Rightarrow> 't \<Rightarrow> 't dec" where
  "r_map E field zero = dbind (cbReadHeader E) (\<lambda>(maj, extra).
     if maj \<noteq> MajMap then dfail CErrType
     else if unat extra > cbMaxLength E then dfail CErrTooLong
     else r_map_loop E field (unat extra) zero)"

section \<open>Reading back what was written\<close>

definition reads :: "'a dec \<Rightarrow> cerr + bytes \<Rightarrow> 'a \<Rightarrow> bool" where
  "reads dec w x \<longleftrightarrow> (\<exists>bs. w = Inr bs \<and> (\<forall>rest. dec (bs @ rest) = Inr (x, rest)))"

definition nonnull :: "cerr + bytes \<Rightarrow> bool" where
  "nonnull w \<longleftrightarrow> (\<forall>bs. w = Inr bs \<longrightarrow> bs \<noteq> [] \<and> hd bs \<noteq> CborNull)"

text \<open>
  What the generated code relies on: a header is read back as written, and the one-byte heads of
  small arrays and maps are headers; the library's types read back what they write for the values
  they can hold, and never start with the null byte; the limits fit an \<open>int\<close> and
  leave room for the field names.
\<close>

definition cbor_laws :: "cbor_env \<Rightarrow> bool" where
  "cbor_laws E \<longleftrightarrow>
     (\<forall>maj x. maj < 8 \<longrightarrow> reads (cbReadHeader E) (Inr (cbWriteHeader E maj x)) (maj, x)) \<and>
     (\<forall>n < 24. reads (cbReadHeader E) (lengthBuf (128 + n)) (MajArray, of_nat n)) \<and>
     (\<forall>n < 24. reads (cbReadHeader E) (lengthBuf (160 + n)) (MajMap, of_nat n)) \<and>
     (\<forall>s. length s \<le> cbMaxLength E \<longrightarrow> reads (cbReadString E) (w_string E s) s) \<and>
     (\<forall>c. cidValid E c \<longrightarrow> reads (cbReadCid E) (cbWriteCid E c) c \<and> nonnull (cbWriteCid E c)) \<and>
     (\<forall>a. addrValid E a \<longrightarrow> reads (addrUnmarshal E) (addrMarshal E a) a) \<and>
     (\<forall>b. bigValid E b \<longrightarrow> reads (bigUnmarshal E) (bigMarshal E (Some b)) (Some b)) \<and>
     (\<forall>s. sigValid E s \<longrightarrow> reads (sigUnmarshal E) (sigMarshal E (Some s)) s \<and> nonnull (sigMarshal E (Some s))) \<and>
     sigMarshal E None = Inr [CborNull] \<and>
     (\<forall>p. postValid E p \<longrightarrow> reads (postUnmarshal E) (postMarshal E p) p) \<and>
     24 \<le> cbMaxLength E \<and> cbMaxLength E < 2 ^ 63 \<and> cbByteArrayMaxLen E < 2 ^ 63"

named_theorems cbor_reads \<open>each reader undoes its writer\<close>

lemma reads_ret [cbor_reads]: "y = x \<Longrightarrow> reads (dret y) (wseq []) x"
  by (simp add: reads_def dret_def)

lemma reads_bind [cbor_reads]:
  "reads d w x \<Longrightarrow> reads (f x) (wseq ws) y \<Longrightarrow> reads (dbind d f) (wseq (w # ws)) y"
  by (auto simp: reads_def dbind_def)

lemma wseq_append:
  "wseq (ws @ vs) = (case wseq ws of Inl e \<Rightarrow> Inl e
     | Inr bs \<Rightarrow> (case wseq vs of Inl e \<Rightarrow> Inl e | Inr cs \<Rightarrow> Inr (bs @ cs)))"
  by (induction ws) (auto split: sum.splits)

lemma reads_append:
  "reads d (wseq ws) x \<Longrightarrow> reads (f x) (wseq vs) y \<Longrightarrow> reads (dbind d f) (wseq (ws @ vs)) y"
  by (auto simp: reads_def dbind_def wseq_append)

lemma reads_bind1: "reads d w x \<Longrightarrow> reads (f x) (Inr []) y \<Longrightarrow> reads (dbind d f) w y"
  using reads_bind [of d w x f "[]" y] by (cases w) auto

lemma reads_inj: "reads dec w x \<Longrightarrow> reads dec w y \<Longrightarrow> x = y"
  by (auto simp: reads_def)

lemma reads_header: "cbor_laws E \<Longrightarrow> maj < 8 \<Longrightarrow> reads (cbReadHeader E) (Inr (cbWriteHeader E maj x)) (maj, x)"
  by (simp add: cbor_laws_def)

lemma reads_map_head: "cbor_laws E \<Longrightarrow> n < 24 \<Longrightarrow> reads (cbReadHeader E) (lengthBuf (160 + n)) (MajMap, of_nat n)"
  by (simp add: cbor_laws_def)

lemma reads_library [cbor_reads]:
  assumes "cbor_laws E"
  shows "cidValid E c \<Longrightarrow> reads (cbReadCid E) (cbWriteCid E c) c"
    and "addrValid E a \<Longrightarrow> reads (addrUnmarshal E) (addrMarshal E a) a"
    and "bigValid E b \<Longrightarrow> reads (bigUnmarshal E) (bigMarshal E (Some b)) (Some b)"
    and "sigValid E s \<Longrightarrow> reads (sigUnmarshal E) (sigMarshal E (Some s)) s"
    and "postValid E p \<Longrightarrow> reads (postUnmarshal E) (postMarshal E p) p"
    and "length n \<le> cbMaxLength E \<Longrightarrow> reads (cbReadString E) (w_string E n) n"
  using assms by (simp_all add: cbor_laws_def)

lemma reads_fields [cbor_reads]:
  assumes "cbor_laws E" and "k = 128 + n" and "n < 24" and "m = of_nat n"
  shows "reads (r_fields E m) (lengthBuf k) ()"
  unfolding r_fields_def
  by (rule reads_bind1 [where x = "(MajArray, of_nat n)"])
    (use assms in \<open>auto simp: cbor_laws_def reads_def dret_def\<close>)

lemma reads_uint [cbor_reads]: "cbor_laws E \<Longrightarrow> reads (r_uint E) (w_uint E x) x"
  unfolding r_uint_def w_uint_def
  by (rule reads_bind1 [OF reads_header]) (auto simp: reads_def dret_def Maj_defs)

lemma reads_int [cbor_reads]:
  assumes "cbor_laws E" and x: "in_i64 x"
  shows "reads (r_int E) (w_int E x) x"
proof (cases "x \<ge> 0")
  case True
  then have "i64 (uint (word_of_int x :: uint64)) = x"
    using x by (simp add: uint_word_of_int in_i64_def i64_id)
  with True show ?thesis unfolding r_int_def w_int_def
    by (simp, intro reads_bind1 [OF reads_header [OF assms(1)]])
      (simp_all add: Maj_defs reads_def dret_def)
next
  case False
  then have "i64 (- x) - 1 = - x - 1 \<or> x = - (2 ^ 63)" using x by (auto simp: i64_id in_i64_def)
  then have "i64 (i64 (- x) - 1) = - x - 1"
  proof
    assume "x = - (2 ^ 63)"
    then show ?thesis by (simp add: i64_def)
  qed (use False x in \<open>simp add: i64_id in_i64_def\<close>)
  moreover have u: "uint (word_of_int y :: uint64) = y" if "0 \<le> y" "y < 2 ^ 63" for y
    using that by (simp add: uint_word_of_int)
  have "uint (word_of_int (- x - 1) :: uint64) = - x - 1"
    by (rule u) (use False x in \<open>simp_all add: in_i64_def\<close>)
  moreover have "i64 (- x - 1) = - x - 1" using False x by (simp add: i64_id in_i64_def)
  moreover note \<open>uint (word_of_int (- x - 1) :: uint64) = - x - 1\<close>
  ultimately have e: "i64 (uint (word_of_int (i64 (i64 (- x) - 1)) :: uint64)) = - x - 1" by simp
  moreover have "i64 x = x" using x by (simp add: i64_id)
  ultimately show ?thesis using False unfolding r_int_def w_int_def
    by (simp, intro reads_bind1 [OF reads_header [OF assms(1)]])
      (simp_all add: Maj_defs reads_def dret_def)
qed

lemma unat_of_nat_small: "n < 2 ^ 63 \<Longrightarrow> unat (of_nat n :: uint64) = n"
  by (simp add: unat_of_nat)

lemma reads_bytes [cbor_reads]:
  assumes "cbor_laws E" and len: "length b \<le> cbByteArrayMaxLen E"
  shows "reads (r_bytes E []) (w_bytes E b) b"
proof -
  have n: "unat (of_nat (length b) :: uint64) = length b"
    using assms by (intro unat_of_nat_small) (simp add: cbor_laws_def)
  have z: "(of_nat (length b) :: uint64) > 0 \<longleftrightarrow> b \<noteq> []" by (metis n length_0_conv unat_eq_0 word_neq_0_conv of_nat_0)
  have "reads (readFull (if (of_nat (length b) :: uint64) > 0 then length b else 0)) (wseq [Inr b]) b"
    by (auto simp: reads_def readFull_def z)
  then show ?thesis unfolding r_bytes_def w_bytes_def using assms
    by (simp del: wseq.simps, intro reads_bind [OF reads_header]) (auto simp: Maj_defs n)
qed

lemma reads_each: "(\<And>x. x \<in> set xs \<Longrightarrow> reads dec (enc x) x) \<Longrightarrow> reads (r_each dec (length xs)) (w_each enc xs) xs"
proof (induction xs)
  case (Cons x xs)
  show ?case unfolding w_each.simps list.size add_Suc_right add_0_right r_each.simps
    by (rule reads_bind [OF Cons.prems], simp, rule reads_bind [OF Cons.IH], use Cons.prems in simp, rule reads_ret, rule refl)
qed (simp add: reads_def dret_def)

lemma reads_slice:
  assumes "cbor_laws E" and len: "length xs \<le> cbMaxLength E" and "\<And>x. x \<in> set xs \<Longrightarrow> reads dec (enc x) x"
  shows "reads (r_slice E dec []) (w_slice E enc xs) xs"
proof -
  have n: "unat (of_nat (length xs) :: uint64) = length xs"
    using assms by (intro unat_of_nat_small) (simp add: cbor_laws_def)
  have z: "(of_nat (length xs) :: uint64) > 0 \<longleftrightarrow> xs \<noteq> []" by (metis n length_0_conv unat_eq_0 word_neq_0_conv of_nat_0)
  have "reads (if xs \<noteq> [] then r_each dec (length xs) else dret []) (w_each enc xs) xs"
    using reads_each [of xs dec enc, OF assms(3)] by (cases "xs = []") (simp_all add: reads_def dret_def)
  then have "reads (if (of_nat (length xs) :: uint64) > 0 then r_each dec (length xs) else dret []) (wseq [w_each enc xs]) xs"
    by (auto simp: reads_def z)
  then show ?thesis unfolding r_slice_def w_slice_def using assms(1,2)
    by (simp del: wseq.simps, intro reads_bind [OF reads_header]) (auto simp: Maj_defs n)
qed

lemma nonnull_lengthBuf: "n < 246 \<Longrightarrow> nonnull (wseq (lengthBuf n # ws))"
  by (auto simp: nonnull_def lengthBuf_def CborNull_def split: sum.splits dest!: arg_cong [of _ _ "of_char :: char \<Rightarrow> nat"])

lemma w_ptr_simps [simp]: "w_ptr enc None = Inr [CborNull]" "w_ptr enc (Some x) = enc x"
  by (simp_all add: w_ptr_def)

lemma reads_ptr:
  assumes "\<And>x. t = Some x \<Longrightarrow> reads dec (enc x) x \<and> nonnull (enc x)"
  shows "reads (r_ptr dec None) (w_ptr enc t) t"
proof (cases t)
  case None
  then show ?thesis by (simp add: reads_def w_ptr_def r_ptr_def)
next
  case (Some x)
  with assms obtain bs where bs: "enc x = Inr bs" "\<And>rest. dec (bs @ rest) = Inr (x, rest)" "bs \<noteq> []" "hd bs \<noteq> CborNull"
    by (auto simp: reads_def nonnull_def)
  then show ?thesis using Some
    by (cases bs) (auto simp: reads_def w_ptr_def r_ptr_def dbind_def dret_def)
qed

lemma reads_cids [cbor_reads]:
  "cbor_laws E \<Longrightarrow> length cs \<le> cbMaxLength E \<Longrightarrow> list_all (cidValid E) cs \<Longrightarrow>
     reads (r_slice E (cbReadCid E) []) (w_slice E (cbWriteCid E) cs) cs"
  by (rule reads_slice) (auto simp: list_all_iff intro: cbor_reads)

lemma reads_posts [cbor_reads]:
  "cbor_laws E \<Longrightarrow> length ps \<le> cbMaxLength E \<Longrightarrow> list_all (postValid E) ps \<Longrightarrow>
     reads (r_slice E (postUnmarshal E) []) (w_slice E (postMarshal E) ps) ps"
  by (rule reads_slice) (auto simp: list_all_iff intro: cbor_reads)

lemma reads_sig_ptr [cbor_reads]:
  assumes "cbor_laws E" and "pred_option (sigValid E) s"
  shows "reads (r_ptr (sigUnmarshal E) None) (sigMarshal E s) s"
proof -
  have "reads (r_ptr (sigUnmarshal E) None) (w_ptr (\<lambda>x. sigMarshal E (Some x)) s) s"
    by (rule reads_ptr) (use assms in \<open>auto simp: cbor_laws_def\<close>)
  moreover have "w_ptr (\<lambda>x. sigMarshal E (Some x)) s = sigMarshal E s"
    using assms by (cases s) (simp_all add: cbor_laws_def)
  ultimately show ?thesis by simp
qed

lemma reads_map:
  assumes "cbor_laws E" and k: "k = 160 + n" "n < 24" and "reads (r_map_loop E field n z) (wseq ws) y"
  shows "reads (r_map E field z) (wseq (lengthBuf k # ws)) y"
proof -
  have h: "reads (cbReadHeader E) (lengthBuf k) (MajMap, of_nat n)" using reads_map_head assms(1) k by simp
  have n: "unat (of_nat n :: uint64) = n" using k(2) by (intro unat_of_nat_small) simp
  show ?thesis unfolding r_map_def
    by (rule reads_bind [OF h]) (use assms in \<open>simp add: n cbor_laws_def\<close>)
qed

lemma reads_map_field:
  assumes "field t name = dbind d (\<lambda>x. dret (f x))" and "reads d w x" and "length name \<le> 24" and "cbor_laws E"
    and "reads (r_map_loop E field n (f x)) (wseq ws) y"
  shows "reads (r_map_loop E field (Suc n) t) (wseq (w_string E name # w # ws)) y"
proof -
  have "length name \<le> cbMaxLength E" using assms(3,4) by (simp add: cbor_laws_def)
  note h = reads_library(6) [OF assms(4) this]
  have "reads (field t name) w (f x)" using assms(1,2) by (auto simp: reads_def dbind_def dret_def)
  from reads_bind [where f = "r_map_loop E field n", OF this assms(5)]
  show ?thesis unfolding r_map_loop.simps by (rule reads_bind [OF h])
qed

lemma reads_map_end [cbor_reads]: "y = x \<Longrightarrow> reads (r_map_loop E field 0 y) (wseq []) x"
  by (simp add: reads_ret del: wseq.simps)

section \<open>Codecs\<close>

text \<open>A type with a writer and a reader, on the values it can hold.\<close>

locale codec =
  fixes enc :: "'a \<Rightarrow> cerr + bytes" and dec :: "'a dec" and valid :: "'a \<Rightarrow> bool"
  assumes roundtrip: "valid x \<Longrightarrow> reads dec (enc x) x"
begin

lemma enc_total: "valid x \<Longrightarrow> \<exists>bs. enc x = Inr bs"
  using roundtrip by (auto simp: reads_def)

lemma enc_inj: "valid x \<Longrightarrow> valid y \<Longrightarrow> enc x = enc y \<Longrightarrow> x = y"
  by (metis roundtrip reads_inj)

text \<open>No encoding is a proper prefix of another, so encodings can be written one after another.\<close>

lemma enc_prefix_free:
  assumes "valid x" and "valid y" and "enc x = Inr bs" and "enc y = Inr cs" and "bs @ us = cs @ vs"
  shows "x = y \<and> us = vs"
  using roundtrip [OF assms(1)] roundtrip [OF assms(2)] assms(3-5)
  by (auto simp: reads_def) (metis Inr_inject prod.inject)+

lemma slice: "cbor_laws E \<Longrightarrow> length xs \<le> cbMaxLength E \<Longrightarrow> list_all valid xs \<Longrightarrow>
    reads (r_slice E dec []) (w_slice E enc xs) xs"
  by (rule reads_slice) (auto simp: list_all_iff roundtrip)

end

text \<open>A struct, whose encoding starts with the head of an array or map and never with null.\<close>

locale struct_codec = codec +
  assumes not_null: "valid x \<Longrightarrow> nonnull (enc x)"
begin

lemma ptr:
  assumes "m None = Inr [CborNull]" and "\<And>x. m (Some x) = enc x" and "pred_option valid t"
  shows "reads (r_ptr dec None) (m t) t"
proof -
  have "m t = w_ptr enc t" using assms(1,2) by (cases t) (simp_all add: w_ptr_def)
  moreover have "reads (r_ptr dec None) (w_ptr enc t) t"
    by (rule reads_ptr) (use assms(3) in \<open>simp add: roundtrip not_null\<close>)
  ultimately show ?thesis by simp
qed

end

section \<open>A library that keeps the laws\<close>

text \<open>A concrete instance, with numbers in unary, that shows the laws can hold.\<close>

fun wit_read_unary :: "nat \<Rightarrow> nat dec" where
  "wit_read_unary k [] = Inl CErrEOF"
| "wit_read_unary k (c # cs) = (if c = CHR ''a'' then wit_read_unary (Suc k) cs else Inr (k, cs))"

definition wit_num :: "nat \<Rightarrow> bytes" where
  "wit_num n = replicate n (CHR ''a'') @ ''b''"

definition wit_blob :: "bytes \<Rightarrow> cerr + bytes" where
  "wit_blob b = wseq [Inr (CHR ''x'' # wit_num (length b)), Inr b]"

definition wit_skip :: "unit dec" where
  "wit_skip bs = (case bs of [] \<Rightarrow> Inl CErrEOF | _ # cs \<Rightarrow> Inr ((), cs))"

definition wit_unblob :: "bytes dec" where
  "wit_unblob = dbind (dbind wit_skip (\<lambda>_. wit_read_unary 0)) readFull"

definition wit_int :: "int \<Rightarrow> cerr + bytes" where
  "wit_int b = Inr ((if b < 0 then CHR ''n'' else CHR ''p'') # wit_num (nat \<bar>b\<bar>))"

definition wit_unint :: "int dec" where
  "wit_unint bs = dbind wit_skip (\<lambda>_. dbind (wit_read_unary 0)
     (\<lambda>n. dret (if hd bs = CHR ''n'' then - int n else int n))) bs"

fun wit_sigcode :: "SigType \<Rightarrow> int" where
  "wit_sigcode SigTypeSecp256k1 = - 1"
| "wit_sigcode SigTypeBLS = - 2"
| "wit_sigcode (SigTypeOther n) = int n"

definition wit_unsigcode :: "int \<Rightarrow> SigType" where
  "wit_unsigcode c = (if c = - 1 then SigTypeSecp256k1 else if c = - 2 then SigTypeBLS else SigTypeOther (nat c))"

definition wit_cbor_env :: cbor_env where
  "wit_cbor_env = \<lparr>
     cbWriteHeader = (\<lambda>maj x. char_of maj # wit_num (unat x)),
     cbReadHeader = (\<lambda>bs. case bs of [] \<Rightarrow> Inl CErrEOF | c # cs \<Rightarrow>
       let b = of_char c :: nat
       in if b < 8 then dbind (wit_read_unary 0) (\<lambda>n. dret (b, of_nat n)) cs
          else if 128 \<le> b \<and> b < 152 then Inr ((4, of_nat (b - 128)), cs)
          else if 160 \<le> b \<and> b < 184 then Inr ((5, of_nat (b - 160)), cs) else Inl CErrLib),
     cbWriteCid = wit_blob, cbReadCid = wit_unblob,
     cbReadString = dbind wit_skip (\<lambda>_. dbind (wit_read_unary 0) readFull),
     cbMaxLength = 8192, cbByteArrayMaxLen = 2097152,
     addrMarshal = wit_blob, addrUnmarshal = wit_unblob, addrValid = (\<lambda>_. True),
     bigMarshal = (\<lambda>b. case b of None \<Rightarrow> Inl CErrLib | Some b \<Rightarrow> wit_int b),
     bigUnmarshal = dbind wit_unint (\<lambda>b. dret (Some b)), bigValid = (\<lambda>_. True),
     sigMarshal = (\<lambda>s. case s of None \<Rightarrow> Inr [CborNull]
       | Some s \<Rightarrow> wseq [wit_int (wit_sigcode (sigType s)), wit_blob (sigData s)]),
     sigUnmarshal = dbind wit_unint (\<lambda>c. dbind wit_unblob (\<lambda>b. dret \<lparr>sigType = wit_unsigcode c, sigData = b\<rparr>)),
     sigValid = (\<lambda>_. True),
     postMarshal = (\<lambda>p. wseq [wit_int (postType p), wit_blob (postBytes p)]),
     postUnmarshal = dbind wit_unint (\<lambda>c. dbind wit_unblob (\<lambda>b. dret \<lparr>postType = c, postBytes = b\<rparr>)),
     postValid = (\<lambda>_. True), cidValid = (\<lambda>_. True)\<rparr>"

lemma wit_read_unary_num [simp]: "wit_read_unary k (wit_num n @ rest) = Inr (k + n, rest)"
  unfolding wit_num_def by (induction n arbitrary: k) auto

lemma readFull_append [simp]: "readFull (length b) (b @ rest) = Inr (b, rest)"
  by (simp add: readFull_def)

lemma wit_reads_blob: "reads wit_unblob (wit_blob b) b" "nonnull (wit_blob b)"
  by (simp_all add: reads_def wit_unblob_def wit_blob_def wit_skip_def dbind_def nonnull_def CborNull_def)

lemma wit_reads_int: "reads wit_unint (wit_int b) b" "nonnull (wseq (wit_int b # ws))"
  by (auto simp: reads_def wit_unint_def wit_int_def wit_skip_def dbind_def dret_def nonnull_def CborNull_def split: sum.splits)

lemma wit_cbor_laws: "cbor_laws wit_cbor_env"
proof -
  have h: "reads (cbReadHeader wit_cbor_env) (Inr (cbWriteHeader wit_cbor_env maj x)) (maj, x)" if "maj < 8" for maj x
    using that by (simp add: reads_def wit_cbor_env_def dbind_def dret_def)
  have a: "reads (cbReadHeader wit_cbor_env) (lengthBuf (128 + n)) (MajArray, of_nat n)"
    "reads (cbReadHeader wit_cbor_env) (lengthBuf (160 + n)) (MajMap, of_nat n)" if "n < 24" for n
    using that by (simp_all add: reads_def lengthBuf_def wit_cbor_env_def Maj_defs Let_def)
  have s: "reads (cbReadString wit_cbor_env) (w_string wit_cbor_env s) s" if "length s \<le> cbMaxLength wit_cbor_env" for s
    using that by (simp add: reads_def w_string_def wit_cbor_env_def wit_skip_def dbind_def unat_of_nat)
  have sg: "reads (sigUnmarshal wit_cbor_env) (sigMarshal wit_cbor_env (Some s)) s" for s
  proof -
    have "wit_unsigcode (wit_sigcode t) = t" for t by (cases t) (simp_all add: wit_unsigcode_def)
    then show ?thesis by (simp add: wit_cbor_env_def del: wseq.simps)
      (intro reads_bind [OF wit_reads_int(1)] reads_bind [OF wit_reads_blob(1)], simp add: reads_def dret_def)
  qed
  have p: "reads (postUnmarshal wit_cbor_env) (postMarshal wit_cbor_env p) p" for p
    by (simp add: wit_cbor_env_def del: wseq.simps)
      (intro reads_bind [OF wit_reads_int(1)] reads_bind [OF wit_reads_blob(1)], simp add: reads_def dret_def)
  have b: "reads (bigUnmarshal wit_cbor_env) (bigMarshal wit_cbor_env (Some b)) (Some b)" for b
    by (simp add: wit_cbor_env_def) (rule reads_bind1 [OF wit_reads_int(1)], simp add: reads_def dret_def)
  show ?thesis unfolding cbor_laws_def
    using h a s sg p b wit_reads_blob wit_reads_int(2) by (auto simp: wit_cbor_env_def simp del: wseq.simps)
qed

text \<open>The libraries that keep the laws.\<close>

typedef cbor_lib = "{E. cbor_laws E}" morphisms lib Cbor_Lib
  using wit_cbor_laws by blast

lemma lib_laws [simp, cbor_reads]: "cbor_laws (lib E)"
  using lib [of E] by simp

lemma lib_cases:
  assumes "cbor_laws E"
  obtains E' where "E = lib E'"
  using assms Cbor_Lib_inverse [of E] by (metis mem_Collect_eq)

text \<open>Decoding a whole buffer: what is left over after the struct is ignored.\<close>

definition decode :: "'a dec \<Rightarrow> bytes \<Rightarrow> cerr + 'a" where
  "decode dec b = (case dec b of Inl e \<Rightarrow> Inl e | Inr (x, _) \<Rightarrow> Inr x)"

lemma decode_reads: "reads dec w x \<Longrightarrow> \<exists>bs. w = Inr bs \<and> (\<forall>rest. decode dec (bs @ rest) = Inr x)"
  by (auto simp: reads_def decode_def)

end
