(* ===== verification/Cbor_Types.thy ===== *)
theory Cbor_Types
  imports Cbor Message Statetree
begin

text \<open>
  \<open>chain/types/cbor_gen.go\<close>: the encodings of block headers, messages, actors, receipts and
  tipsets. A \<open>MarshalCBOR\<close> takes a pointer, nil being \<open>None\<close>; an \<open>UnmarshalCBOR\<close> returns the struct
  it fills. Each pair is a codec on the values whose fields the encoding can hold.
\<close>

section \<open>Tickets, proofs, beacon entries\<close>

definition Ticket_MarshalCBOR :: "cbor_env \<Rightarrow> Ticket option \<Rightarrow> cerr + bytes" where
  "Ticket_MarshalCBOR E = w_ptr (\<lambda>t. wseq [lengthBuf 129, w_bytes E (VRFProof t)])"

definition Ticket_UnmarshalCBOR :: "cbor_env \<Rightarrow> Ticket dec" where
  "Ticket_UnmarshalCBOR E =
     dbind (r_fields E 1) (\<lambda>_.
     dbind (r_bytes E []) (\<lambda>proof. dret \<lparr>VRFProof = proof\<rparr>))"

definition ElectionProof_MarshalCBOR :: "cbor_env \<Rightarrow> ElectionProof option \<Rightarrow> cerr + bytes" where
  "ElectionProof_MarshalCBOR E =
     w_ptr (\<lambda>t. wseq [lengthBuf 130, w_int E (WinCount t), w_bytes E (epVRFProof t)])"

definition ElectionProof_UnmarshalCBOR :: "cbor_env \<Rightarrow> ElectionProof dec" where
  "ElectionProof_UnmarshalCBOR E =
     dbind (r_fields E 2) (\<lambda>_.
     dbind (r_int E) (\<lambda>wc.
     dbind (r_bytes E []) (\<lambda>proof. dret \<lparr>WinCount = wc, epVRFProof = proof\<rparr>)))"

definition BeaconEntry_MarshalCBOR :: "cbor_env \<Rightarrow> BeaconEntry option \<Rightarrow> cerr + bytes" where
  "BeaconEntry_MarshalCBOR E =
     w_ptr (\<lambda>t. wseq [lengthBuf 130, w_uint E (beRound t), w_bytes E (beData t)])"

definition BeaconEntry_UnmarshalCBOR :: "cbor_env \<Rightarrow> BeaconEntry dec" where
  "BeaconEntry_UnmarshalCBOR E =
     dbind (r_fields E 2) (\<lambda>_.
     dbind (r_uint E) (\<lambda>round.
     dbind (r_bytes E []) (\<lambda>data. dret \<lparr>beRound = round, beData = data\<rparr>)))"

section \<open>Block headers\<close>

definition BlockHeader_MarshalCBOR :: "cbor_env \<Rightarrow> BlockHeader option \<Rightarrow> cerr + bytes" where
  "BlockHeader_MarshalCBOR E = w_ptr (\<lambda>t. wseq
     [lengthBuf 143,
      addrMarshal E (bhMiner t),
      Ticket_MarshalCBOR E (bhTicket t),
      ElectionProof_MarshalCBOR E (bhElectionProof t),
      w_slice E (\<lambda>v. BeaconEntry_MarshalCBOR E (Some v)) (bhBeaconEntries t),
      w_slice E (postMarshal E) (bhWinPoStProof t),
      w_slice E (cbWriteCid E) (bhParents t),
      bigMarshal E (Some (bhParentWeight t)),
      w_int E (bhHeight t),
      cbWriteCid E (bhParentStateRoot t),
      cbWriteCid E (bhParentMessageReceipts t),
      cbWriteCid E (bhMessages t),
      sigMarshal E (bhBLSAggregate t),
      w_uint E (bhTimestamp t),
      sigMarshal E (bhBlockSig t),
      w_uint E (bhForkSignaling t)])"

definition zeroBlockHeader :: BlockHeader where
  "zeroBlockHeader = \<lparr>bhMiner = address_Undef, bhTicket = None, bhElectionProof = None, bhBeaconEntries = [],
     bhWinPoStProof = [], bhParents = [], bhParentWeight = 0, bhHeight = 0, bhParentStateRoot = cid_Undef,
     bhParentMessageReceipts = cid_Undef, bhMessages = cid_Undef, bhBLSAggregate = None, bhTimestamp = 0,
     bhBlockSig = None, bhForkSignaling = 0, bhValidated = False\<rparr>"

text \<open>The fields in the order they are read, in three groups.\<close>

definition BlockHeader_fields1 :: "cbor_env \<Rightarrow> BlockHeader \<Rightarrow> BlockHeader dec" where
  "BlockHeader_fields1 E t =
     dbind (addrUnmarshal E) (\<lambda>miner.
     dbind (r_ptr (Ticket_UnmarshalCBOR E) (bhTicket t)) (\<lambda>ticket.
     dbind (r_ptr (ElectionProof_UnmarshalCBOR E) (bhElectionProof t)) (\<lambda>proof.
     dbind (r_slice E (BeaconEntry_UnmarshalCBOR E) (bhBeaconEntries t)) (\<lambda>entries.
     dret (t\<lparr>bhMiner := miner, bhTicket := ticket, bhElectionProof := proof, bhBeaconEntries := entries\<rparr>)))))"

definition BlockHeader_fields2 :: "cbor_env \<Rightarrow> BlockHeader \<Rightarrow> BlockHeader dec" where
  "BlockHeader_fields2 E t =
     dbind (r_slice E (postUnmarshal E) (bhWinPoStProof t)) (\<lambda>posts.
     dbind (r_slice E (cbReadCid E) (bhParents t)) (\<lambda>parents.
     dbind (bigUnmarshal E) (\<lambda>weight.
     dbind (r_int E) (\<lambda>height.
     dret (t\<lparr>bhWinPoStProof := posts, bhParents := parents,
             bhParentWeight := (case weight of None \<Rightarrow> 0 | Some w \<Rightarrow> w), bhHeight := height\<rparr>)))))"

definition BlockHeader_fields3 :: "cbor_env \<Rightarrow> BlockHeader \<Rightarrow> BlockHeader dec" where
  "BlockHeader_fields3 E t =
     dbind (cbReadCid E) (\<lambda>root.
     dbind (cbReadCid E) (\<lambda>receipts.
     dbind (cbReadCid E) (\<lambda>msgs.
     dbind (r_ptr (sigUnmarshal E) (bhBLSAggregate t)) (\<lambda>agg.
     dbind (r_uint E) (\<lambda>time.
     dbind (r_ptr (sigUnmarshal E) (bhBlockSig t)) (\<lambda>sig.
     dbind (r_uint E) (\<lambda>fork.
     dret (t\<lparr>bhParentStateRoot := root, bhParentMessageReceipts := receipts, bhMessages := msgs,
             bhBLSAggregate := agg, bhTimestamp := time, bhBlockSig := sig, bhForkSignaling := fork\<rparr>))))))))"

definition BlockHeader_UnmarshalCBOR :: "cbor_env \<Rightarrow> BlockHeader dec" where
  "BlockHeader_UnmarshalCBOR E =
     dbind (r_fields E 15) (\<lambda>_.
     dbind (BlockHeader_fields1 E zeroBlockHeader) (\<lambda>t.
     dbind (BlockHeader_fields2 E t) (BlockHeader_fields3 E)))"

section \<open>Messages, actors, receipts\<close>

definition Message_MarshalCBOR :: "cbor_env \<Rightarrow> Message option \<Rightarrow> cerr + bytes" where
  "Message_MarshalCBOR E = w_ptr (\<lambda>t. wseq
     [lengthBuf 137,
      w_int E (msgVersion t),
      addrMarshal E (msgTo t),
      addrMarshal E (msgFrom t),
      w_uint E (msgNonce t),
      bigMarshal E (msgValue t),
      bigMarshal E (msgGasPrice t),
      w_int E (msgGasLimit t),
      w_uint E (msgMethod t),
      w_bytes E (msgParams t)])"

definition Message_UnmarshalCBOR :: "cbor_env \<Rightarrow> Message dec" where
  "Message_UnmarshalCBOR E =
     dbind (r_fields E 9) (\<lambda>_.
     dbind (r_int E) (\<lambda>version.
     dbind (addrUnmarshal E) (\<lambda>toAddr.
     dbind (addrUnmarshal E) (\<lambda>fromAddr.
     dbind (r_uint E) (\<lambda>nonce.
     dbind (bigUnmarshal E) (\<lambda>val.
     dbind (bigUnmarshal E) (\<lambda>price.
     dbind (r_int E) (\<lambda>limit.
     dbind (r_uint E) (\<lambda>meth.
     dbind (r_bytes E []) (\<lambda>params.
     dret \<lparr>msgVersion = version, msgTo = toAddr, msgFrom = fromAddr, msgNonce = nonce, msgValue = val,
           msgGasPrice = price, msgGasLimit = limit, msgMethod = meth, msgParams = params\<rparr>))))))))))"

definition SignedMessage_MarshalCBOR :: "cbor_env \<Rightarrow> SignedMessage option \<Rightarrow> cerr + bytes" where
  "SignedMessage_MarshalCBOR E = w_ptr (\<lambda>t. wseq
     [lengthBuf 130, Message_MarshalCBOR E (Some (smMessage t)), sigMarshal E (Some (smSignature t))])"

definition SignedMessage_UnmarshalCBOR :: "cbor_env \<Rightarrow> SignedMessage dec" where
  "SignedMessage_UnmarshalCBOR E =
     dbind (r_fields E 2) (\<lambda>_.
     dbind (Message_UnmarshalCBOR E) (\<lambda>m.
     dbind (sigUnmarshal E) (\<lambda>s. dret \<lparr>smMessage = m, smSignature = s\<rparr>)))"

record MsgMeta =
  mmBlsMessages :: cid
  mmSecpkMessages :: cid

definition MsgMeta_MarshalCBOR :: "cbor_env \<Rightarrow> MsgMeta option \<Rightarrow> cerr + bytes" where
  "MsgMeta_MarshalCBOR E = w_ptr (\<lambda>t. wseq
     [lengthBuf 130, cbWriteCid E (mmBlsMessages t), cbWriteCid E (mmSecpkMessages t)])"

definition MsgMeta_UnmarshalCBOR :: "cbor_env \<Rightarrow> MsgMeta dec" where
  "MsgMeta_UnmarshalCBOR E =
     dbind (r_fields E 2) (\<lambda>_.
     dbind (cbReadCid E) (\<lambda>bls.
     dbind (cbReadCid E) (\<lambda>secpk. dret \<lparr>mmBlsMessages = bls, mmSecpkMessages = secpk\<rparr>)))"

definition Actor_MarshalCBOR :: "cbor_env \<Rightarrow> Actor option \<Rightarrow> cerr + bytes" where
  "Actor_MarshalCBOR E = w_ptr (\<lambda>t. wseq
     [lengthBuf 132, cbWriteCid E (actCode t), cbWriteCid E (actHead t), w_uint E (actNonce t),
      bigMarshal E (Some (actBalance t))])"

definition Actor_UnmarshalCBOR :: "cbor_env \<Rightarrow> Actor dec" where
  "Actor_UnmarshalCBOR E =
     dbind (r_fields E 4) (\<lambda>_.
     dbind (cbReadCid E) (\<lambda>code.
     dbind (cbReadCid E) (\<lambda>head.
     dbind (r_uint E) (\<lambda>nonce.
     dbind (bigUnmarshal E) (\<lambda>bal.
     dret \<lparr>actCode = code, actHead = head, actNonce = nonce,
           actBalance = (case bal of None \<Rightarrow> 0 | Some b \<Rightarrow> b)\<rparr>)))))"

record MessageReceipt =
  mrExitCode :: int
  mrReturn :: bytes
  mrGasUsed :: int

definition MessageReceipt_Equals :: "MessageReceipt \<Rightarrow> MessageReceipt \<Rightarrow> bool" where
  "MessageReceipt_Equals mr ob \<longleftrightarrow>
     mrExitCode mr = mrExitCode ob \<and> mrReturn mr = mrReturn ob \<and> mrGasUsed mr = mrGasUsed ob"

definition MessageReceipt_MarshalCBOR :: "cbor_env \<Rightarrow> MessageReceipt option \<Rightarrow> cerr + bytes" where
  "MessageReceipt_MarshalCBOR E = w_ptr (\<lambda>t. wseq
     [lengthBuf 131, w_int E (mrExitCode t), w_bytes E (mrReturn t), w_int E (mrGasUsed t)])"

definition MessageReceipt_UnmarshalCBOR :: "cbor_env \<Rightarrow> MessageReceipt dec" where
  "MessageReceipt_UnmarshalCBOR E =
     dbind (r_fields E 3) (\<lambda>_.
     dbind (r_int E) (\<lambda>code.
     dbind (r_bytes E []) (\<lambda>retval.
     dbind (r_int E) (\<lambda>gas. dret \<lparr>mrExitCode = code, mrReturn = retval, mrGasUsed = gas\<rparr>))))"

section \<open>Blocks on the wire and tipsets\<close>

record BlockMsg =
  bmHeader :: "BlockHeader option"
  bmBlsMessages :: "cid list"
  bmSecpkMessages :: "cid list"

definition BlockMsg_MarshalCBOR :: "cbor_env \<Rightarrow> BlockMsg option \<Rightarrow> cerr + bytes" where
  "BlockMsg_MarshalCBOR E = w_ptr (\<lambda>t. wseq
     [lengthBuf 131, BlockHeader_MarshalCBOR E (bmHeader t),
      w_slice E (cbWriteCid E) (bmBlsMessages t), w_slice E (cbWriteCid E) (bmSecpkMessages t)])"

definition BlockMsg_UnmarshalCBOR :: "cbor_env \<Rightarrow> BlockMsg dec" where
  "BlockMsg_UnmarshalCBOR E =
     dbind (r_fields E 3) (\<lambda>_.
     dbind (r_ptr (BlockHeader_UnmarshalCBOR E) None) (\<lambda>header.
     dbind (r_slice E (cbReadCid E) []) (\<lambda>bls.
     dbind (r_slice E (cbReadCid E) []) (\<lambda>secpk.
     dret \<lparr>bmHeader = header, bmBlsMessages = bls, bmSecpkMessages = secpk\<rparr>))))"

definition BlockMsg_Serialize :: "cbor_env \<Rightarrow> BlockMsg \<Rightarrow> cerr + bytes" where
  "BlockMsg_Serialize E bm = BlockMsg_MarshalCBOR E (Some bm)"

definition DecodeBlockMsg :: "cbor_env \<Rightarrow> bytes \<Rightarrow> cerr + BlockMsg" where
  "DecodeBlockMsg E b = decode (BlockMsg_UnmarshalCBOR E) b"

definition ExpTipSet_MarshalCBOR :: "cbor_env \<Rightarrow> ExpTipSet option \<Rightarrow> cerr + bytes" where
  "ExpTipSet_MarshalCBOR E = w_ptr (\<lambda>t. wseq
     [lengthBuf 131, w_slice E (cbWriteCid E) (expCids t),
      w_slice E (\<lambda>v. BlockHeader_MarshalCBOR E (Some v)) (expBlocks t), w_int E (expHeight t)])"

definition ExpTipSet_UnmarshalCBOR :: "cbor_env \<Rightarrow> ExpTipSet dec" where
  "ExpTipSet_UnmarshalCBOR E =
     dbind (r_fields E 3) (\<lambda>_.
     dbind (r_slice E (cbReadCid E) []) (\<lambda>cids.
     dbind (r_slice E (BlockHeader_UnmarshalCBOR E) []) (\<lambda>blks.
     dbind (r_int E) (\<lambda>height. dret \<lparr>expCids = cids, expBlocks = blks, expHeight = height\<rparr>))))"

section \<open>Serialised forms and CIDs\<close>

text \<open>
  \<open>hash\<close> is \<open>abi.CidBuilder.Sum\<close>. A storage block is its bytes with their CID. A \<open>Cid\<close> method panics,
  the result \<open>None\<close>, when the value cannot be serialised.
\<close>

type_synonym storage_block = "bytes \<times> cid"

definition Header_Serialize :: "cbor_env \<Rightarrow> BlockHeader \<Rightarrow> cerr + bytes" where
  "Header_Serialize E blk = BlockHeader_MarshalCBOR E (Some blk)"

definition Header_ToStorageBlock :: "cbor_env \<Rightarrow> (bytes \<Rightarrow> cerr + cid) \<Rightarrow> BlockHeader \<Rightarrow> cerr + storage_block" where
  "Header_ToStorageBlock E hash blk =
     (case Header_Serialize E blk of Inl e \<Rightarrow> Inl e
      | Inr data \<Rightarrow> (case hash data of Inl e \<Rightarrow> Inl e | Inr c \<Rightarrow> Inr (data, c)))"

definition Header_Cid :: "cbor_env \<Rightarrow> (bytes \<Rightarrow> cerr + cid) \<Rightarrow> BlockHeader \<Rightarrow> cid option" where
  "Header_Cid E hash blk = (case Header_ToStorageBlock E hash blk of Inl _ \<Rightarrow> None | Inr sb \<Rightarrow> Some (snd sb))"

definition DecodeBlock :: "cbor_env \<Rightarrow> bytes \<Rightarrow> cerr + BlockHeader" where
  "DecodeBlock E b = decode (BlockHeader_UnmarshalCBOR E) b"

definition SigningBytes :: "cbor_env \<Rightarrow> BlockHeader \<Rightarrow> cerr + bytes" where
  "SigningBytes E blk = Header_Serialize E (blk\<lparr>bhBlockSig := None\<rparr>)"

definition MsgMeta_ToStorageBlock :: "cbor_env \<Rightarrow> (bytes \<Rightarrow> cerr + cid) \<Rightarrow> MsgMeta \<Rightarrow> cerr + storage_block" where
  "MsgMeta_ToStorageBlock E hash mm =
     (case MsgMeta_MarshalCBOR E (Some mm) of Inl e \<Rightarrow> Inl e
      | Inr data \<Rightarrow> (case hash data of Inl e \<Rightarrow> Inl e | Inr c \<Rightarrow> Inr (data, c)))"

definition MsgMeta_Cid :: "cbor_env \<Rightarrow> (bytes \<Rightarrow> cerr + cid) \<Rightarrow> MsgMeta \<Rightarrow> cid option" where
  "MsgMeta_Cid E hash mm = (case MsgMeta_ToStorageBlock E hash mm of Inl _ \<Rightarrow> None | Inr b \<Rightarrow> Some (snd b))"

definition MessageVersion :: int where
  "MessageVersion = 0"

definition Message_Serialize :: "cbor_env \<Rightarrow> Message \<Rightarrow> cerr + bytes" where
  "Message_Serialize E m = Message_MarshalCBOR E (Some m)"

definition DecodeMessage :: "cbor_env \<Rightarrow> bytes \<Rightarrow> cerr + Message" where
  "DecodeMessage E b =
     (case decode (Message_UnmarshalCBOR E) b of Inl e \<Rightarrow> Inl e
      | Inr msg \<Rightarrow> if msgVersion msg \<noteq> MessageVersion then Inl CErrField else Inr msg)"

definition Message_ToStorageBlock :: "cbor_env \<Rightarrow> (bytes \<Rightarrow> cerr + cid) \<Rightarrow> Message \<Rightarrow> cerr + storage_block" where
  "Message_ToStorageBlock E hash m =
     (case Message_Serialize E m of Inl e \<Rightarrow> Inl e
      | Inr data \<Rightarrow> (case hash data of Inl e \<Rightarrow> Inl e | Inr c \<Rightarrow> Inr (data, c)))"

definition SignedMessage_Serialize :: "cbor_env \<Rightarrow> SignedMessage \<Rightarrow> cerr + bytes" where
  "SignedMessage_Serialize E sm = SignedMessage_MarshalCBOR E (Some sm)"

definition DecodeSignedMessage :: "cbor_env \<Rightarrow> bytes \<Rightarrow> cerr + SignedMessage" where
  "DecodeSignedMessage E data = decode (SignedMessage_UnmarshalCBOR E) data"

definition SignedMessage_ToStorageBlock ::
  "cbor_env \<Rightarrow> (bytes \<Rightarrow> cerr + cid) \<Rightarrow> SignedMessage \<Rightarrow> cerr + storage_block" where
  "SignedMessage_ToStorageBlock E hash sm =
     (if sigType (smSignature sm) = SigTypeBLS then Message_ToStorageBlock E hash (smMessage sm)
      else (case SignedMessage_Serialize E sm of Inl e \<Rightarrow> Inl e
            | Inr data \<Rightarrow> (case hash data of Inl e \<Rightarrow> Inl e | Inr c \<Rightarrow> Inr (data, c))))"

section \<open>Codecs\<close>

definition Ticket_valid :: "cbor_env \<Rightarrow> Ticket \<Rightarrow> bool" where
  "Ticket_valid E t \<longleftrightarrow> length (VRFProof t) \<le> cbByteArrayMaxLen E"

interpretation ticket_codec: struct_codec "\<lambda>x. Ticket_MarshalCBOR (lib E) (Some x)" "Ticket_UnmarshalCBOR (lib E)" "Ticket_valid (lib E)" for E
  by unfold_locales
    (auto simp: Ticket_MarshalCBOR_def Ticket_UnmarshalCBOR_def Ticket_valid_def  simp del: wseq.simps
      intro!: cbor_reads nonnull_lengthBuf Ticket.equality)

definition ElectionProof_valid :: "cbor_env \<Rightarrow> ElectionProof \<Rightarrow> bool" where
  "ElectionProof_valid E t \<longleftrightarrow> in_i64 (WinCount t) \<and> length (epVRFProof t) \<le> cbByteArrayMaxLen E"

interpretation eproof_codec: struct_codec "\<lambda>x. ElectionProof_MarshalCBOR (lib E) (Some x)" "ElectionProof_UnmarshalCBOR (lib E)" "ElectionProof_valid (lib E)" for E
  by unfold_locales
    (auto simp: ElectionProof_MarshalCBOR_def ElectionProof_UnmarshalCBOR_def ElectionProof_valid_def  simp del: wseq.simps
      intro!: cbor_reads nonnull_lengthBuf ElectionProof.equality)

definition BeaconEntry_valid :: "cbor_env \<Rightarrow> BeaconEntry \<Rightarrow> bool" where
  "BeaconEntry_valid E t \<longleftrightarrow> length (beData t) \<le> cbByteArrayMaxLen E"

interpretation beacon_codec: struct_codec "\<lambda>x. BeaconEntry_MarshalCBOR (lib E) (Some x)" "BeaconEntry_UnmarshalCBOR (lib E)" "BeaconEntry_valid (lib E)" for E
  by unfold_locales
    (auto simp: BeaconEntry_MarshalCBOR_def BeaconEntry_UnmarshalCBOR_def BeaconEntry_valid_def  simp del: wseq.simps
      intro!: cbor_reads nonnull_lengthBuf BeaconEntry.equality)

definition MsgMeta_valid :: "cbor_env \<Rightarrow> MsgMeta \<Rightarrow> bool" where
  "MsgMeta_valid E t \<longleftrightarrow> cidValid E (mmBlsMessages t) \<and> cidValid E (mmSecpkMessages t)"

interpretation meta_codec: struct_codec "\<lambda>x. MsgMeta_MarshalCBOR (lib E) (Some x)" "MsgMeta_UnmarshalCBOR (lib E)" "MsgMeta_valid (lib E)" for E
  by unfold_locales
    (auto simp: MsgMeta_MarshalCBOR_def MsgMeta_UnmarshalCBOR_def MsgMeta_valid_def  simp del: wseq.simps
      intro!: cbor_reads nonnull_lengthBuf MsgMeta.equality)

definition MessageReceipt_valid :: "cbor_env \<Rightarrow> MessageReceipt \<Rightarrow> bool" where
  "MessageReceipt_valid E t \<longleftrightarrow> in_i64 (mrExitCode t) \<and> length (mrReturn t) \<le> cbByteArrayMaxLen E \<and> in_i64 (mrGasUsed t)"

interpretation receipt_codec: struct_codec "\<lambda>x. MessageReceipt_MarshalCBOR (lib E) (Some x)" "MessageReceipt_UnmarshalCBOR (lib E)" "MessageReceipt_valid (lib E)" for E
  by unfold_locales
    (auto simp: MessageReceipt_MarshalCBOR_def MessageReceipt_UnmarshalCBOR_def MessageReceipt_valid_def  simp del: wseq.simps
      intro!: cbor_reads nonnull_lengthBuf MessageReceipt.equality)


definition Actor_valid :: "cbor_env \<Rightarrow> Actor \<Rightarrow> bool" where
  "Actor_valid E t \<longleftrightarrow> cidValid E (actCode t) \<and> cidValid E (actHead t) \<and> bigValid E (actBalance t)"

interpretation actor_codec: struct_codec "\<lambda>x. Actor_MarshalCBOR (lib E) (Some x)" "Actor_UnmarshalCBOR (lib E)" "Actor_valid (lib E)" for E
  by unfold_locales
    (auto simp: Actor_MarshalCBOR_def Actor_UnmarshalCBOR_def Actor_valid_def  simp del: wseq.simps
      intro!: cbor_reads nonnull_lengthBuf Actor.equality)

definition Message_valid :: "cbor_env \<Rightarrow> Message \<Rightarrow> bool" where
  "Message_valid E t \<longleftrightarrow> in_i64 (msgVersion t) \<and> addrValid E (msgTo t) \<and> addrValid E (msgFrom t) \<and>
     (\<exists>v p. msgValue t = Some v \<and> bigValid E v \<and> msgGasPrice t = Some p \<and> bigValid E p) \<and>
     in_i64 (msgGasLimit t) \<and> length (msgParams t) \<le> cbByteArrayMaxLen E"

interpretation message_codec: struct_codec "\<lambda>x. Message_MarshalCBOR (lib E) (Some x)" "Message_UnmarshalCBOR (lib E)" "Message_valid (lib E)" for E
  by unfold_locales
    (auto simp: Message_MarshalCBOR_def Message_UnmarshalCBOR_def Message_valid_def  simp del: wseq.simps
      intro!: cbor_reads nonnull_lengthBuf Message.equality)

lemmas reads_message [cbor_reads] = message_codec.roundtrip

definition SignedMessage_valid :: "cbor_env \<Rightarrow> SignedMessage \<Rightarrow> bool" where
  "SignedMessage_valid E t \<longleftrightarrow> Message_valid E (smMessage t) \<and> sigValid E (smSignature t)"

interpretation signed_codec: struct_codec "\<lambda>x. SignedMessage_MarshalCBOR (lib E) (Some x)" "SignedMessage_UnmarshalCBOR (lib E)" "SignedMessage_valid (lib E)" for E
  by unfold_locales
    (auto simp: SignedMessage_MarshalCBOR_def SignedMessage_UnmarshalCBOR_def SignedMessage_valid_def  simp del: wseq.simps
      intro!: cbor_reads nonnull_lengthBuf SignedMessage.equality)


lemma Marshal_nil [simp]:
  "Ticket_MarshalCBOR E None = Inr [CborNull]" "ElectionProof_MarshalCBOR E None = Inr [CborNull]"
  by (simp_all add: Ticket_MarshalCBOR_def ElectionProof_MarshalCBOR_def)

lemmas reads_header_parts [cbor_reads] =
  ticket_codec.ptr [OF Marshal_nil(1) refl]
  eproof_codec.ptr [OF Marshal_nil(2) refl]
  beacon_codec.slice [OF lib_laws]

definition BlockHeader_valid :: "cbor_env \<Rightarrow> BlockHeader \<Rightarrow> bool" where
  "BlockHeader_valid E t \<longleftrightarrow>
     addrValid E (bhMiner t) \<and> pred_option (Ticket_valid E) (bhTicket t) \<and>
     pred_option (ElectionProof_valid E) (bhElectionProof t) \<and>
     length (bhBeaconEntries t) \<le> cbMaxLength E \<and> list_all (BeaconEntry_valid E) (bhBeaconEntries t) \<and>
     length (bhWinPoStProof t) \<le> cbMaxLength E \<and> list_all (postValid E) (bhWinPoStProof t) \<and>
     length (bhParents t) \<le> cbMaxLength E \<and> list_all (cidValid E) (bhParents t) \<and>
     bigValid E (bhParentWeight t) \<and> in_i64 (bhHeight t) \<and> cidValid E (bhParentStateRoot t) \<and>
     cidValid E (bhParentMessageReceipts t) \<and> cidValid E (bhMessages t) \<and>
     pred_option (sigValid E) (bhBLSAggregate t) \<and> pred_option (sigValid E) (bhBlockSig t) \<and> \<not> bhValidated t"

lemma reads_header_fields1:
  assumes "BlockHeader_valid (lib E) t" and "bhTicket z = None" "bhElectionProof z = None" "bhBeaconEntries z = []"
  shows "reads (BlockHeader_fields1 (lib E) z)
    (wseq [addrMarshal (lib E) (bhMiner t), Ticket_MarshalCBOR (lib E) (bhTicket t),
      ElectionProof_MarshalCBOR (lib E) (bhElectionProof t),
      w_slice (lib E) (\<lambda>v. BeaconEntry_MarshalCBOR (lib E) (Some v)) (bhBeaconEntries t)])
    (z\<lparr>bhMiner := bhMiner t, bhTicket := bhTicket t, bhElectionProof := bhElectionProof t, bhBeaconEntries := bhBeaconEntries t\<rparr>)"
  using assms unfolding BlockHeader_fields1_def BlockHeader_valid_def
  by (auto simp del: wseq.simps intro!: cbor_reads)

lemma reads_header_fields2:
  assumes "BlockHeader_valid (lib E) t" and "bhWinPoStProof z = []" "bhParents z = []"
  shows "reads (BlockHeader_fields2 (lib E) z)
    (wseq [w_slice (lib E) (postMarshal (lib E)) (bhWinPoStProof t), w_slice (lib E) (cbWriteCid (lib E)) (bhParents t),
      bigMarshal (lib E) (Some (bhParentWeight t)), w_int (lib E) (bhHeight t)])
    (z\<lparr>bhWinPoStProof := bhWinPoStProof t, bhParents := bhParents t, bhParentWeight := bhParentWeight t, bhHeight := bhHeight t\<rparr>)"
  using assms unfolding BlockHeader_fields2_def BlockHeader_valid_def
  by (auto simp del: wseq.simps intro!: cbor_reads)

lemma reads_header_fields3:
  assumes "BlockHeader_valid (lib E) t" and "bhBLSAggregate z = None" "bhBlockSig z = None"
  shows "reads (BlockHeader_fields3 (lib E) z)
    (wseq [cbWriteCid (lib E) (bhParentStateRoot t), cbWriteCid (lib E) (bhParentMessageReceipts t),
      cbWriteCid (lib E) (bhMessages t), sigMarshal (lib E) (bhBLSAggregate t), w_uint (lib E) (bhTimestamp t),
      sigMarshal (lib E) (bhBlockSig t), w_uint (lib E) (bhForkSignaling t)])
    (z\<lparr>bhParentStateRoot := bhParentStateRoot t, bhParentMessageReceipts := bhParentMessageReceipts t,
       bhMessages := bhMessages t, bhBLSAggregate := bhBLSAggregate t, bhTimestamp := bhTimestamp t,
       bhBlockSig := bhBlockSig t, bhForkSignaling := bhForkSignaling t\<rparr>)"
  using assms unfolding BlockHeader_fields3_def BlockHeader_valid_def
  by (auto simp del: wseq.simps intro!: cbor_reads)

lemma reads_block_header:
  assumes v: "BlockHeader_valid (lib E) t"
  shows "reads (BlockHeader_UnmarshalCBOR (lib E)) (BlockHeader_MarshalCBOR (lib E) (Some t)) t"
proof -
  let ?z = zeroBlockHeader
  let ?z1 = "?z\<lparr>bhMiner := bhMiner t, bhTicket := bhTicket t, bhElectionProof := bhElectionProof t, bhBeaconEntries := bhBeaconEntries t\<rparr>"
  let ?z2 = "?z1\<lparr>bhWinPoStProof := bhWinPoStProof t, bhParents := bhParents t, bhParentWeight := bhParentWeight t, bhHeight := bhHeight t\<rparr>"
  let ?z3 = "?z2\<lparr>bhParentStateRoot := bhParentStateRoot t, bhParentMessageReceipts := bhParentMessageReceipts t,
       bhMessages := bhMessages t, bhBLSAggregate := bhBLSAggregate t, bhTimestamp := bhTimestamp t,
       bhBlockSig := bhBlockSig t, bhForkSignaling := bhForkSignaling t\<rparr>"
  have z3: "?z3 = t"
    using v by (intro BlockHeader.equality) (simp_all add: zeroBlockHeader_def BlockHeader_valid_def)
  note f3 = reads_header_fields3 [OF v, of ?z2, unfolded z3]
  have n: "reads (r_fields (lib E) 15) (lengthBuf 143) ()" by (rule reads_fields [where n = 15]) simp_all
  show ?thesis
    unfolding BlockHeader_UnmarshalCBOR_def BlockHeader_MarshalCBOR_def w_ptr_simps
    by (rule reads_bind [OF n], rule reads_append [where x = ?z1, OF _ reads_append [where x = ?z2], of _
          "[_, _, _, _]" _ "[_, _, _, _]", unfolded append.simps])
      (rule reads_header_fields1 [OF v] reads_header_fields2 [OF v] f3; simp add: zeroBlockHeader_def)+
qed

interpretation header_codec: struct_codec "\<lambda>x. BlockHeader_MarshalCBOR (lib E) (Some x)" "BlockHeader_UnmarshalCBOR (lib E)" "BlockHeader_valid (lib E)" for E
  by unfold_locales (rule reads_block_header, simp, simp add: BlockHeader_MarshalCBOR_def nonnull_lengthBuf del: wseq.simps)

lemma Header_Marshal_nil [simp]: "BlockHeader_MarshalCBOR E None = Inr [CborNull]"
  by (simp add: BlockHeader_MarshalCBOR_def)

lemmas reads_headers [cbor_reads] = header_codec.ptr [OF Header_Marshal_nil refl] header_codec.slice [OF lib_laws]

definition BlockMsg_valid :: "cbor_env \<Rightarrow> BlockMsg \<Rightarrow> bool" where
  "BlockMsg_valid E t \<longleftrightarrow> pred_option (BlockHeader_valid E) (bmHeader t) \<and>
     length (bmBlsMessages t) \<le> cbMaxLength E \<and> list_all (cidValid E) (bmBlsMessages t) \<and>
     length (bmSecpkMessages t) \<le> cbMaxLength E \<and> list_all (cidValid E) (bmSecpkMessages t)"

interpretation block_msg_codec: struct_codec "\<lambda>x. BlockMsg_MarshalCBOR (lib E) (Some x)" "BlockMsg_UnmarshalCBOR (lib E)" "BlockMsg_valid (lib E)" for E
  by unfold_locales
    (auto simp: BlockMsg_MarshalCBOR_def BlockMsg_UnmarshalCBOR_def BlockMsg_valid_def  simp del: wseq.simps
      intro!: cbor_reads nonnull_lengthBuf BlockMsg.equality)

definition ExpTipSet_valid :: "cbor_env \<Rightarrow> ExpTipSet \<Rightarrow> bool" where
  "ExpTipSet_valid E t \<longleftrightarrow> length (expCids t) \<le> cbMaxLength E \<and> list_all (cidValid E) (expCids t) \<and>
     length (expBlocks t) \<le> cbMaxLength E \<and> list_all (BlockHeader_valid E) (expBlocks t) \<and> in_i64 (expHeight t)"

interpretation exp_tipset_codec: struct_codec "\<lambda>x. ExpTipSet_MarshalCBOR (lib E) (Some x)" "ExpTipSet_UnmarshalCBOR (lib E)" "ExpTipSet_valid (lib E)" for E
  by unfold_locales
    (auto simp: ExpTipSet_MarshalCBOR_def ExpTipSet_UnmarshalCBOR_def ExpTipSet_valid_def  simp del: wseq.simps
      intro!: cbor_reads nonnull_lengthBuf ExpTipSet.equality)


section \<open>Properties\<close>

text \<open>
  C19. The generated encodings of the chain types lose nothing: for every value whose fields the
  encoding can hold, writing succeeds, and reading the bytes written gives the value back and
  leaves the bytes after it untouched. This holds for headers, messages, signed messages, actors,
  receipts, message roots, blocks on the wire, tipsets, tickets, election proofs and beacon entries.
\<close>

theorem chain_types_roundtrip:
  assumes "cbor_laws E"
  shows "(BlockHeader_valid E h \<longrightarrow> reads (BlockHeader_UnmarshalCBOR E) (BlockHeader_MarshalCBOR E (Some h)) h) \<and>
    (Message_valid E m \<longrightarrow> reads (Message_UnmarshalCBOR E) (Message_MarshalCBOR E (Some m)) m) \<and>
    (SignedMessage_valid E sm \<longrightarrow> reads (SignedMessage_UnmarshalCBOR E) (SignedMessage_MarshalCBOR E (Some sm)) sm) \<and>
    (Actor_valid E a \<longrightarrow> reads (Actor_UnmarshalCBOR E) (Actor_MarshalCBOR E (Some a)) a) \<and>
    (MessageReceipt_valid E r \<longrightarrow> reads (MessageReceipt_UnmarshalCBOR E) (MessageReceipt_MarshalCBOR E (Some r)) r) \<and>
    (MsgMeta_valid E mm \<longrightarrow> reads (MsgMeta_UnmarshalCBOR E) (MsgMeta_MarshalCBOR E (Some mm)) mm) \<and>
    (BlockMsg_valid E bm \<longrightarrow> reads (BlockMsg_UnmarshalCBOR E) (BlockMsg_MarshalCBOR E (Some bm)) bm) \<and>
    (ExpTipSet_valid E ts \<longrightarrow> reads (ExpTipSet_UnmarshalCBOR E) (ExpTipSet_MarshalCBOR E (Some ts)) ts) \<and>
    (Ticket_valid E t \<longrightarrow> reads (Ticket_UnmarshalCBOR E) (Ticket_MarshalCBOR E (Some t)) t) \<and>
    (ElectionProof_valid E p \<longrightarrow> reads (ElectionProof_UnmarshalCBOR E) (ElectionProof_MarshalCBOR E (Some p)) p) \<and>
    (BeaconEntry_valid E b \<longrightarrow> reads (BeaconEntry_UnmarshalCBOR E) (BeaconEntry_MarshalCBOR E (Some b)) b)"
proof -
  obtain L where "E = lib L" using lib_cases [OF assms] .
  then show ?thesis
    by (simp add: header_codec.roundtrip message_codec.roundtrip signed_codec.roundtrip actor_codec.roundtrip
        receipt_codec.roundtrip meta_codec.roundtrip block_msg_codec.roundtrip exp_tipset_codec.roundtrip
        ticket_codec.roundtrip eproof_codec.roundtrip beacon_codec.roundtrip)
qed

theorem chain_types_roundtrip_witness:
  "reads (BlockHeader_UnmarshalCBOR wit_cbor_env) (BlockHeader_MarshalCBOR wit_cbor_env (Some (wit_block ''m'' ''t'' [''p''] 5 7)))
     (wit_block ''m'' ''t'' [''p''] 5 7)"
proof -
  have "BlockHeader_valid wit_cbor_env (wit_block ''m'' ''t'' [''p''] 5 7)"
    by (simp add: BlockHeader_valid_def wit_block_def wit_cbor_env_def Ticket_valid_def in_i64_def)
  then show ?thesis using chain_types_roundtrip [OF wit_cbor_laws] by blast
qed

text \<open>
  C20. A block header is decoded from its serialisation whatever follows it, and its CID
  identifies it: with a hash that does not fail or collide on the two serialisations, headers with
  the same CID are the same header, so that agreeing on a CID is agreeing on every field that is
  serialised. The bytes that are signed leave out the signature and nothing else.
\<close>

theorem block_header_identity:
  assumes "cbor_laws E" and "BlockHeader_valid E b" and "BlockHeader_valid E c"
    and "\<And>x. Inr x \<in> {Header_Serialize E b, Header_Serialize E c} \<Longrightarrow> hash x \<in> range Inr"
    and "\<And>x y. Header_Serialize E b = Inr x \<Longrightarrow> Header_Serialize E c = Inr y \<Longrightarrow> hash x = hash y \<Longrightarrow> x = y"
  shows "(\<exists>data. Header_Serialize E b = Inr data \<and> (\<forall>rest. DecodeBlock E (data @ rest) = Inr b)) \<and>
    Header_Cid E hash b \<noteq> None \<and> (Header_Cid E hash b = Header_Cid E hash c \<longleftrightarrow> b = c) \<and>
    (SigningBytes E b = SigningBytes E c \<longleftrightarrow> b\<lparr>bhBlockSig := None\<rparr> = c\<lparr>bhBlockSig := None\<rparr>)"
proof -
  obtain L where L: "E = lib L" using lib_cases [OF assms(1)] .
  have rb: "reads (BlockHeader_UnmarshalCBOR E) (Header_Serialize E b) b"
    and rc: "reads (BlockHeader_UnmarshalCBOR E) (Header_Serialize E c) c"
    using assms(2,3) header_codec.roundtrip by (simp_all add: L Header_Serialize_def)
  from rb rc obtain db dc where d: "Header_Serialize E b = Inr db" "Header_Serialize E c = Inr dc"
    by (auto simp: reads_def)
  have "hash db \<in> range Inr" "hash dc \<in> range Inr" by (rule assms(4), simp add: d)+
  then obtain zb zc where z: "hash db = Inr zb" "hash dc = Inr zc" by (elim rangeE)
  have cid: "Header_Cid E hash b = Some zb" "Header_Cid E hash c = Some zc"
    by (simp_all add: Header_Cid_def Header_ToStorageBlock_def d z)
  have "b = c" if "zb = zc"
  proof -
    have "db = dc" using assms(5) [OF d] z that by simp
    with rb rc show ?thesis unfolding d by (simp add: reads_inj)
  qed
  with cid have ids: "Header_Cid E hash b = Header_Cid E hash c \<longleftrightarrow> b = c" by auto
  have "BlockHeader_valid E (b\<lparr>bhBlockSig := None\<rparr>)" "BlockHeader_valid E (c\<lparr>bhBlockSig := None\<rparr>)"
    using assms(2,3) by (simp_all add: BlockHeader_valid_def)
  from header_codec.enc_inj [OF this [unfolded L]]
  have sig: "SigningBytes E b = SigningBytes E c \<longleftrightarrow> b\<lparr>bhBlockSig := None\<rparr> = c\<lparr>bhBlockSig := None\<rparr>"
    unfolding SigningBytes_def Header_Serialize_def L by (rule iffI) simp_all
  have "\<exists>data. Header_Serialize E b = Inr data \<and> (\<forall>rest. DecodeBlock E (data @ rest) = Inr b)"
    unfolding DecodeBlock_def by (rule decode_reads [OF rb])
  moreover have "Header_Cid E hash b \<noteq> None" by (simp add: cid)
  ultimately show ?thesis using ids sig by (intro conjI)
qed

text \<open>A hash of one byte, the length of the data: it collides, but not on these two headers.\<close>

theorem block_header_identity_witness:
  "Header_Cid wit_cbor_env (\<lambda>d. Inr [char_of (length d)]) (wit_block ''m'' ''t'' [''p''] 5 7) \<noteq>
     Header_Cid wit_cbor_env (\<lambda>d. Inr [char_of (length d)]) (wit_block ''m'' ''t'' [''p''] 5 8)"
proof -
  have v: "BlockHeader_valid wit_cbor_env (wit_block ''m'' ''t'' [''p''] 5 w)" for w
    by (simp add: BlockHeader_valid_def wit_block_def wit_cbor_env_def Ticket_valid_def in_i64_def)
  have len: "map_sum id length (Header_Serialize wit_cbor_env (wit_block ''m'' ''t'' [''p''] 5 7)) = Inr 56"
    "map_sum id length (Header_Serialize wit_cbor_env (wit_block ''m'' ''t'' [''p''] 5 8)) = Inr 57"
    by (simp_all add: Header_Serialize_def BlockHeader_MarshalCBOR_def w_ptr_def lengthBuf_def wit_cbor_env_def wit_block_def
      wit_blob_def wit_num_def Ticket_MarshalCBOR_def ElectionProof_MarshalCBOR_def w_bytes_def w_slice_def w_int_def
      wit_int_def w_uint_def)
  have "(Header_Cid wit_cbor_env (\<lambda>d. Inr [char_of (length d)]) (wit_block ''m'' ''t'' [''p''] 5 7) =
      Header_Cid wit_cbor_env (\<lambda>d. Inr [char_of (length d)]) (wit_block ''m'' ''t'' [''p''] 5 8)) \<longleftrightarrow>
      wit_block ''m'' ''t'' [''p''] 5 7 = wit_block ''m'' ''t'' [''p''] 5 8"
  proof -
    from len obtain x y where xy: "Header_Serialize wit_cbor_env (wit_block ''m'' ''t'' [''p''] 5 7) = Inr x"
      "Header_Serialize wit_cbor_env (wit_block ''m'' ''t'' [''p''] 5 8) = Inr y" "length x = 56" "length y = 57"
      by (auto simp: map_sum_def split: sum.splits)
    show ?thesis
      by (rule block_header_identity [OF wit_cbor_laws v v, THEN conjunct2, THEN conjunct2, THEN conjunct1])
        (use xy in auto)
  qed
  then show ?thesis by (simp add: wit_block_def)
qed

text \<open>
  A message a node serialises is read back by \<open>DecodeMessage\<close> exactly when its version is
  the one the node accepts, and is refused otherwise.
\<close>

theorem DecodeMessage_version:
  assumes "cbor_laws E" and "Message_valid E m"
  shows "\<exists>data. Message_Serialize E m = Inr data \<and>
    (\<forall>rest. DecodeMessage E (data @ rest) = (if msgVersion m = MessageVersion then Inr m else Inl CErrField))"
proof -
  obtain L where L: "E = lib L" using lib_cases [OF assms(1)] .
  have "reads (Message_UnmarshalCBOR E) (Message_Serialize E m) m"
    using assms(2) message_codec.roundtrip by (simp add: L Message_Serialize_def)
  from decode_reads [OF this] show ?thesis by (auto simp: DecodeMessage_def)
qed

theorem DecodeMessage_version_witness:
  "\<exists>data. Message_Serialize wit_cbor_env (wit_msg ''a'' ''b'' 0 1 1 1 0) = Inr data \<and>
     DecodeMessage wit_cbor_env (data @ ''z'') = Inr (wit_msg ''a'' ''b'' 0 1 1 1 0)"
proof -
  have "Message_valid wit_cbor_env (wit_msg ''a'' ''b'' 0 1 1 1 0)"
    by (simp add: Message_valid_def wit_msg_def wit_cbor_env_def in_i64_def)
  from DecodeMessage_version [OF wit_cbor_laws this] show ?thesis
    by (auto simp: wit_msg_def MessageVersion_def)
qed

end
