(* ===== verification/Chain_Store.thy ===== *)
theory Chain_Store
  imports Chain_Index Cbor_Types
begin

text \<open>
  The chain store: \<open>chain/store/store.go\<close>, \<open>chain/store/weight.go\<close> and \<open>chain/store/fts.go\<close>.

  The store is a record; an operation that changes it takes the store and returns the store it
  leaves behind with its result, since error paths leave a changed store. The block store, the
  datastore, the two \<open>lru.ARCCache\<close>s, the HAMT, AMT and CBOR stores and the JSON encoder are
  parameters, held in \<open>cs_env\<close>. A panic is the error \<open>CsPanic\<close>. An error is its cause: what a
  caller wraps around it with \<open>%w\<close> is left out.

  \<open>csReorgCh\<close> holds the reorganisations sent and not yet taken by the worker: those in the buffer
  of the channel and the one whose send waits for room. \<open>csPublished\<close> is what the worker's first
  notifee has published to subscribers.
\<close>

section \<open>Data\<close>

datatype cs_err = CsStore string | CsStores "string list" | CsTree sterr | CsCbor cerr | CsTipSet tserr
  | CsFail string | CsPanic

datatype ChainMsg = BlsMsg Message | SecpkMsg SignedMessage

fun VMMessage :: "ChainMsg \<Rightarrow> Message" where
  "VMMessage (BlsMsg m) = m"
| "VMMessage (SecpkMsg sm) = smMessage sm"

record FullBlock =
  fbHeader :: BlockHeader
  fbBlsMessages :: "Message list"
  fbSecpkMessages :: "SignedMessage list"

record mmCids =
  mmBls :: "cid list"
  mmSecpk :: "cid list"

record ('s, 'd, 'tc, 'mc) cs_env =
  csCbor :: cbor_env
  csHash :: "bytes \<Rightarrow> cerr + cid"
  csSum256 :: "bytes \<Rightarrow> bytes"
  csCidFromBytes :: "bytes \<Rightarrow> string + nat \<times> cid"
  csTree :: tree_env
  bsGet :: "'s \<Rightarrow> cid \<Rightarrow> string + bytes"
  bsHas :: "'s \<Rightarrow> cid \<Rightarrow> string + bool"
  bsPutMany :: "'s \<Rightarrow> storage_block list \<Rightarrow> 's \<times> (string + unit)"
  bsPut :: "'s \<Rightarrow> storage_block \<Rightarrow> 's \<times> (string + unit)"
  dsGet :: "'d \<Rightarrow> string \<Rightarrow> string + bytes option"
  dsPut :: "'d \<Rightarrow> string \<Rightarrow> bytes \<Rightarrow> 'd \<times> (string + unit)"
  dsHas :: "'d \<Rightarrow> string \<Rightarrow> string + bool"
  tsGet :: "'tc \<Rightarrow> TipSetKey \<Rightarrow> TipSet option \<times> 'tc"
  tsAdd :: "'tc \<Rightarrow> TipSetKey \<Rightarrow> TipSet \<Rightarrow> 'tc"
  mmGet :: "'mc \<Rightarrow> cid \<Rightarrow> mmCids option \<times> 'mc"
  mmAdd :: "'mc \<Rightarrow> cid \<Rightarrow> mmCids \<Rightarrow> 'mc"
  csAsMap :: "'s \<Rightarrow> cid \<Rightarrow> sterr + (address \<rightharpoonup> Actor)"
  csPowerState :: "'s \<Rightarrow> cid \<Rightarrow> string + bigint"
  csMsgMeta :: "'s \<Rightarrow> cid \<Rightarrow> string + MsgMeta"
  csAmtCids :: "'s \<Rightarrow> cid \<Rightarrow> string + cid list \<times> uint64"
  csAmtReceipt :: "'s \<Rightarrow> cid \<Rightarrow> uint64 \<Rightarrow> string + MessageReceipt option"
  csJsonMarshal :: "cid list \<Rightarrow> string + bytes"
  csJsonUnmarshal :: "bytes \<Rightarrow> string + cid list"
  csCidCast :: "bytes \<Rightarrow> string + cid"
  csKeyValidation :: "cid \<Rightarrow> string"
  csKeyHead :: string
  csKeyGenesis :: string
  csPowerActor :: address
  csBlocksPerEpoch :: uint64
  csErrorText :: "cs_err \<Rightarrow> string"

record ('s, 'd, 'tc, 'mc) ChainStore =
  csBs :: 's
  csDs :: 'd
  csHeaviest :: "TipSet option"
  csTipsets :: "epoch \<rightharpoonup> cid list"
  csReorgCh :: "(TipSet \<times> TipSet) list"
  csPublished :: "head_change list list"
  csTsCache :: 'tc
  csMmCache :: 'mc

text \<open>The hashes as tipsets use them; \<open>Cid\<close> panics on a header that does not serialise.\<close>

definition csHashEnv :: "('s, 'd, 'tc, 'mc) cs_env \<Rightarrow> hash_env" where
  "csHashEnv C = \<lparr>Sum256 = csSum256 C,
     blockCid = (\<lambda>b. case Header_Cid (csCbor C) (csHash C) b of Some c \<Rightarrow> c | None \<Rightarrow> cid_Undef)\<rparr>"

section \<open>Blocks and tipsets\<close>

definition GetBlock :: "('s, 'd, 'tc, 'mc) cs_env \<Rightarrow> 's \<Rightarrow> cid \<Rightarrow> cs_err + BlockHeader" where
  "GetBlock C s c =
     (case bsGet C s c of Inl e \<Rightarrow> Inl (CsStore e)
      | Inr data \<Rightarrow> map_sum CsCbor id (DecodeBlock (csCbor C) data))"

fun GetBlocks :: "('s, 'd, 'tc, 'mc) cs_env \<Rightarrow> 's \<Rightarrow> cid list \<Rightarrow> cs_err + BlockHeader list" where
  "GetBlocks C s [] = Inr []"
| "GetBlocks C s (c # cs) =
     (case GetBlock C s c of Inl e \<Rightarrow> Inl e
      | Inr b \<Rightarrow> (case GetBlocks C s cs of Inl e \<Rightarrow> Inl e | Inr bl \<Rightarrow> Inr (b # bl)))"

text \<open>The tipset of a key, read from the block store; \<open>None\<close> when the key's decoder does not return.\<close>

definition readTipSet :: "('s, 'd, 'tc, 'mc) cs_env \<Rightarrow> 's \<Rightarrow> TipSetKey \<Rightarrow> (cs_err + TipSet) option" where
  "readTipSet C s tsk =
     (case TipSetKey_Cids (csCidFromBytes C) tsk of None \<Rightarrow> None
      | Some (Inl _) \<Rightarrow> Some (Inl CsPanic)
      | Some (Inr cids) \<Rightarrow>
          (case GetBlocks C s cids of Inl e \<Rightarrow> Some (Inl e)
           | Inr blks \<Rightarrow> Some (map_sum CsTipSet id (NewTipSet (csHashEnv C) blks))))"

definition LoadTipSet ::
  "('s, 'd, 'tc, 'mc) cs_env \<Rightarrow> ('s, 'd, 'tc, 'mc) ChainStore \<Rightarrow> TipSetKey \<Rightarrow>
     (('s, 'd, 'tc, 'mc) ChainStore \<times> (cs_err + TipSet)) option" where
  "LoadTipSet C st tsk =
     (case tsGet C (csTsCache st) tsk of
        (Some ts, tc) \<Rightarrow> Some (st\<lparr>csTsCache := tc\<rparr>, Inr ts)
      | (None, tc) \<Rightarrow>
          (case readTipSet C (csBs st) tsk of None \<Rightarrow> None
           | Some (Inl e) \<Rightarrow> Some (st\<lparr>csTsCache := tc\<rparr>, Inl e)
           | Some (Inr ts) \<Rightarrow> Some (st\<lparr>csTsCache := tsAdd C tc tsk ts\<rparr>, Inr ts)))"

definition GetTipSetFromKey ::
  "('s, 'd, 'tc, 'mc) cs_env \<Rightarrow> ('s, 'd, 'tc, 'mc) ChainStore \<Rightarrow> TipSetKey \<Rightarrow>
     (('s, 'd, 'tc, 'mc) ChainStore \<times> (cs_err + TipSet option)) option" where
  "GetTipSetFromKey C st tsk =
     (if TipSetKey_IsEmpty tsk then Some (st, Inr (csHeaviest st))
      else map_option (map_prod id (map_sum id Some)) (LoadTipSet C st tsk))"

text \<open>The loop of \<open>Contains\<close>.\<close>

fun contains_loop :: "('s, 'd, 'tc, 'mc) cs_env \<Rightarrow> 's \<Rightarrow> cid list \<Rightarrow> cs_err + bool" where
  "contains_loop C s [] = Inr True"
| "contains_loop C s (c # cs) =
     (case bsHas C s c of Inl e \<Rightarrow> Inl (CsStore e)
      | Inr has \<Rightarrow> if \<not> has then Inr False else contains_loop C s cs)"

definition Contains :: "('s, 'd, 'tc, 'mc) cs_env \<Rightarrow> ('s, 'd, 'tc, 'mc) ChainStore \<Rightarrow> TipSet \<Rightarrow> cs_err + bool" where
  "Contains C st ts = contains_loop C (csBs st) (tsCids ts)"

section \<open>Writing blocks\<close>

fun storageBlocks :: "('s, 'd, 'tc, 'mc) cs_env \<Rightarrow> BlockHeader list \<Rightarrow> cs_err + storage_block list" where
  "storageBlocks C [] = Inr []"
| "storageBlocks C (b # bl) =
     (case Header_ToStorageBlock (csCbor C) (csHash C) b of Inl e \<Rightarrow> Inl (CsCbor e)
      | Inr sb \<Rightarrow> (case storageBlocks C bl of Inl e \<Rightarrow> Inl e | Inr sbs \<Rightarrow> Inr (sb # sbs)))"

definition batchSize :: nat where "batchSize = 256"

text \<open>One turn of the loop over the batches; the errors are collected by \<open>multierr.Append\<close>.\<close>

definition persistBatch ::
  "('s, 'd, 'tc, 'mc) cs_env \<Rightarrow> storage_block list \<Rightarrow> nat \<Rightarrow> 's \<times> string list \<Rightarrow> 's \<times> string list" where
  "persistBatch C sbs i acc =
     (let start = batchSize * i; stop = min (start + batchSize) (length sbs);
          (s, r) = bsPutMany C (fst acc) (take (stop - start) (drop start sbs))
      in (s, snd acc @ (case r of Inl e \<Rightarrow> [e] | Inr _ \<Rightarrow> [])))"

definition PersistBlockHeaders ::
  "('s, 'd, 'tc, 'mc) cs_env \<Rightarrow> ('s, 'd, 'tc, 'mc) ChainStore \<Rightarrow> BlockHeader list \<Rightarrow>
     ('s, 'd, 'tc, 'mc) ChainStore \<times> (cs_err + unit)" where
  "PersistBlockHeaders C st bl =
     (case storageBlocks C bl of Inl e \<Rightarrow> (st, Inl e)
      | Inr sbs \<Rightarrow>
          let calls = length bl div batchSize;
              (s, errs) = fold (persistBatch C sbs) [0..<Suc calls] (csBs st, [])
          in (st\<lparr>csBs := s\<rparr>, if errs = [] then Inr () else Inl (CsStores errs)))"

text \<open>\<open>PutMessage\<close> for a message or signed message, given as what \<open>ToStorageBlock\<close> returns.\<close>

definition PutMessage ::
  "('s, 'd, 'tc, 'mc) cs_env \<Rightarrow> ('s, 'd, 'tc, 'mc) ChainStore \<Rightarrow> cerr + storage_block \<Rightarrow>
     ('s, 'd, 'tc, 'mc) ChainStore \<times> (cs_err + cid)" where
  "PutMessage C st m =
     (case m of Inl e \<Rightarrow> (st, Inl (CsCbor e))
      | Inr b \<Rightarrow> (let (s, r) = bsPut C (csBs st) b in
          (st\<lparr>csBs := s\<rparr>, case r of Inl e \<Rightarrow> Inl (CsStore e) | Inr _ \<Rightarrow> Inr (snd b))))"

definition AddToTipSetTracker ::
  "('s, 'd, 'tc, 'mc) cs_env \<Rightarrow> ('s, 'd, 'tc, 'mc) ChainStore \<Rightarrow> BlockHeader \<Rightarrow>
     ('s, 'd, 'tc, 'mc) ChainStore \<times> (cs_err + unit)" where
  "AddToTipSetTracker C st b =
     (let tss = (case csTipsets st (bhHeight b) of None \<Rightarrow> [] | Some t \<Rightarrow> t) in
      case Header_Cid (csCbor C) (csHash C) b of None \<Rightarrow> (st, Inl CsPanic)
      | Some c \<Rightarrow>
          if c \<in> set tss then (st, Inr ())
          else (st\<lparr>csTipsets := (csTipsets st)(bhHeight b \<mapsto> tss @ [c])\<rparr>, Inr ()))"

text \<open>The loop of \<open>expandTipset\<close>: the blocks found so far and the miners they have.\<close>

fun expand_loop ::
  "('s, 'd, 'tc, 'mc) cs_env \<Rightarrow> 's \<Rightarrow> BlockHeader \<Rightarrow> BlockHeader list \<Rightarrow> address set \<Rightarrow> cid list \<Rightarrow>
     cs_err + BlockHeader list" where
  "expand_loop C s b al inclMiners [] = Inr al"
| "expand_loop C s b al inclMiners (bhc # rest) =
     (if bhc = blockCid (csHashEnv C) b then expand_loop C s b al inclMiners rest
      else case GetBlock C s bhc of Inl e \<Rightarrow> Inl e
      | Inr h \<Rightarrow>
          if bhMiner h \<in> inclMiners then expand_loop C s b al inclMiners rest
          else if CidArrsEqual (bhParents h) (bhParents b)
          then expand_loop C s b (al @ [h]) (insert (bhMiner h) inclMiners) rest
          else expand_loop C s b al inclMiners rest)"

definition expandTipset ::
  "('s, 'd, 'tc, 'mc) cs_env \<Rightarrow> ('s, 'd, 'tc, 'mc) ChainStore \<Rightarrow> BlockHeader \<Rightarrow> cs_err + TipSet" where
  "expandTipset C st b =
     (case csTipsets st (bhHeight b) of
        None \<Rightarrow> map_sum CsTipSet id (NewTipSet (csHashEnv C) [b])
      | Some tsets \<Rightarrow>
          (case expand_loop C (csBs st) b [b] {bhMiner b} tsets of Inl e \<Rightarrow> Inl e
           | Inr al \<Rightarrow> map_sum CsTipSet id (NewTipSet (csHashEnv C) al)))"

section \<open>Weight\<close>

fun bitLen :: "nat \<Rightarrow> nat" where
  "bitLen n = (if n = 0 then 0 else Suc (bitLen (n div 2)))"

declare bitLen.simps [simp del]

text \<open>\<open>big.Int.Div\<close> is Euclidean division.\<close>

definition bigDiv :: "int \<Rightarrow> int \<Rightarrow> int" where
  "bigDiv a d = (if 0 < d then a div d else - (a div (- d)))"

definition WRatioNum :: int where "WRatioNum = 1"
definition WRatioDen :: uint64 where "WRatioDen = 2"

text \<open>The sum of win counts, an \<open>int64\<close>; a block without an election proof makes it panic.\<close>

fun winCounts :: "int \<Rightarrow> BlockHeader list \<Rightarrow> cs_err + int" where
  "winCounts totalJ [] = Inr totalJ"
| "winCounts totalJ (b # bl) =
     (case bhElectionProof b of None \<Rightarrow> Inl CsPanic
      | Some ep \<Rightarrow> winCounts (i64 (totalJ + WinCount ep)) bl)"

text \<open>The total power in the state a tipset was built on.\<close>

definition totalPower :: "('s, 'd, 'tc, 'mc) cs_env \<Rightarrow> 's \<Rightarrow> TipSet \<Rightarrow> cs_err + bigint" where
  "totalPower C s ts =
     (case LoadStateTree (csAsMap C s) (bhParentStateRoot (hd (tsBlks ts))) of Inl e \<Rightarrow> Inl (CsTree e)
      | Inr tree \<Rightarrow>
          (case fst (GetActor (csTree C) tree (csPowerActor C)) of Inl e \<Rightarrow> Inl (CsTree e)
           | Inr act \<Rightarrow> map_sum CsStore id (csPowerState C s (actHead act))))"

definition Weight :: "('s, 'd, 'tc, 'mc) cs_env \<Rightarrow> 's \<Rightarrow> TipSet option \<Rightarrow> cs_err + bigint" where
  "Weight C s ots =
     (case ots of None \<Rightarrow> Inr 0
      | Some ts \<Rightarrow>
          (case totalPower C s ts of Inl e \<Rightarrow> Inl e
           | Inr tpow \<Rightarrow>
               if tpow > 0
               then (let log2P = i64 (int (bitLen (nat tpow)) - 1) in
                 case winCounts 0 (tsBlks ts) of Inl e \<Rightarrow> Inl e
                 | Inr totalJ \<Rightarrow>
                     let eWeight = i64 (log2P * WRatioNum) * 2 ^ 8 * totalJ;
                         d = sint (csBlocksPerEpoch C * WRatioDen) in
                     if d = 0 then Inl CsPanic
                     else Inr (bhParentWeight (hd (tsBlks ts)) + i64 (log2P * 2 ^ 8) + bigDiv eWeight d))
               else Inl (CsFail ''All power in the net is gone. You network might be disconnected, or the net is dead!'')))"

section \<open>The head\<close>

definition writeHead ::
  "('s, 'd, 'tc, 'mc) cs_env \<Rightarrow> ('s, 'd, 'tc, 'mc) ChainStore \<Rightarrow> TipSet \<Rightarrow> ('s, 'd, 'tc, 'mc) ChainStore \<times> (cs_err + unit)" where
  "writeHead C st ts =
     (case csJsonMarshal C (tsCids ts) of Inl e \<Rightarrow> (st, Inl (CsStore e))
      | Inr data \<Rightarrow> (let (d, r) = dsPut C (csDs st) (csKeyHead C) data
                     in (st\<lparr>csDs := d\<rparr>, map_sum CsStore id r)))"

text \<open>A failure to write the head is only logged.\<close>

definition takeHeaviestTipSet :: "('s, 'd, 'tc, 'mc) cs_env \<Rightarrow> ('s, 'd, 'tc, 'mc) ChainStore \<Rightarrow> TipSet \<Rightarrow> ('s, 'd, 'tc, 'mc) ChainStore" where
  "takeHeaviestTipSet C st ts =
     (let st1 = (case csHeaviest st of None \<Rightarrow> st
                 | Some old \<Rightarrow> st\<lparr>csReorgCh := csReorgCh st @ [(old, ts)]\<rparr>)
      in fst (writeHead C (st1\<lparr>csHeaviest := Some ts\<rparr>) ts))"

definition MaybeTakeHeavierTipSet ::
  "('s, 'd, 'tc, 'mc) cs_env \<Rightarrow> ('s, 'd, 'tc, 'mc) ChainStore \<Rightarrow> TipSet \<Rightarrow> ('s, 'd, 'tc, 'mc) ChainStore \<times> (cs_err + unit)" where
  "MaybeTakeHeavierTipSet C st ts =
     (case Weight C (csBs st) (Some ts) of Inl e \<Rightarrow> (st, Inl e)
      | Inr w \<Rightarrow>
          (case Weight C (csBs st) (csHeaviest st) of Inl e \<Rightarrow> (st, Inl e)
           | Inr heaviestW \<Rightarrow>
               (if w > heaviestW then takeHeaviestTipSet C st ts else st, Inr ())))"

definition SetHead :: "('s, 'd, 'tc, 'mc) cs_env \<Rightarrow> ('s, 'd, 'tc, 'mc) ChainStore \<Rightarrow> TipSet \<Rightarrow> ('s, 'd, 'tc, 'mc) ChainStore" where
  "SetHead C st ts = takeHeaviestTipSet C st ts"

definition AddBlock :: "('s, 'd, 'tc, 'mc) cs_env \<Rightarrow> ('s, 'd, 'tc, 'mc) ChainStore \<Rightarrow> BlockHeader \<Rightarrow> ('s, 'd, 'tc, 'mc) ChainStore \<times> (cs_err + unit)" where
  "AddBlock C st b =
     (case PersistBlockHeaders C st [b] of (st1, Inl e) \<Rightarrow> (st1, Inl e)
      | (st1, Inr _) \<Rightarrow>
          (case expandTipset C st1 b of Inl e \<Rightarrow> (st1, Inl e)
           | Inr ts \<Rightarrow> MaybeTakeHeavierTipSet C st1 ts))"

fun persistEach :: "('s, 'd, 'tc, 'mc) cs_env \<Rightarrow> ('s, 'd, 'tc, 'mc) ChainStore \<Rightarrow> BlockHeader list \<Rightarrow> ('s, 'd, 'tc, 'mc) ChainStore \<times> (cs_err + unit)" where
  "persistEach C st [] = (st, Inr ())"
| "persistEach C st (b # bl) =
     (case PersistBlockHeaders C st [b] of (st1, Inl e) \<Rightarrow> (st1, Inl e)
      | (st1, Inr _) \<Rightarrow> persistEach C st1 bl)"

definition PutTipSet :: "('s, 'd, 'tc, 'mc) cs_env \<Rightarrow> ('s, 'd, 'tc, 'mc) ChainStore \<Rightarrow> TipSet \<Rightarrow> ('s, 'd, 'tc, 'mc) ChainStore \<times> (cs_err + unit)" where
  "PutTipSet C st ts =
     (case persistEach C st (tsBlks ts) of (st1, Inl e) \<Rightarrow> (st1, Inl e)
      | (st1, Inr _) \<Rightarrow>
          (case expandTipset C st1 (hd (tsBlks ts)) of Inl e \<Rightarrow> (st1, Inl e)
           | Inr expanded \<Rightarrow> MaybeTakeHeavierTipSet C st1 expanded))"

definition SetGenesis :: "('s, 'd, 'tc, 'mc) cs_env \<Rightarrow> ('s, 'd, 'tc, 'mc) ChainStore \<Rightarrow> BlockHeader \<Rightarrow> ('s, 'd, 'tc, 'mc) ChainStore \<times> (cs_err + unit)" where
  "SetGenesis C st b =
     (case NewTipSet (csHashEnv C) [b] of Inl e \<Rightarrow> (st, Inl (CsTipSet e))
      | Inr ts \<Rightarrow>
          (case PutTipSet C st ts of (st1, Inl e) \<Rightarrow> (st1, Inl e)
           | (st1, Inr _) \<Rightarrow>
               (let (d, r) = dsPut C (csDs st1) (csKeyGenesis C) (blockCid (csHashEnv C) b)
                in (st1\<lparr>csDs := d\<rparr>, map_sum CsStore id r))))"

definition GetGenesis :: "('s, 'd, 'tc, 'mc) cs_env \<Rightarrow> ('s, 'd, 'tc, 'mc) ChainStore \<Rightarrow> cs_err + BlockHeader" where
  "GetGenesis C st =
     (case dsGet C (csDs st) (csKeyGenesis C) of Inl e \<Rightarrow> Inl (CsStore e)
      | Inr None \<Rightarrow> Inl (CsStore ''datastore: key not found'')
      | Inr (Some data) \<Rightarrow>
          (case csCidCast C data of Inl e \<Rightarrow> Inl (CsStore e) | Inr c \<Rightarrow> GetBlock C (csBs st) c))"

text \<open>\<open>Load\<close>, which restores the head a previous run has written.\<close>

definition Load :: "('s, 'd, 'tc, 'mc) cs_env \<Rightarrow> ('s, 'd, 'tc, 'mc) ChainStore \<Rightarrow> (('s, 'd, 'tc, 'mc) ChainStore \<times> (cs_err + unit)) option" where
  "Load C st =
     (case dsGet C (csDs st) (csKeyHead C) of Inl e \<Rightarrow> Some (st, Inl (CsStore e))
      | Inr None \<Rightarrow> Some (st, Inr ())
      | Inr (Some h) \<Rightarrow>
          (case csJsonUnmarshal C h of Inl e \<Rightarrow> Some (st, Inl (CsStore e))
           | Inr tscids \<Rightarrow>
               (case LoadTipSet C st (NewTipSetKey tscids) of None \<Rightarrow> None
                | Some (st1, Inl e) \<Rightarrow> Some (st1, Inl e)
                | Some (st1, Inr ts) \<Rightarrow> Some (st1\<lparr>csHeaviest := Some ts\<rparr>, Inr ()))))"

definition IsBlockValidated :: "('s, 'd, 'tc, 'mc) cs_env \<Rightarrow> ('s, 'd, 'tc, 'mc) ChainStore \<Rightarrow> cid \<Rightarrow> cs_err + bool" where
  "IsBlockValidated C st blkid = map_sum CsStore id (dsHas C (csDs st) (csKeyValidation C blkid))"

definition MarkBlockAsValidated :: "('s, 'd, 'tc, 'mc) cs_env \<Rightarrow> ('s, 'd, 'tc, 'mc) ChainStore \<Rightarrow> cid \<Rightarrow> ('s, 'd, 'tc, 'mc) ChainStore \<times> (cs_err + unit)" where
  "MarkBlockAsValidated C st blkid =
     (let (d, r) = dsPut C (csDs st) (csKeyValidation C blkid) [CHR 0x00]
      in (st\<lparr>csDs := d\<rparr>, map_sum CsStore id r))"

text \<open>
  Loading a tipset, as the walks over the chain use it: they keep no track of the cache, which
  does not show in what is loaded.
\<close>

definition csLoader :: "('s, 'd, 'tc, 'mc) cs_env \<Rightarrow> ('s, 'd, 'tc, 'mc) ChainStore \<Rightarrow> loader" where
  "csLoader C st tsk =
     (case LoadTipSet C st tsk of Some (_, Inr ts) \<Rightarrow> Inr ts
      | Some (_, Inl e) \<Rightarrow> Inl (csErrorText C e)
      | None \<Rightarrow> Inl ''no return'')"

text \<open>
  One turn of the worker: it takes a reorganisation from the channel and publishes it; when the
  tipsets in between cannot be computed, it drops it. \<open>None\<close> when the computation does not return.
\<close>

definition reorgWorker :: "('s, 'd, 'tc, 'mc) cs_env \<Rightarrow> ('s, 'd, 'tc, 'mc) ChainStore \<Rightarrow> ('s, 'd, 'tc, 'mc) ChainStore option" where
  "reorgWorker C st =
     (case csReorgCh st of [] \<Rightarrow> Some st
      | (old, new) # rest \<Rightarrow>
          (case reorg_notice (csHashEnv C) (csLoader C st) old new of None \<Rightarrow> None
           | Some (Inl e) \<Rightarrow> Some (st\<lparr>csReorgCh := rest\<rparr>)
           | Some (Inr (revert, apply_ts)) \<Rightarrow>
               Some (st\<lparr>csReorgCh := rest, csPublished := csPublished st @ [hcnf revert apply_ts]\<rparr>)))"

section \<open>Messages\<close>

definition GetMessage :: "('s, 'd, 'tc, 'mc) cs_env \<Rightarrow> 's \<Rightarrow> cid \<Rightarrow> cs_err + Message" where
  "GetMessage C s c =
     (case bsGet C s c of Inl e \<Rightarrow> Inl (CsStore e)
      | Inr data \<Rightarrow> map_sum CsCbor id (DecodeMessage (csCbor C) data))"

definition GetSignedMessage :: "('s, 'd, 'tc, 'mc) cs_env \<Rightarrow> 's \<Rightarrow> cid \<Rightarrow> cs_err + SignedMessage" where
  "GetSignedMessage C s c =
     (case bsGet C s c of Inl e \<Rightarrow> Inl (CsStore e)
      | Inr data \<Rightarrow> map_sum CsCbor id (DecodeSignedMessage (csCbor C) data))"

definition GetCMessage :: "('s, 'd, 'tc, 'mc) cs_env \<Rightarrow> 's \<Rightarrow> cid \<Rightarrow> cs_err + ChainMsg" where
  "GetCMessage C s c =
     (case GetMessage C s c of Inr m \<Rightarrow> Inr (BlsMsg m)
      | Inl _ \<Rightarrow> map_sum id SecpkMsg (GetSignedMessage C s c))"

text \<open>The format of this error puts the cause in the wrong place, where it is not wrapped.\<close>

definition ErrGetMessage :: cs_err where "ErrGetMessage = CsFail ''failed to get message''"

fun LoadMessagesFromCids :: "('s, 'd, 'tc, 'mc) cs_env \<Rightarrow> 's \<Rightarrow> cid list \<Rightarrow> cs_err + Message list" where
  "LoadMessagesFromCids C s [] = Inr []"
| "LoadMessagesFromCids C s (c # cs) =
     (case GetMessage C s c of Inl _ \<Rightarrow> Inl ErrGetMessage
      | Inr m \<Rightarrow> (case LoadMessagesFromCids C s cs of Inl e \<Rightarrow> Inl e | Inr ms \<Rightarrow> Inr (m # ms)))"

fun LoadSignedMessagesFromCids :: "('s, 'd, 'tc, 'mc) cs_env \<Rightarrow> 's \<Rightarrow> cid list \<Rightarrow> cs_err + SignedMessage list" where
  "LoadSignedMessagesFromCids C s [] = Inr []"
| "LoadSignedMessagesFromCids C s (c # cs) =
     (case GetSignedMessage C s c of Inl _ \<Rightarrow> Inl ErrGetMessage
      | Inr m \<Rightarrow> (case LoadSignedMessagesFromCids C s cs of Inl e \<Rightarrow> Inl e | Inr ms \<Rightarrow> Inr (m # ms)))"

definition readAMTCids :: "('s, 'd, 'tc, 'mc) cs_env \<Rightarrow> 's \<Rightarrow> cid \<Rightarrow> cs_err + cid list" where
  "readAMTCids C s rt =
     (case csAmtCids C s rt of Inl e \<Rightarrow> Inl (CsStore e)
      | Inr (cids, len) \<Rightarrow>
          if word_of_nat (length cids) \<noteq> len then Inl (CsFail ''found cids, expected length'') else Inr cids)"

definition readMsgMetaCids ::
  "('s, 'd, 'tc, 'mc) cs_env \<Rightarrow> ('s, 'd, 'tc, 'mc) ChainStore \<Rightarrow> cid \<Rightarrow> ('s, 'd, 'tc, 'mc) ChainStore \<times> (cs_err + cid list \<times> cid list)" where
  "readMsgMetaCids C st mmc =
     (case mmGet C (csMmCache st) mmc of
        (Some o1, mc) \<Rightarrow> (st\<lparr>csMmCache := mc\<rparr>, Inr (mmBls o1, mmSecpk o1))
      | (None, mc) \<Rightarrow>
          (let st1 = st\<lparr>csMmCache := mc\<rparr> in
           case csMsgMeta C (csBs st) mmc of Inl e \<Rightarrow> (st1, Inl (CsStore e))
           | Inr msgmeta \<Rightarrow>
               (case readAMTCids C (csBs st) (mmBlsMessages msgmeta) of Inl e \<Rightarrow> (st1, Inl e)
                | Inr blscids \<Rightarrow>
                    (case readAMTCids C (csBs st) (mmSecpkMessages msgmeta) of Inl e \<Rightarrow> (st1, Inl e)
                     | Inr secpkcids \<Rightarrow>
                         (st\<lparr>csMmCache := mmAdd C mc mmc \<lparr>mmBls = blscids, mmSecpk = secpkcids\<rparr>\<rparr>,
                          Inr (blscids, secpkcids))))))"

definition MessagesForBlock ::
  "('s, 'd, 'tc, 'mc) cs_env \<Rightarrow> ('s, 'd, 'tc, 'mc) ChainStore \<Rightarrow> BlockHeader \<Rightarrow>
     ('s, 'd, 'tc, 'mc) ChainStore \<times> (cs_err + Message list \<times> SignedMessage list)" where
  "MessagesForBlock C st b =
     (case readMsgMetaCids C st (bhMessages b) of (st1, Inl e) \<Rightarrow> (st1, Inl e)
      | (st1, Inr (blscids, secpkcids)) \<Rightarrow>
          (case LoadMessagesFromCids C (csBs st1) blscids of Inl e \<Rightarrow> (st1, Inl e)
           | Inr blsmsgs \<Rightarrow>
               (case LoadSignedMessagesFromCids C (csBs st1) secpkcids of Inl e \<Rightarrow> (st1, Inl e)
                | Inr secpkmsgs \<Rightarrow> (st1, Inr (blsmsgs, secpkmsgs)))))"

definition GetParentReceipt :: "('s, 'd, 'tc, 'mc) cs_env \<Rightarrow> 's \<Rightarrow> BlockHeader \<Rightarrow> uint64 \<Rightarrow> cs_err + MessageReceipt" where
  "GetParentReceipt C s b i =
     (case csAmtReceipt C s (bhParentMessageReceipts b) i of Inl e \<Rightarrow> Inl (CsStore e)
      | Inr None \<Rightarrow> Inl (CsFail ''failed to find receipt'')
      | Inr (Some r) \<Rightarrow> Inr r)"

text \<open>
  The state of the loops of \<open>MessagesForTipset\<close>: the state tree, whose caches change, and per
  sender the next nonce and the balance left (the maps \<open>applied\<close> and \<open>balances\<close>, which have the
  same keys).
\<close>

type_synonym sel_state = "StateTree \<times> (address \<rightharpoonup> uint64 \<times> bigint)"

definition preloadAddr :: "('s, 'd, 'tc, 'mc) cs_env \<Rightarrow> sel_state \<Rightarrow> address \<Rightarrow> sterr + sel_state" where
  "preloadAddr C ss a =
     (case snd ss a of Some _ \<Rightarrow> Inr ss
      | None \<Rightarrow>
          (case GetActor (csTree C) (fst ss) a of (Inl e, _) \<Rightarrow> Inl e
           | (Inr act, tree) \<Rightarrow> Inr (tree, (snd ss)(a \<mapsto> (actNonce act, actBalance act)))))"

text \<open>A message with the right nonce uses it up, also when it is then left out for its cost.\<close>

fun select_loop ::
  "('s, 'd, 'tc, 'mc) cs_env \<Rightarrow> sel_state \<Rightarrow> ChainMsg list \<Rightarrow> ChainMsg list \<Rightarrow> sterr + sel_state \<times> ChainMsg list" where
  "select_loop C ss out [] = Inr (ss, out)"
| "select_loop C ss out (cm # cms) =
     (let m = VMMessage cm; a = msgFrom m in
      case preloadAddr C ss a of Inl e \<Rightarrow> Inl e
      | Inr ss1 \<Rightarrow>
          (case the (snd ss1 a) of (n, bal) \<Rightarrow>
             if n \<noteq> msgNonce m then select_loop C ss1 out cms
             else if bal < RequiredFunds m
             then select_loop C (fst ss1, (snd ss1)(a \<mapsto> (n + 1, bal))) out cms
             else select_loop C (fst ss1, (snd ss1)(a \<mapsto> (n + 1, bal - RequiredFunds m))) (out @ [cm]) cms))"

fun blocks_loop ::
  "('s, 'd, 'tc, 'mc) cs_env \<Rightarrow> ('s, 'd, 'tc, 'mc) ChainStore \<Rightarrow> sel_state \<Rightarrow> ChainMsg list \<Rightarrow> BlockHeader list \<Rightarrow>
     ('s, 'd, 'tc, 'mc) ChainStore \<times> (cs_err + ChainMsg list)" where
  "blocks_loop C st ss out [] = (st, Inr out)"
| "blocks_loop C st ss out (b # bl) =
     (case MessagesForBlock C st b of (st1, Inl e) \<Rightarrow> (st1, Inl e)
      | (st1, Inr (bms, sms)) \<Rightarrow>
          (case select_loop C ss out (map BlsMsg bms @ map SecpkMsg sms) of Inl e \<Rightarrow> (st1, Inl (CsTree e))
           | Inr (ss1, out1) \<Rightarrow> blocks_loop C st1 ss1 out1 bl))"

definition MessagesForTipset ::
  "('s, 'd, 'tc, 'mc) cs_env \<Rightarrow> ('s, 'd, 'tc, 'mc) ChainStore \<Rightarrow> TipSet \<Rightarrow> ('s, 'd, 'tc, 'mc) ChainStore \<times> (cs_err + ChainMsg list)" where
  "MessagesForTipset C st ts =
     (case LoadStateTree (csAsMap C (csBs st)) (bhParentStateRoot (hd (tsBlks ts))) of
        Inl _ \<Rightarrow> (st, Inl (CsFail ''failed to load state tree''))
      | Inr tree \<Rightarrow> blocks_loop C st (tree, Map.empty) [] (tsBlks ts))"

section \<open>Full tipsets\<close>

text \<open>\<open>TryFillTipSet\<close> returns nil, and no error, when the messages of a block cannot be loaded.\<close>

fun fill_loop ::
  "('s, 'd, 'tc, 'mc) cs_env \<Rightarrow> ('s, 'd, 'tc, 'mc) ChainStore \<Rightarrow> FullBlock list \<Rightarrow> BlockHeader list \<Rightarrow> ('s, 'd, 'tc, 'mc) ChainStore \<times> FullBlock list option" where
  "fill_loop C st out [] = (st, Some out)"
| "fill_loop C st out (b # bl) =
     (case MessagesForBlock C st b of (st1, Inl _) \<Rightarrow> (st1, None)
      | (st1, Inr (bmsgs, smsgs)) \<Rightarrow>
          fill_loop C st1 (out @ [\<lparr>fbHeader = b, fbBlsMessages = bmsgs, fbSecpkMessages = smsgs\<rparr>]) bl)"

definition TryFillTipSet :: "('s, 'd, 'tc, 'mc) cs_env \<Rightarrow> ('s, 'd, 'tc, 'mc) ChainStore \<Rightarrow> TipSet \<Rightarrow> ('s, 'd, 'tc, 'mc) ChainStore \<times> FullBlock list option" where
  "TryFillTipSet C st ts = fill_loop C st [] (tsBlks ts)"

text \<open>A full tipset is its blocks: the tipset in it is never set. A failure of \<open>NewTipSet\<close> panics.\<close>

definition FullTipSet_Cids :: "('s, 'd, 'tc, 'mc) cs_env \<Rightarrow> FullBlock list \<Rightarrow> cid list" where
  "FullTipSet_Cids C fbs = map (\<lambda>fb. blockCid (csHashEnv C) (fbHeader fb)) fbs"

definition FullTipSet_TipSet :: "('s, 'd, 'tc, 'mc) cs_env \<Rightarrow> FullBlock list \<Rightarrow> cs_err + TipSet" where
  "FullTipSet_TipSet C fbs =
     (case NewTipSet (csHashEnv C) (map fbHeader fbs) of Inl _ \<Rightarrow> Inl CsPanic | Inr ts \<Rightarrow> Inr ts)"

section \<open>Randomness\<close>

definition DrawRandomness :: "('s, 'd, 'tc, 'mc) cs_env \<Rightarrow> bytes \<Rightarrow> int \<Rightarrow> epoch \<Rightarrow> bytes \<Rightarrow> bytes" where
  "DrawRandomness C rbase pers rnd entropy =
     csSum256 C (be64 (word_of_int pers) @ csSum256 C rbase @ be64 (word_of_int rnd) @ entropy)"

definition store_GetRandomness ::
  "('s, 'd, 'tc, 'mc) cs_env \<Rightarrow> 'c skip_cache \<Rightarrow> ('s, 'd, 'tc, 'mc) ChainStore \<Rightarrow> 'c \<Rightarrow> cid list \<Rightarrow> int \<Rightarrow> epoch \<Rightarrow> bytes \<Rightarrow>
     ('c \<times> (string + bytes)) option" where
  "store_GetRandomness C SC st sc blks pers rnd entropy =
     (case csLoader C st (NewTipSetKey blks) of Inl e \<Rightarrow> Some (sc, Inl e)
      | Inr ts \<Rightarrow>
          if rnd > tsHeight ts then Some (sc, Inl ''cannot draw randomness from the future'')
          else let searchHeight = (if rnd < 0 then 0 else rnd) in
            map_option (map_prod id (\<lambda>r. case r of Inl e \<Rightarrow> Inl e
              | Inr randTs \<Rightarrow>
                  (case bhTicket (MinTicketBlock (csHashEnv C) randTs) of None \<Rightarrow> Inl PanicNil
                   | Some t \<Rightarrow> Inr (DrawRandomness C (VRFProof t) pers rnd entropy))))
              (GetTipsetByHeight SC (csLoader C st) (csHeaviest st) sc searchHeight (Some ts) True))"

section \<open>A store to apply the properties to\<close>

text \<open>
  The CID of a header is its miner, the tipset cache holds the tipsets of the example chain, and
  the state has the accounts of the example tree with a power of 8.
\<close>

definition wit_cs :: "(unit, unit, unit, unit) cs_env" where
  "wit_cs = \<lparr>csCbor = wit_cbor_env, csHash = (\<lambda>bs. Inr [bs ! 4]), csSum256 = id,
     csCidFromBytes = (\<lambda>bs. case bs of [] \<Rightarrow> Inl ''eof'' | c # _ \<Rightarrow> Inr (1, [c])), csTree = wit_tree_env,
     bsGet = (\<lambda>s c. Inl ''not found''), bsHas = (\<lambda>s c. Inr False), bsPutMany = (\<lambda>s bl. (s, Inr ())),
     bsPut = (\<lambda>s b. (s, Inr ())), dsGet = (\<lambda>d k. Inr None), dsPut = (\<lambda>d k v. (d, Inr ())), dsHas = (\<lambda>d k. Inr False),
     tsGet = (\<lambda>tc k. (case wit_load k of Inl _ \<Rightarrow> None | Inr t \<Rightarrow> Some t, tc)), tsAdd = (\<lambda>tc k t. tc),
     mmGet = (\<lambda>mc c. (None, mc)), mmAdd = (\<lambda>mc c m. mc),
     csAsMap = (\<lambda>s c. Inr (root wit_tree)), csPowerState = (\<lambda>s c. Inr 8), csMsgMeta = (\<lambda>s c. Inl ''not found''),
     csAmtCids = (\<lambda>s c. Inl ''not found''), csAmtReceipt = (\<lambda>s c i. Inl ''not found''),
     csJsonMarshal = (\<lambda>cs. Inr (concat cs)), csJsonUnmarshal = (\<lambda>bs. Inr (map (\<lambda>c. [c]) bs)), csCidCast = Inr,
     csKeyValidation = (\<lambda>c. ''v'' @ c), csKeyHead = ''head'', csKeyGenesis = ''0'', csPowerActor = ''05'',
     csBlocksPerEpoch = 5, csErrorText = (\<lambda>e. ''err'')\<rparr>"

definition wit_store :: "(unit, unit, unit, unit) ChainStore" where
  "wit_store = \<lparr>csBs = (), csDs = (), csHeaviest = Some wit_r, csTipsets = Map.empty, csReorgCh = [], csPublished = [],
     csTsCache = (), csMmCache = ()\<rparr>"

end
