(* ===== verification/Chain_Head.thy ===== *)
theory Chain_Head
  imports Chain_Store
begin

text \<open>
  Properties of the chain store: which tipset is the head, and what subscribers are told of its
  changes.
\<close>

section \<open>Runs of the store\<close>

datatype cs_op = OpAddBlock BlockHeader | OpPutTipSet TipSet | OpTrack BlockHeader | OpSetHead TipSet
  | OpMark cid | OpMessages TipSet | OpWorker

text \<open>An operation called from outside, or a turn of the reorganisation worker.\<close>

fun cs_exec ::
  "('s, 'd, 'tc, 'mc) cs_env \<Rightarrow> ('s, 'd, 'tc, 'mc) ChainStore \<Rightarrow> cs_op \<Rightarrow> ('s, 'd, 'tc, 'mc) ChainStore option" where
  "cs_exec C st (OpAddBlock b) = Some (fst (AddBlock C st b))"
| "cs_exec C st (OpPutTipSet ts) = Some (fst (PutTipSet C st ts))"
| "cs_exec C st (OpTrack b) = Some (fst (AddToTipSetTracker C st b))"
| "cs_exec C st (OpSetHead ts) = Some (SetHead C st ts)"
| "cs_exec C st (OpMark c) = Some (fst (MarkBlockAsValidated C st c))"
| "cs_exec C st (OpMessages ts) = Some (fst (MessagesForTipset C st ts))"
| "cs_exec C st OpWorker = reorgWorker C st"

fun cs_run ::
  "('s, 'd, 'tc, 'mc) cs_env \<Rightarrow> ('s, 'd, 'tc, 'mc) ChainStore \<Rightarrow> cs_op list \<Rightarrow> ('s, 'd, 'tc, 'mc) ChainStore option" where
  "cs_run C st [] = Some st"
| "cs_run C st (p # ps) = Option.bind (cs_exec C st p) (\<lambda>st1. cs_run C st1 ps)"

section \<open>The head and the channel\<close>

text \<open>What an operation does to the head: nothing, or it sends the change and takes a new head.\<close>

definition head_moves ::
  "('s, 'd, 'tc, 'mc) ChainStore \<Rightarrow> ('s, 'd, 'tc, 'mc) ChainStore \<Rightarrow> TipSet option \<Rightarrow> bool" where
  "head_moves st st' ch \<longleftrightarrow> csPublished st' = csPublished st \<and>
     (case ch of None \<Rightarrow> csHeaviest st' = csHeaviest st \<and> csReorgCh st' = csReorgCh st
      | Some ts \<Rightarrow> csHeaviest st' = Some ts \<and>
          csReorgCh st' = csReorgCh st @ (case csHeaviest st of None \<Rightarrow> [] | Some old \<Rightarrow> [(old, ts)]))"

lemma head_moves_refl [simp]: "head_moves st st None"
  by (simp add: head_moves_def)

lemma writeHead_keeps [simp]:
  "csHeaviest (fst (writeHead C st ts)) = csHeaviest st" "csReorgCh (fst (writeHead C st ts)) = csReorgCh st"
  "csPublished (fst (writeHead C st ts)) = csPublished st" "csBs (fst (writeHead C st ts)) = csBs st"
  "csTipsets (fst (writeHead C st ts)) = csTipsets st"
  by (simp_all add: writeHead_def Let_def split: sum.splits prod.splits)

lemma takeHeaviest_moves: "head_moves st (takeHeaviestTipSet C st ts) (Some ts)"
  by (simp add: head_moves_def takeHeaviestTipSet_def Let_def split: option.splits)

lemma takeHeaviest_keeps [simp]:
  "csBs (takeHeaviestTipSet C st ts) = csBs st" "csTipsets (takeHeaviestTipSet C st ts) = csTipsets st"
  by (simp_all add: takeHeaviestTipSet_def Let_def split: option.splits)

lemma MaybeTake_keeps [simp]:
  "csBs (fst (MaybeTakeHeavierTipSet C st ts)) = csBs st" "csTipsets (fst (MaybeTakeHeavierTipSet C st ts)) = csTipsets st"
  by (simp_all add: MaybeTakeHeavierTipSet_def split: sum.splits)

lemma MaybeTake_moves:
  "head_moves st (fst (MaybeTakeHeavierTipSet C st ts)) None \<or> head_moves st (fst (MaybeTakeHeavierTipSet C st ts)) (Some ts)"
  using takeHeaviest_moves [of st C ts] by (auto simp: MaybeTakeHeavierTipSet_def split: sum.splits)

lemma Persist_keeps [simp]:
  "csHeaviest (fst (PersistBlockHeaders C st bl)) = csHeaviest st" "csReorgCh (fst (PersistBlockHeaders C st bl)) = csReorgCh st"
  "csPublished (fst (PersistBlockHeaders C st bl)) = csPublished st" "csTipsets (fst (PersistBlockHeaders C st bl)) = csTipsets st"
  by (simp_all add: PersistBlockHeaders_def Let_def split: sum.splits prod.splits)

lemma persistEach_keeps [simp]:
  "csHeaviest (fst (persistEach C st bl)) = csHeaviest st \<and> csReorgCh (fst (persistEach C st bl)) = csReorgCh st \<and>
   csPublished (fst (persistEach C st bl)) = csPublished st \<and> csTipsets (fst (persistEach C st bl)) = csTipsets st"
proof (induction bl arbitrary: st)
  case (Cons b bl)
  obtain st1 r where p: "PersistBlockHeaders C st [b] = (st1, r)" by fastforce
  with Persist_keeps [of C st "[b]"] Cons.IH [of st1] show ?case by (cases r) auto
qed simp

lemma head_moves_trans:
  assumes "csHeaviest st1 = csHeaviest st" "csReorgCh st1 = csReorgCh st" "csPublished st1 = csPublished st"
  shows "head_moves st1 st' ch = head_moves st st' ch"
  using assms by (simp add: head_moves_def cong: option.case_cong)

lemma AddBlock_moves: "\<exists>ch. head_moves st (fst (AddBlock C st b)) ch"
proof -
  obtain st1 r where p: "PersistBlockHeaders C st [b] = (st1, r)" by fastforce
  have k: "csHeaviest st1 = csHeaviest st" "csReorgCh st1 = csReorgCh st" "csPublished st1 = csPublished st"
    using Persist_keeps [of C st "[b]"] p by simp_all
  have "head_moves st st1 None" using k by (simp add: head_moves_def)
  moreover have "\<exists>ch. head_moves st (fst (MaybeTakeHeavierTipSet C st1 ts)) ch" for ts
    using MaybeTake_moves [of st1 C ts] head_moves_trans [OF k] by auto
  ultimately show ?thesis using p by (auto simp: AddBlock_def split: sum.splits)
qed

lemma PutTipSet_moves: "\<exists>ch. head_moves st (fst (PutTipSet C st ts)) ch"
proof -
  obtain st1 r where p: "persistEach C st (tsBlks ts) = (st1, r)" by fastforce
  have k: "csHeaviest st1 = csHeaviest st" "csReorgCh st1 = csReorgCh st" "csPublished st1 = csPublished st"
    using persistEach_keeps [of C st "tsBlks ts"] p by simp_all
  have "head_moves st st1 None" using k by (simp add: head_moves_def)
  moreover have "\<exists>ch. head_moves st (fst (MaybeTakeHeavierTipSet C st1 ts)) ch" for ts
    using MaybeTake_moves [of st1 C ts] head_moves_trans [OF k] by auto
  ultimately show ?thesis using p by (auto simp: PutTipSet_def split: sum.splits)
qed

definition msgs_keep :: "('s, 'd, 'tc, 'mc) ChainStore \<Rightarrow> ('s, 'd, 'tc, 'mc) ChainStore \<Rightarrow> bool" where
  "msgs_keep st st' \<longleftrightarrow> csHeaviest st' = csHeaviest st \<and> csReorgCh st' = csReorgCh st \<and>
     csPublished st' = csPublished st \<and> csBs st' = csBs st \<and> csTipsets st' = csTipsets st"

lemma MessagesForBlock_keeps: "msgs_keep st (fst (MessagesForBlock C st b))"
  by (auto simp: MessagesForBlock_def readMsgMetaCids_def msgs_keep_def Let_def split: sum.splits prod.splits option.splits)

lemma blocks_loop_keeps: "msgs_keep st (fst (blocks_loop C st ss out bl))"
proof (induction bl arbitrary: st ss out)
  case Nil
  then show ?case by (simp add: msgs_keep_def)
next
  case (Cons b bl)
  obtain st1 r where m: "MessagesForBlock C st b = (st1, r)" by fastforce
  have k: "msgs_keep st st1" using MessagesForBlock_keeps [of st C b] m by simp
  have "msgs_keep st1 st' \<Longrightarrow> msgs_keep st st'" for st' using k by (simp add: msgs_keep_def)
  with k m Cons.IH [of st1] show ?case by (auto split: sum.splits)
qed

lemma MessagesForTipset_keeps: "msgs_keep st (fst (MessagesForTipset C st ts))"
  using blocks_loop_keeps [of st C] by (auto simp: MessagesForTipset_def msgs_keep_def split: sum.splits)

lemma cs_exec_moves:
  assumes "p \<noteq> OpWorker"
  shows "\<exists>st' ch. cs_exec C st p = Some st' \<and> head_moves st st' ch"
proof (cases p)
  case (OpSetHead ts)
  then show ?thesis using takeHeaviest_moves [of st C ts] by (auto simp: SetHead_def)
next
  case (OpMessages ts)
  have "head_moves st (fst (MessagesForTipset C st ts)) None"
    using MessagesForTipset_keeps [of st C ts] by (simp add: msgs_keep_def head_moves_def)
  with OpMessages show ?thesis by auto
next
  case (OpTrack b)
  have "head_moves st (fst (AddToTipSetTracker C st b)) None"
    by (simp add: AddToTipSetTracker_def head_moves_def Let_def split: option.splits)
  with OpTrack show ?thesis by auto
next
  case (OpMark c)
  have "head_moves st (fst (MarkBlockAsValidated C st c)) None"
    by (simp add: MarkBlockAsValidated_def head_moves_def Let_def split: prod.splits)
  with OpMark show ?thesis by auto
qed (use assms AddBlock_moves [of st C] PutTipSet_moves [of st C] in auto)

section \<open>Subscribers\<close>

text \<open>
  A subscriber's view of the chain, the head first, as it follows a notification: a reverted
  tipset must be on top, an applied one goes on top.
\<close>

fun follow :: "head_change list \<Rightarrow> TipSet list \<Rightarrow> TipSet list option" where
  "follow [] v = Some v"
| "follow (HCRevert t # hcs) v = (case v of [] \<Rightarrow> None | u # us \<Rightarrow> if u = t then follow hcs us else None)"
| "follow (HCApply t # hcs) v = follow hcs (t # v)"
| "follow (HCCurrent t # hcs) v = None"

lemma follow_append: "follow (xs @ ys) v = Option.bind (follow xs v) (follow ys)"
  by (induction xs v rule: follow.induct) (auto split: list.splits)

lemma follow_revert: "follow (map HCRevert l) (l @ v) = Some v"
  by (induction l) auto

lemma follow_apply: "follow (map HCApply l) v = Some (rev l @ v)"
  by (induction l arbitrary: v) auto

text \<open>The reorganisations sent lead from one tipset to another.\<close>

fun linked :: "TipSet \<Rightarrow> (TipSet \<times> TipSet) list \<Rightarrow> TipSet \<Rightarrow> bool" where
  "linked h [] h' \<longleftrightarrow> h = h'"
| "linked h ((old, new) # rs) h' \<longleftrightarrow> old = h \<and> linked new rs h'"

lemma linked_append: "linked h (rs @ [(a, b)]) h' \<longleftrightarrow> linked h rs a \<and> b = h'"
  by (induction h rs a rule: linked.induct) auto

text \<open>
  The chains of the tipsets in \<open>S\<close>, as \<open>chn\<close> gives them, can be loaded and lead to one genesis, and
  their tipsets are made of blocks with different CIDs.
\<close>

definition loads_ok ::
  "('s, 'd, 'tc, 'mc) cs_env \<Rightarrow> (TipSet \<Rightarrow> TipSet list) \<Rightarrow> TipSet set \<Rightarrow> ('s, 'd, 'tc, 'mc) ChainStore \<Rightarrow> bool" where
  "loads_ok C chn S st \<longleftrightarrow>
     (\<forall>t \<in> S. chain_ok (csLoader C st) (t # chn t)) \<and> (\<forall>t \<in> S. \<forall>u \<in> S. last (t # chn t) = last (u # chn u)) \<and>
     told_apart (csHashEnv C) (\<Union>t \<in> S. set (t # chn t))"

text \<open>Along a run, every head is in \<open>S\<close>, and the chains can be loaded whenever the worker runs.\<close>

fun run_ok ::
  "('s, 'd, 'tc, 'mc) cs_env \<Rightarrow> (TipSet \<Rightarrow> TipSet list) \<Rightarrow> TipSet set \<Rightarrow> ('s, 'd, 'tc, 'mc) ChainStore \<Rightarrow> cs_op list \<Rightarrow> bool" where
  "run_ok C chn S st [] \<longleftrightarrow> (\<exists>t \<in> S. csHeaviest st = Some t)"
| "run_ok C chn S st (p # ps) \<longleftrightarrow> (\<exists>t \<in> S. csHeaviest st = Some t) \<and> (p = OpWorker \<longrightarrow> loads_ok C chn S st) \<and>
     (case cs_exec C st p of None \<Rightarrow> True | Some st1 \<Rightarrow> run_ok C chn S st1 ps)"

text \<open>A turn of the worker: the notification takes a view of the old chain to the new one.\<close>

lemma reorgWorker_follow:
  assumes "loads_ok C chn S st" "h \<in> S" "new \<in> S" "csReorgCh st = (h, new) # rest"
  shows "\<exists>hcs. reorgWorker C st = Some (st\<lparr>csReorgCh := rest, csPublished := csPublished st @ [hcs]\<rparr>) \<and>
    follow hcs (h # chn h) = Some (new # chn new)"
proof -
  have "told_apart (csHashEnv C) (set (h # chn h) \<union> set (new # chn new))"
    using assms(1-3) unfolding loads_ok_def by (blast intro: told_apart_subset)
  moreover have "chain_ok (csLoader C st) (h # chn h)" "chain_ok (csLoader C st) (new # chn new)"
      "last (h # chn h) = last (new # chn new)"
    using assms(1-3) unfolding loads_ok_def by blast+
  ultimately obtain l r us where o: "h # chn h = l @ us" "new # chn new = r @ us"
      "ReorgOps_loop (csHashEnv C) (csLoader C st) h new [] [] = Some (Inr ([] @ l, [] @ r))"
    using ReorgOps_loop_chain [of "csLoader C st" h "chn h" new "chn new" "csHashEnv C" "[]" "[]"] by blast
  have "reorgWorker C st = Some (st\<lparr>csReorgCh := rest, csPublished := csPublished st @ [hcnf l (rev r)]\<rparr>)"
    using assms(4) o(3) by (simp add: reorgWorker_def reorg_notice_def ReorgOps_def reverse_slice_rev)
  moreover have "follow (hcnf l (rev r)) (h # chn h) = Some (new # chn new)"
    unfolding o(1,2) by (simp add: hcnf_def follow_append follow_revert follow_apply)
  ultimately show ?thesis by blast
qed

lemma cs_run_tracks:
  assumes "run_ok C chn S st ps" "csHeaviest st = Some hd1" "linked h (csReorgCh st) hd1" "h \<in> S"
    and "snd ` set (csReorgCh st) \<subseteq> S"
  shows "\<exists>st' h' hd' pub. cs_run C st ps = Some st' \<and> csHeaviest st' = Some hd' \<and> linked h' (csReorgCh st') hd' \<and>
    csPublished st' = csPublished st @ pub \<and> follow (concat pub) (h # chn h) = Some (h' # chn h')"
  using assms
proof (induction ps arbitrary: st hd1 h)
  case Nil
  then show ?case by auto
next
  case (Cons p ps)
  show ?case
  proof (cases "p = OpWorker \<and> csReorgCh st \<noteq> []")
    case True
    then obtain new rest where q: "csReorgCh st = (h, new) # rest" using Cons.prems(3)
      by (cases "csReorgCh st") auto
    have new: "new \<in> S" "linked new rest hd1" "snd ` set rest \<subseteq> S" using q Cons.prems(3,5) by auto
    have "loads_ok C chn S st" using Cons.prems(1) True by simp
    then obtain hcs where w: "reorgWorker C st = Some (st\<lparr>csReorgCh := rest, csPublished := csPublished st @ [hcs]\<rparr>)"
        (is "_ = Some ?st1") "follow hcs (h # chn h) = Some (new # chn new)"
      using reorgWorker_follow [OF _ Cons.prems(4) new(1) q] by blast
    have "run_ok C chn S ?st1 ps" using Cons.prems(1) True w(1) by simp
    from Cons.IH [OF this, of hd1 new] Cons.prems(2) new obtain st' h' hd' pub where r: "cs_run C ?st1 ps = Some st'"
      "csHeaviest st' = Some hd'" "linked h' (csReorgCh st') hd'"
      "csPublished st' = csPublished st @ hcs # pub" "follow (concat pub) (new # chn new) = Some (h' # chn h')" by auto
    have "follow (concat (hcs # pub)) (h # chn h) = Some (h' # chn h')"
      using w(2) r(5) by (simp add: follow_append)
    with r True w(1) show ?thesis by auto
  next
    case False
    have "p = OpWorker \<Longrightarrow> cs_exec C st p = Some st" using False by (simp add: reorgWorker_def)
    then obtain st1 ch where e: "cs_exec C st p = Some st1" "head_moves st st1 ch"
      using cs_exec_moves [of p C st] head_moves_refl [of st] by blast
    then have ok: "run_ok C chn S st1 ps" using Cons.prems(1) by simp
    then obtain hd2 where h2: "hd2 \<in> S" "csHeaviest st1 = Some hd2" by (cases ps) auto
    have q: "linked h (csReorgCh st1) hd2" "snd ` set (csReorgCh st1) \<subseteq> S" "csPublished st1 = csPublished st"
      using e(2) Cons.prems(2,3,5) h2 by (auto simp: head_moves_def linked_append split: option.splits)
    from Cons.IH [OF ok h2(2) q(1) Cons.prems(4) q(2)] e(1) q(3) show ?thesis by simp
  qed
qed

section \<open>The tipset around a block\<close>

lemma expand_loop_spec:
  assumes "expand_loop C s b al incl cs = Inr al'" "incl = bhMiner ` set al" "distinct (map bhMiner al)"
  shows "(\<exists>xs. al' = al @ xs) \<and> distinct (map bhMiner al') \<and>
    (\<forall>c \<in> set cs. \<forall>h. c \<noteq> blockCid (csHashEnv C) b \<longrightarrow> GetBlock C s c = Inr h \<longrightarrow>
       CidArrsEqual (bhParents h) (bhParents b) \<longrightarrow> bhMiner h \<in> bhMiner ` set al')"
  using assms
proof (induction cs arbitrary: al incl)
  case (Cons c cs)
  show ?case
  proof (cases "c = blockCid (csHashEnv C) b")
    case True
    with Cons show ?thesis by auto
  next
    case False
    then obtain h where h: "GetBlock C s c = Inr h" using Cons.prems(1) by (auto split: sum.splits)
    define al1 where "al1 = (if bhMiner h \<notin> incl \<and> CidArrsEqual (bhParents h) (bhParents b) then al @ [h] else al)"
    have "expand_loop C s b al1 (bhMiner ` set al1) cs = Inr al'" "distinct (map bhMiner al1)"
      using Cons.prems False h by (auto simp: al1_def split: if_splits)
    from Cons.IH [OF this(1) refl this(2)] have r: "\<exists>xs. al' = al1 @ xs" "distinct (map bhMiner al')"
      "\<forall>c \<in> set cs. \<forall>h. c \<noteq> blockCid (csHashEnv C) b \<longrightarrow> GetBlock C s c = Inr h \<longrightarrow>
         CidArrsEqual (bhParents h) (bhParents b) \<longrightarrow> bhMiner h \<in> bhMiner ` set al'" by blast+
    have "CidArrsEqual (bhParents h) (bhParents b) \<Longrightarrow> bhMiner h \<in> bhMiner ` set al1"
      using Cons.prems(2) by (auto simp: al1_def)
    moreover have "set al1 \<subseteq> set al'" using r(1) by auto
    ultimately have "CidArrsEqual (bhParents h) (bhParents b) \<Longrightarrow> bhMiner h \<in> bhMiner ` set al'" by blast
    moreover have "\<exists>xs. al' = al @ xs" using r(1) by (auto simp: al1_def split: if_splits)
    ultimately show ?thesis using r(2,3) h by auto
  qed
qed auto

lemma expandTipset_cong:
  assumes "csBs st' = csBs st" "csTipsets st' = csTipsets st"
  shows "expandTipset C st' b = expandTipset C st b"
  unfolding expandTipset_def assms ..

lemma map_sum_Inr: "map_sum f id x = Inr y \<longleftrightarrow> x = Inr y"
  by (cases x) auto

lemma expandTipset_spec:
  assumes "expandTipset C st b = Inr ts"
  shows "b \<in> set (tsBlks ts) \<and> (\<forall>h \<in> set (tsBlks ts). bhHeight h = bhHeight b \<and> bhParents h = bhParents b) \<and>
    distinct (map bhMiner (tsBlks ts)) \<and>
    (\<forall>c \<in> set (case csTipsets st (bhHeight b) of None \<Rightarrow> [] | Some cs \<Rightarrow> cs). \<forall>h. c \<noteq> blockCid (csHashEnv C) b \<longrightarrow>
       GetBlock C (csBs st) c = Inr h \<longrightarrow> CidArrsEqual (bhParents h) (bhParents b) \<longrightarrow>
       bhMiner h \<in> bhMiner ` set (tsBlks ts))"
proof -
  let ?tracked = "case csTipsets st (bhHeight b) of None \<Rightarrow> [] | Some cs \<Rightarrow> cs"
  obtain al where al: "expand_loop C (csBs st) b [b] {bhMiner b} ?tracked = Inr al" "NewTipSet (csHashEnv C) al = Inr ts"
    using assms by (auto simp: expandTipset_def map_sum_Inr split: option.splits sum.splits)
  from expand_loop_spec [OF al(1)] have e: "\<exists>xs. al = [b] @ xs" "distinct (map bhMiner al)"
    "\<forall>c \<in> set ?tracked. \<forall>h. c \<noteq> blockCid (csHashEnv C) b \<longrightarrow> GetBlock C (csBs st) c = Inr h \<longrightarrow>
       CidArrsEqual (bhParents h) (bhParents b) \<longrightarrow> bhMiner h \<in> bhMiner ` set al" by simp_all
  note new = al(2) [unfolded NewTipSet_characterisation]
  have srt: "tsBlks ts = sort_slice (tipsetSortFunc (csHashEnv C)) al" using new by argo
  have same: "\<forall>h \<in> set al. \<forall>h' \<in> set al. bhHeight h = bhHeight h' \<and> bhParents h = bhParents h'" using new by argo
  have mm: "mset (tsBlks ts) = mset al" unfolding srt by (rule mset_sort_slice)
  then have m: "set (tsBlks ts) = set al" by (rule mset_eq_setD)
  have "mset (map bhMiner (tsBlks ts)) = mset (map bhMiner al)" using mm by simp
  then have d: "distinct (map bhMiner (tsBlks ts))" using e(2) mset_eq_imp_distinct_iff by blast
  have "b \<in> set al" using e(1) by auto
  with same e(3) d show ?thesis unfolding m by blast
qed

section \<open>Examples to apply the properties to\<close>

definition wit_elected :: "char \<Rightarrow> cid list \<Rightarrow> epoch \<Rightarrow> int option \<Rightarrow> BlockHeader" where
  "wit_elected c ps h ep = wit_block [c] ''1'' ps h 7
     \<lparr>bhElectionProof := map_option (\<lambda>v. \<lparr>WinCount = v, epVRFProof = []\<rparr>) ep\<rparr>"

lemma wit_ToStorageBlock:
  "length ps \<le> 1 \<Longrightarrow> \<exists>d. Header_ToStorageBlock wit_cbor_env (\<lambda>bs. Inr [bs ! 4]) (wit_elected c ps h ep) = Inr (d, [c])"
  by (cases ps; cases ep)
    (simp_all add: Header_ToStorageBlock_def Header_Serialize_def BlockHeader_MarshalCBOR_def w_ptr_def lengthBuf_def
      wit_cbor_env_def wit_elected_def wit_block_def wit_blob_def wit_num_def Ticket_MarshalCBOR_def
      ElectionProof_MarshalCBOR_def w_bytes_def w_slice_def w_int_def wit_int_def w_uint_def)

lemma wit_csCid: "length ps \<le> 1 \<Longrightarrow> blockCid (csHashEnv wit_cs) (wit_elected c ps h ep) = [c]"
  using wit_ToStorageBlock [of ps c h ep] by (auto simp: csHashEnv_def wit_cs_def Header_Cid_def)

lemma wit_block_elected: "wit_block [c] ''1'' ps h 7 = wit_elected c ps h None"
  by (simp add: wit_elected_def wit_block_def)

definition wit_chn :: "TipSet \<Rightarrow> TipSet list" where
  "wit_chn t = (if t = wit_r then [wit_q, wit_p, wit_g] else [wit_p, wit_g])"

lemma wit_csLoader: "load = wit_load \<Longrightarrow> load k = Inr t \<Longrightarrow> csLoader wit_cs st k = Inr t"
  by (simp add: csLoader_def LoadTipSet_def wit_cs_def)

lemma wit_loads_ok: "loads_ok wit_cs wit_chn {wit_r, wit_f} st"
proof -
  have ne: "wit_f \<noteq> wit_r" by (simp add: wit_links)
  have "chain_ok (csLoader wit_cs st) [wit_r, wit_q, wit_p, wit_g]" "chain_ok (csLoader wit_cs st) [wit_f, wit_p, wit_g]"
    using wit_chain wit_csLoader [OF refl] by simp_all
  moreover have "told_apart (csHashEnv wit_cs) (set [wit_r, wit_q, wit_p, wit_g] \<union> set [wit_f, wit_p, wit_g])"
    by (simp add: told_apart_def tipset_ok_def wit_links inj_on_def wit_block_elected wit_csCid)
      (simp add: wit_elected_def wit_block_def)
  moreover have "(\<Union>t \<in> {wit_r, wit_f}. set (t # wit_chn t)) = set [wit_r, wit_q, wit_p, wit_g] \<union> set [wit_f, wit_p, wit_g]"
    using ne by (auto simp: wit_chn_def)
  ultimately show ?thesis using ne by (simp add: loads_ok_def wit_chn_def)
qed

lemma bitLen_8: "bitLen 8 = 4"
  by (simp add: bitLen.simps)

lemma wit_power: "totalPower wit_cs s ts = Inr 8"
proof -
  have "fst (GetActor wit_tree_env wit_tree ''05'') = Inr (wit_actor 100)"
    using GetActorID_spec(1) [OF wit_tree_ok, of "''05''"] GetActor_id [OF wit_id_addr(1)]
    by (simp add: wit_view) (simp add: wit_tree_def)
  moreover have "LoadStateTree (csAsMap wit_cs s) c = Inr wit_tree" for c
    by (simp add: LoadStateTree_def wit_cs_def wit_tree_def)
  ultimately show ?thesis by (simp add: totalPower_def) (simp add: wit_cs_def)
qed

lemma wit_epoch: "csBlocksPerEpoch wit_cs = 5"
  by (simp add: wit_cs_def)

lemma reorgWorker_heaviest: "reorgWorker C st = Some st' \<Longrightarrow> csHeaviest st' = csHeaviest st"
  by (auto simp: reorgWorker_def split: list.splits option.splits sum.splits)

section \<open>Properties\<close>

text \<open>
  C4. A successful \<open>AddBlock\<close> weighs the tipset made of the block and of the blocks the tracker
  knows at its height: every block in it has the height and the parents of the new block, no two
  are of one miner, and every miner with a known block on the same parents is in it. The tipset
  becomes the head exactly when it is heavier than the head; then the change is sent to the
  worker, and otherwise nothing is. After it the head weighs as much as the heavier of the two. A
  failing \<open>AddBlock\<close> leaves the head as it is.
\<close>

theorem AddBlock_head:
  assumes "AddBlock C st b = (st', r)"
  shows "case r of Inl e \<Rightarrow> head_moves st st' None
    | Inr u \<Rightarrow> \<exists>ts w hw. expandTipset C st' b = Inr ts \<and> b \<in> set (tsBlks ts) \<and>
        (\<forall>h \<in> set (tsBlks ts). bhHeight h = bhHeight b \<and> bhParents h = bhParents b) \<and>
        distinct (map bhMiner (tsBlks ts)) \<and>
        (\<forall>c \<in> set (case csTipsets st (bhHeight b) of None \<Rightarrow> [] | Some cs \<Rightarrow> cs). \<forall>h. c \<noteq> blockCid (csHashEnv C) b \<longrightarrow>
           GetBlock C (csBs st') c = Inr h \<longrightarrow> CidArrsEqual (bhParents h) (bhParents b) \<longrightarrow>
           bhMiner h \<in> bhMiner ` set (tsBlks ts)) \<and>
        Weight C (csBs st') (Some ts) = Inr w \<and> Weight C (csBs st') (csHeaviest st) = Inr hw \<and>
        head_moves st st' (if hw < w then Some ts else None) \<and>
        Weight C (csBs st') (csHeaviest st') = Inr (max w hw)"
proof -
  obtain st1 r1 where p: "PersistBlockHeaders C st [b] = (st1, r1)" by fastforce
  have k: "csHeaviest st1 = csHeaviest st" "csReorgCh st1 = csReorgCh st" "csPublished st1 = csPublished st"
      "csTipsets st1 = csTipsets st"
    using Persist_keeps [of C st "[b]"] p by simp_all
  note mv = head_moves_trans [OF k(1-3)]
  show ?thesis
  proof (cases r)
    case (Inl e)
    then have "st' = st1" using assms p
      by (auto simp: AddBlock_def MaybeTakeHeavierTipSet_def split: sum.splits)
    with mv [of st1 None] Inl show ?thesis by simp
  next
    case (Inr u)
    then obtain ts where ts: "expandTipset C st1 b = Inr ts" "MaybeTakeHeavierTipSet C st1 ts = (st', Inr ())"
      using assms p by (auto simp: AddBlock_def split: sum.splits)
    then obtain w hw where w: "Weight C (csBs st1) (Some ts) = Inr w" "Weight C (csBs st1) (csHeaviest st1) = Inr hw"
        "st' = (if hw < w then takeHeaviestTipSet C st1 ts else st1)"
      by (auto simp: MaybeTakeHeavierTipSet_def split: sum.splits)
    then have s: "csBs st' = csBs st1" "csTipsets st' = csTipsets st1" by simp_all
    have ex: "expandTipset C st' b = Inr ts" using ts(1) expandTipset_cong [OF s] by simp
    have m: "head_moves st st' (if hw < w then Some ts else None)"
      using w(3) takeHeaviest_moves [of st1 C ts] mv [of st1 None] by (simp add: mv split: if_splits)
    have "Weight C (csBs st') (csHeaviest st') = Inr (max w hw)"
      using m w s k(1) by (auto simp: head_moves_def max_def split: if_splits)
    moreover have "Weight C (csBs st') (Some ts) = Inr w" "Weight C (csBs st') (csHeaviest st) = Inr hw"
      using w(1,2) s k(1) by simp_all
    moreover note expandTipset_spec [OF ex, unfolded s(2) k(4)]
    ultimately show ?thesis unfolding Inr sum.case
      by (elim conjE) (intro exI [of _ ts] exI [of _ w] exI [of _ hw] conjI; (assumption | rule ex | rule m))
  qed
qed

theorem AddBlock_head_witness:
  "\<exists>st' ts. AddBlock wit_cs (wit_store\<lparr>csHeaviest := None\<rparr>) (wit_elected (CHR ''n'') [''r''] 46 (Some 1)) = (st', Inr ()) \<and>
    csHeaviest st' = Some ts \<and> wit_elected (CHR ''n'') [''r''] 46 (Some 1) \<in> set (tsBlks ts)"
proof -
  let ?b = "wit_elected (CHR ''n'') [''r''] 46 (Some 1)" and ?st = "wit_store\<lparr>csHeaviest := None\<rparr>"
  have p: "PersistBlockHeaders wit_cs ?st [?b] = (?st, Inr ())"
    using wit_ToStorageBlock [of "[''r'']" "CHR ''n''" 46 "Some 1"]
    by (auto simp: PersistBlockHeaders_def persistBatch_def batchSize_def wit_cs_def wit_store_def)
  let ?ts = "\<lparr>tsCids = [''n''], tsBlks = [?b], tsHeight = 46\<rparr>"
  have e: "expandTipset wit_cs ?st ?b = Inr ?ts"
    using wit_csCid [of "[''r'']" "CHR ''n''" 46 "Some 1"]
    by (simp add: expandTipset_def wit_store_def NewTipSet_def) (simp add: wit_elected_def wit_block_def)
  have w: "Weight wit_cs (csBs ?st) (Some ?ts) = Inr 851" "Weight wit_cs (csBs ?st) (csHeaviest ?st) = Inr 0"
    by (simp_all add: Weight_def wit_power wit_elected_def wit_block_def bitLen_8 i64_def WRatioNum_def WRatioDen_def bigDiv_def wit_epoch wit_store_def)
  define st' where "st' = takeHeaviestTipSet wit_cs ?st ?ts"
  have a: "AddBlock wit_cs ?st ?b = (st', Inr ())"
    unfolding AddBlock_def p prod.case sum.case e MaybeTakeHeavierTipSet_def w by (simp add: st'_def)
  from AddBlock_head [OF a] obtain ts w' hw where h: "expandTipset wit_cs st' ?b = Inr ts" "?b \<in> set (tsBlks ts)"
    "Weight wit_cs (csBs st') (Some ts) = Inr w'" "Weight wit_cs (csBs st') (csHeaviest ?st) = Inr hw"
    "head_moves ?st st' (if hw < w' then Some ts else None)" by auto
  have "csBs st' = csBs ?st" "csTipsets st' = csTipsets ?st" by (simp_all add: st'_def)
  then have "ts = ?ts" "w' = 851" "hw = 0" using h(1,3,4) e w expandTipset_cong [of st' ?st wit_cs ?b] by simp_all
  with h(2,5) a show ?thesis by (auto simp: head_moves_def)
qed

text \<open>
  C5. Whatever operations run on the store and however the worker's turns fall between them,
  the notifications published so far take a subscriber's view of the chain from the first head
  to that of a tipset from which the changes still in the channel lead to the head; so once the
  worker has caught up, subscribers see the chain of the head. Every turn of the worker returns.
  The operations are atomic (the locks of the store are not modelled) and the channel is unbounded;
  the chains of the heads have to be loadable when the worker gets to them (part of \<open>run_ok\<close>),
  since it drops a reorganisation it cannot compute.
\<close>

theorem subscribers_track_head:
  assumes "run_ok C chn S st ps" and "csHeaviest st = Some h" and "csReorgCh st = []"
  shows "\<exists>st' h' hd' pub. cs_run C st ps = Some st' \<and> csHeaviest st' = Some hd' \<and>
    csPublished st' = csPublished st @ pub \<and> follow (concat pub) (h # chn h) = Some (h' # chn h') \<and>
    linked h' (csReorgCh st') hd' \<and> (csReorgCh st' = [] \<longrightarrow> h' = hd')"
proof -
  have "h \<in> S" using assms(1,2) by (cases ps) auto
  with cs_run_tracks [OF assms(1,2), of h] assms(3) obtain st' h' hd' pub where
    "cs_run C st ps = Some st'" "csHeaviest st' = Some hd'" "linked h' (csReorgCh st') hd'"
    "csPublished st' = csPublished st @ pub" "follow (concat pub) (h # chn h) = Some (h' # chn h')" by auto
  moreover have "csReorgCh st' = [] \<longrightarrow> h' = hd'" using calculation(3) by auto
  ultimately show ?thesis by blast
qed

theorem subscribers_track_head_witness:
  "\<exists>st' h' hd' pub. cs_run wit_cs wit_store [OpSetHead wit_f, OpWorker] = Some st' \<and> csHeaviest st' = Some hd' \<and>
    csPublished st' = pub \<and> follow (concat pub) [wit_r, wit_q, wit_p, wit_g] = Some (h' # wit_chn h') \<and>
    linked h' (csReorgCh st') hd'"
proof -
  have "csHeaviest (SetHead wit_cs wit_store wit_f) = Some wit_f"
    using takeHeaviest_moves [of wit_store wit_cs wit_f] by (simp add: SetHead_def head_moves_def)
  moreover have s: "csHeaviest wit_store = Some wit_r" "csReorgCh wit_store = []" "csPublished wit_store = []"
    by (simp_all add: wit_store_def)
  ultimately have "run_ok wit_cs wit_chn {wit_r, wit_f} wit_store [OpSetHead wit_f, OpWorker]"
    using wit_loads_ok by (auto dest: reorgWorker_heaviest split: option.splits)
  moreover note s
  moreover have "wit_r # wit_chn wit_r = [wit_r, wit_q, wit_p, wit_g]" by (simp add: wit_chn_def)
  ultimately show ?thesis
    using subscribers_track_head [of wit_cs wit_chn "{wit_r, wit_f}" wit_store "[OpSetHead wit_f, OpWorker]" wit_r] by simp blast
qed

end
