(* ===== verification/Chain_Messages.thy ===== *)
theory Chain_Messages
  imports Chain_Store "HOL-Library.Sublist"
begin

text \<open>
  Which messages of a tipset are executed: \<open>MessagesForTipset\<close> of \<open>chain/store/store.go\<close> against a
  replay of each account on its own.
\<close>

section \<open>One account\<close>

abbreviation sentBy :: "address \<Rightarrow> ChainMsg \<Rightarrow> bool" where
  "sentBy a cm \<equiv> msgFrom (VMMessage cm) = a"

text \<open>
  The messages of an account that are executed: those met with the next nonce, which they use up,
  and whose cost the balance left over covers.
\<close>

fun account_replay :: "uint64 \<Rightarrow> bigint \<Rightarrow> ChainMsg list \<Rightarrow> ChainMsg list" where
  "account_replay n bal [] = []"
| "account_replay n bal (cm # cms) =
     (if n \<noteq> msgNonce (VMMessage cm) then account_replay n bal cms
      else if bal < RequiredFunds (VMMessage cm) then account_replay (n + 1) bal cms
      else cm # account_replay (n + 1) (bal - RequiredFunds (VMMessage cm)) cms)"

text \<open>The nonces of the replay are those of the account, in order and without repetition.\<close>

lemma account_replay_nonces:
  "\<exists>ks. map (\<lambda>cm. msgNonce (VMMessage cm)) (account_replay n bal cms) = map (\<lambda>k. n + word_of_nat k) ks \<and>
     sorted_wrt (<) ks \<and> (\<forall>k \<in> set ks. k < length cms)"
proof (induction n bal cms rule: account_replay.induct)
  case (2 n bal cm cms)
  let ?shift = "\<lambda>ks. map Suc ks"
  have sh: "map (\<lambda>k. n + 1 + word_of_nat k) ks = map (\<lambda>k. n + word_of_nat k :: uint64) (?shift ks)" for ks
    by (simp add: comp_def add.assoc)
  have srt: "sorted_wrt (<) ks \<Longrightarrow> sorted_wrt (<) (?shift ks)" for ks :: "nat list"
    by (simp add: sorted_wrt_map)
  consider "n \<noteq> msgNonce (VMMessage cm)" | "n = msgNonce (VMMessage cm)" "bal < RequiredFunds (VMMessage cm)"
    | "n = msgNonce (VMMessage cm)" "\<not> bal < RequiredFunds (VMMessage cm)" by blast
  then show ?case
  proof cases
    case 1
    with 2(1) obtain ks where "map (\<lambda>cm. msgNonce (VMMessage cm)) (account_replay n bal cms) = map (\<lambda>k. n + word_of_nat k) ks"
      "sorted_wrt (<) ks" "\<forall>k \<in> set ks. k < length cms" by blast
    with 1 show ?thesis by (intro exI [of _ ks]) auto
  next
    case 2
    with "2.IH"(2) obtain ks where
      "map (\<lambda>cm. msgNonce (VMMessage cm)) (account_replay (n + 1) bal cms) = map (\<lambda>k. n + 1 + word_of_nat k) ks"
      "sorted_wrt (<) ks" "\<forall>k \<in> set ks. k < length cms" by blast
    with 2 srt show ?thesis unfolding sh by (intro exI [of _ "?shift ks"]) auto
  next
    case 3
    with "2.IH"(3) obtain ks where
      "map (\<lambda>cm. msgNonce (VMMessage cm)) (account_replay (n + 1) (bal - RequiredFunds (VMMessage cm)) cms) =
         map (\<lambda>k. n + 1 + word_of_nat k) ks"
      "sorted_wrt (<) ks" "\<forall>k \<in> set ks. k < length cms" by blast
    with 3 srt show ?thesis unfolding sh by (intro exI [of _ "0 # ?shift ks"]) auto
  qed
qed simp

text \<open>At every message of the replay, the cost so far is within the balance.\<close>

lemma account_replay_funds:
  "k < length (account_replay n bal cms) \<Longrightarrow>
     sum_list (map (\<lambda>cm. RequiredFunds (VMMessage cm)) (take (Suc k) (account_replay n bal cms))) \<le> bal"
proof (induction n bal cms arbitrary: k rule: account_replay.induct)
  case (2 n bal cm cms)
  then show ?case by (cases k) (force split: if_splits)+
qed simp

section \<open>All accounts\<close>

text \<open>An actor found for an address in a tree whose views are \<open>V\<close>; for an ID address it is the actor in the view.\<close>

definition found :: "tree_env \<Rightarrow> StateTree \<Rightarrow> address \<Rightarrow> Actor \<Rightarrow> bool" where
  "found T tree a act \<longleftrightarrow>
     (\<exists>t. tree_ok T t \<and> views t = views tree \<and> fst (GetActor T t a) = Inr act) \<and>
     (id_addr T a \<longrightarrow> view tree a = Some act)"

lemma views_view: "views t = views u \<Longrightarrow> tree_ok T t \<Longrightarrow> tree_ok T u \<Longrightarrow> view t = view u"
  by (cases "layers t"; cases "layers u") (auto simp: views_def view_def tree_ok_def)

lemma preloadAddr_spec:
  assumes "preloadAddr C ss a = Inr ss1" "tree_ok (csTree C) (fst ss)" "tree_ok (csTree C) tree" "views (fst ss) = views tree"
  shows "tree_ok (csTree C) (fst ss1) \<and> views (fst ss1) = views tree \<and>
    (case snd ss a of Some x \<Rightarrow> ss1 = ss
     | None \<Rightarrow> \<exists>act. found (csTree C) tree a act \<and> snd ss1 = (snd ss)(a \<mapsto> (actNonce act, actBalance act)))"
proof (cases "snd ss a")
  case None
  then obtain act t where g: "GetActor (csTree C) (fst ss) a = (Inr act, t)"
      "ss1 = (t, (snd ss)(a \<mapsto> (actNonce act, actBalance act)))"
    using assms(1) by (auto simp: preloadAddr_def split: sum.splits prod.splits)
  have v: "view (fst ss) = view tree" using views_view assms(2-4) by blast
  have "id_addr (csTree C) a \<Longrightarrow> fst (GetActorID (csTree C) (fst ss) a) = Inr act"
    using GetActor_id [of "csTree C" a "fst ss"] g(1) by (metis fst_conv)
  then have "id_addr (csTree C) a \<Longrightarrow> view tree a = Some act"
    using GetActorID_spec(1) [OF assms(2), of a] v by (auto split: option.splits)
  then have "found (csTree C) tree a act" using assms(2,4) g(1) by (auto simp: found_def intro!: exI [of _ "fst ss"])
  with GetActor_views [OF assms(2), of a] g assms(4) None show ?thesis by auto
qed (use assms in \<open>auto simp: preloadAddr_def\<close>)

text \<open>The selection treats the accounts independently of each other.\<close>

lemma select_loop_replay:
  assumes "select_loop C ss out cms = Inr (ss', out')" "tree_ok (csTree C) (fst ss)" "tree_ok (csTree C) tree"
    and "views (fst ss) = views tree"
  shows "\<exists>new. out' = out @ new \<and> subseq new cms \<and>
    (\<forall>a. case snd ss a of Some (n, bal) \<Rightarrow> filter (sentBy a) new = account_replay n bal (filter (sentBy a) cms)
     | None \<Rightarrow> a \<in> (\<lambda>cm. msgFrom (VMMessage cm)) ` set cms \<longrightarrow> (\<exists>act. found (csTree C) tree a act \<and>
         filter (sentBy a) new = account_replay (actNonce act) (actBalance act) (filter (sentBy a) cms)))"
  using assms
proof (induction cms arbitrary: ss out)
  case Nil
  then show ?case by (auto split: option.splits)
next
  case (Cons cm cms)
  define a0 where "a0 = msgFrom (VMMessage cm)"
  obtain ss1 where p: "preloadAddr C ss a0 = Inr ss1" using Cons.prems(1) by (auto simp: a0_def Let_def split: sum.splits)
  note ps = preloadAddr_spec [OF p Cons.prems(2-4)]
  obtain n bal where x: "snd ss1 a0 = Some (n, bal)" using ps by (auto split: option.splits)
  define take1 where "take1 \<longleftrightarrow> n = msgNonce (VMMessage cm) \<and> \<not> bal < RequiredFunds (VMMessage cm)"
  define n' where "n' = (if n = msgNonce (VMMessage cm) then n + 1 else n)"
  define bal' where "bal' = (if take1 then bal - RequiredFunds (VMMessage cm) else bal)"
  define ss2 where "ss2 = (fst ss1, (snd ss1)(a0 \<mapsto> (n', bal')))"
  have ss2: "n \<noteq> msgNonce (VMMessage cm) \<Longrightarrow> ss2 = ss1"
    using x by (auto simp: ss2_def n'_def bal'_def take1_def fun_upd_idem prod_eq_iff)
  have "select_loop C ss2 (if take1 then out @ [cm] else out) cms = Inr (ss', out')"
    using Cons.prems(1) p x ss2 by (auto simp: a0_def [symmetric] Let_def ss2_def n'_def bal'_def take1_def split: if_splits)
  from Cons.IH [OF this] ps Cons.prems(3) obtain new where new: "out' = (if take1 then out @ [cm] else out) @ new" "subseq new cms"
    "\<forall>a. case snd ss2 a of Some (n, bal) \<Rightarrow> filter (sentBy a) new = account_replay n bal (filter (sentBy a) cms)
     | None \<Rightarrow> a \<in> (\<lambda>cm. msgFrom (VMMessage cm)) ` set cms \<longrightarrow> (\<exists>act. found (csTree C) tree a act \<and>
         filter (sentBy a) new = account_replay (actNonce act) (actBalance act) (filter (sentBy a) cms))"
    by (auto simp: ss2_def)
  define new1 where "new1 = (if take1 then cm # new else new)"
  have "snd ss2 a0 = Some (n', bal')" by (simp add: ss2_def)
  with new(3) [rule_format, of a0] have r0: "filter (sentBy a0) new1 = account_replay n bal (filter (sentBy a0) (cm # cms))"
    by (auto simp: new1_def n'_def bal'_def take1_def a0_def)
  have "case snd ss a of Some (n, bal) \<Rightarrow> filter (sentBy a) new1 = account_replay n bal (filter (sentBy a) (cm # cms))
     | None \<Rightarrow> a \<in> (\<lambda>cm. msgFrom (VMMessage cm)) ` set (cm # cms) \<longrightarrow> (\<exists>act. found (csTree C) tree a act \<and>
         filter (sentBy a) new1 = account_replay (actNonce act) (actBalance act) (filter (sentBy a) (cm # cms)))" for a
  proof (cases "a = a0")
    case True
    then show ?thesis using ps x r0 by (auto split: option.splits)
  next
    case False
    then have "snd ss2 a = snd ss a" using ps by (auto simp: ss2_def split: option.splits)
    with new(3) [rule_format, of a] False show ?thesis by (auto simp: new1_def a0_def split: option.splits)
  qed
  moreover have "out' = out @ new1" "subseq new1 (cm # cms)" using new(1,2) by (auto simp: new1_def)
  ultimately show ?case by blast
qed

text \<open>The messages of blocks in the order they are looked at.\<close>

fun loaded :: "('s, 'd, 'tc, 'mc) cs_env \<Rightarrow> ('s, 'd, 'tc, 'mc) ChainStore \<Rightarrow> BlockHeader list \<Rightarrow> ChainMsg list" where
  "loaded C st [] = []"
| "loaded C st (b # bl) =
     (case MessagesForBlock C st b of (st1, Inl e) \<Rightarrow> []
      | (st1, Inr (bms, sms)) \<Rightarrow> (map BlsMsg bms @ map SecpkMsg sms) @ loaded C st1 bl)"

lemma select_loop_append:
  "select_loop C ss out (xs @ ys) =
     (case select_loop C ss out xs of Inl e \<Rightarrow> Inl e | Inr (ss1, out1) \<Rightarrow> select_loop C ss1 out1 ys)"
  by (induction C ss out xs rule: select_loop.induct) (auto simp: Let_def split: sum.splits option.splits prod.splits)

lemma blocks_loop_select:
  "blocks_loop C st ss out bl = (st', Inr out') \<Longrightarrow> \<exists>ss'. select_loop C ss out (loaded C st bl) = Inr (ss', out')"
proof (induction bl arbitrary: st ss out)
  case (Cons b bl)
  then obtain st1 bms sms ss1 out1 where "MessagesForBlock C st b = (st1, Inr (bms, sms))"
    "select_loop C ss out (map BlsMsg bms @ map SecpkMsg sms) = Inr (ss1, out1)"
    "blocks_loop C st1 ss1 out1 bl = (st', Inr out')" by (auto split: sum.splits prod.splits)
  with Cons.IH [OF this(3)] show ?case by (simp add: select_loop_append [of _ _ _ "map BlsMsg bms @ map SecpkMsg sms", simplified])
qed simp

section \<open>Properties\<close>

text \<open>
  C6. The messages of a tipset that are executed are some of its blocks' messages in their
  order. The accounts do not get in each other's way: for each sender they are what replaying
  that account alone gives, from its nonce and balance in the parent state. So the nonces of a
  sender rise from the one of the account without repetition (unless the tipset had \<open>2^64\<close> messages),
  though they may leave gaps, and at no point do the costs exceed the account's balance.
\<close>

theorem MessagesForTipset_replay:
  assumes "LoadStateTree (csAsMap C (csBs st)) (bhParentStateRoot (hd (tsBlks ts))) = Inr tree" and "tree_ok (csTree C) tree"
    and "MessagesForTipset C st ts = (st', Inr out)"
  shows "subseq out (loaded C st (tsBlks ts)) \<and>
    (\<forall>a \<in> (\<lambda>cm. msgFrom (VMMessage cm)) ` set (loaded C st (tsBlks ts)). \<exists>act ks. found (csTree C) tree a act \<and>
       filter (sentBy a) out = account_replay (actNonce act) (actBalance act) (filter (sentBy a) (loaded C st (tsBlks ts))) \<and>
       map (\<lambda>cm. msgNonce (VMMessage cm)) (filter (sentBy a) out) = map (\<lambda>k. actNonce act + word_of_nat k) ks \<and>
       sorted_wrt (<) ks \<and> (\<forall>k \<in> set ks. k < length (loaded C st (tsBlks ts))) \<and>
       (\<forall>k < length (filter (sentBy a) out).
          sum_list (map (\<lambda>cm. RequiredFunds (VMMessage cm)) (take (Suc k) (filter (sentBy a) out))) \<le> actBalance act))"
proof -
  let ?all = "loaded C st (tsBlks ts)"
  have "blocks_loop C st (tree, Map.empty) [] (tsBlks ts) = (st', Inr out)"
    using assms(1,3) by (simp add: MessagesForTipset_def)
  then obtain ss' where "select_loop C (tree, Map.empty) [] ?all = Inr (ss', out)"
    using blocks_loop_select by blast
  from select_loop_replay [OF this, of tree] assms(2) have sub: "subseq out ?all"
    and acc: "\<And>a. a \<in> (\<lambda>cm. msgFrom (VMMessage cm)) ` set ?all \<Longrightarrow> \<exists>act. found (csTree C) tree a act \<and>
      filter (sentBy a) out = account_replay (actNonce act) (actBalance act) (filter (sentBy a) ?all)"
    by simp_all
  show ?thesis
  proof (intro conjI ballI)
    fix a assume "a \<in> (\<lambda>cm. msgFrom (VMMessage cm)) ` set ?all"
    from acc [OF this] obtain act where act: "found (csTree C) tree a act"
      "filter (sentBy a) out = account_replay (actNonce act) (actBalance act) (filter (sentBy a) ?all)" by blast
    obtain ks where ks: "map (\<lambda>cm. msgNonce (VMMessage cm)) (filter (sentBy a) out) = map (\<lambda>k. actNonce act + word_of_nat k) ks"
      "sorted_wrt (<) ks" "\<forall>k \<in> set ks. k < length (filter (sentBy a) ?all)"
      unfolding act(2) using account_replay_nonces by blast
    have "\<forall>k \<in> set ks. k < length ?all" using ks(3) length_filter_le [of "sentBy a" ?all] by (meson less_le_trans)
    moreover have "\<forall>k < length (filter (sentBy a) out).
        sum_list (map (\<lambda>cm. RequiredFunds (VMMessage cm)) (take (Suc k) (filter (sentBy a) out))) \<le> actBalance act"
      unfolding act(2) using account_replay_funds by blast
    ultimately show "\<exists>act ks. found (csTree C) tree a act \<and>
       filter (sentBy a) out = account_replay (actNonce act) (actBalance act) (filter (sentBy a) ?all) \<and>
       map (\<lambda>cm. msgNonce (VMMessage cm)) (filter (sentBy a) out) = map (\<lambda>k. actNonce act + word_of_nat k) ks \<and>
       sorted_wrt (<) ks \<and> (\<forall>k \<in> set ks. k < length ?all) \<and>
       (\<forall>k < length (filter (sentBy a) out).
          sum_list (map (\<lambda>cm. RequiredFunds (VMMessage cm)) (take (Suc k) (filter (sentBy a) out))) \<le> actBalance act)"
      using act ks(1,2) by blast
  qed (rule sub)
qed

text \<open>
  A block with three messages of one sender: the second costs more than is left, and the third,
  with the nonce after it, is executed.
\<close>

definition wit_cms :: "Message list" where
  "wit_cms = [wit_msg ''05'' ''09'' 0 3 2 10 0, wit_msg ''05'' ''09'' 1 3 2 50 0, wit_msg ''05'' ''09'' 2 3 2 20 0]"

definition wit_msgs_cs :: "(unit, unit, unit, unit) cs_env" where
  "wit_msgs_cs = wit_cs\<lparr>bsGet := (\<lambda>s c. case Message_Serialize wit_cbor_env (wit_cms ! (length c - 1)) of Inl e \<Rightarrow> Inl ''bad'' | Inr d \<Rightarrow> Inr d),
     csMsgMeta := (\<lambda>s c. Inr \<lparr>mmBlsMessages = ''b'', mmSecpkMessages = ''s''\<rparr>),
     csAmtCids := (\<lambda>s c. if c = ''b'' then Inr ([''m'', ''mm'', ''mmm''], 3) else Inr ([], 0))\<rparr>"

lemma wit_decode:
  assumes "Message_valid wit_cbor_env m" "msgVersion m = MessageVersion"
  shows "\<exists>d. Message_Serialize wit_cbor_env m = Inr d \<and> DecodeMessage wit_cbor_env d = Inr m"
proof -
  obtain L where L: "wit_cbor_env = lib L" using lib_cases [OF wit_cbor_laws] .
  have "reads (Message_UnmarshalCBOR wit_cbor_env) (Message_Serialize wit_cbor_env m) m"
    using assms(1) message_codec.roundtrip by (simp add: L Message_Serialize_def)
  from decode_reads [OF this] obtain d where "Message_Serialize wit_cbor_env m = Inr d"
    "\<forall>rest. decode (Message_UnmarshalCBOR wit_cbor_env) (d @ rest) = Inr m" by blast
  with assms(2) show ?thesis by (auto simp: DecodeMessage_def dest: spec [of _ "[]"])
qed

lemma wit_GetMessage: "i < 3 \<Longrightarrow> length c = Suc i \<Longrightarrow> GetMessage wit_msgs_cs s c = Inr (wit_cms ! i)"
proof -
  assume i: "i < 3" "length c = Suc i"
  have "Message_valid wit_cbor_env (wit_cms ! i)" "msgVersion (wit_cms ! i) = MessageVersion"
    using i(1) by (auto simp: wit_cms_def wit_msg_def Message_valid_def wit_cbor_env_def in_i64_def MessageVersion_def
        less_Suc_eq numeral_3_eq_3)
  from wit_decode [OF this] i(2) show ?thesis
    by (auto simp: GetMessage_def wit_msgs_cs_def wit_cs_def)
qed

lemma wit_funds: "RequiredFunds (wit_msg f t n v 2 l k) = 2 * u64 l"
  by (simp add: RequiredFunds_def wit_msg_def NewInt_def bigOf_def)

lemma wit_select:
  "select_loop wit_msgs_cs (wit_tree, Map.empty) [] (map BlsMsg wit_cms) =
     Inr ((snd (GetActor wit_tree_env wit_tree ''05''), [''05'' \<mapsto> (3, 40)]), [BlsMsg (wit_cms ! 0), BlsMsg (wit_cms ! 2)])"
proof -
  have T: "csTree wit_msgs_cs = wit_tree_env" by (simp add: wit_msgs_cs_def wit_cs_def)
  have "fst (GetActor wit_tree_env wit_tree ''05'') = Inr (wit_actor 100)"
    using GetActorID_spec(1) [OF wit_tree_ok, of "''05''"] GetActor_id [OF wit_id_addr(1)]
    by (simp add: wit_view) (simp add: wit_tree_def)
  then obtain t1 where g: "GetActor wit_tree_env wit_tree ''05'' = (Inr (wit_actor 100), t1)"
    by (cases "GetActor wit_tree_env wit_tree ''05''") simp
  then have p: "preloadAddr wit_msgs_cs (wit_tree, Map.empty) ''05'' = Inr (t1, [''05'' \<mapsto> (0, 100)])"
    by (simp add: preloadAddr_def T wit_actor_def)
  have q: "preloadAddr wit_msgs_cs (tr, [''05'' \<mapsto> x]) ''05'' = Inr (tr, [''05'' \<mapsto> x])" for tr x
    by (simp add: preloadAddr_def)
  have f: "msgFrom (wit_msg ''05'' ''09'' n 3 2 l 0) = ''05''" "msgNonce (wit_msg ''05'' ''09'' n 3 2 l 0) = n" for n l
    by (simp_all add: wit_msg_def)
  show ?thesis unfolding wit_cms_def by (simp add: f p q g wit_funds u64_def Let_def)
qed

theorem MessagesForTipset_replay_witness:
  "MessagesForTipset wit_msgs_cs wit_store wit_g = (wit_store, Inr [BlsMsg (wit_cms ! 0), BlsMsg (wit_cms ! 2)]) \<and>
   subseq [BlsMsg (wit_cms ! 0), BlsMsg (wit_cms ! 2)] (loaded wit_msgs_cs wit_store (tsBlks wit_g))"
proof -
  have b: "tsBlks wit_g = [wit_block ''g'' ''1'' [] 0 7]" by (simp add: wit_links)
  have m: "MessagesForBlock wit_msgs_cs wit_store (wit_block ''g'' ''1'' [] 0 7) = (wit_store, Inr (wit_cms, []))"
    using wit_GetMessage [of 0 "''m''"] wit_GetMessage [of 1 "''mm''"] wit_GetMessage [of 2 "''mmm''"]
    by (simp add: MessagesForBlock_def readMsgMetaCids_def readAMTCids_def wit_msgs_cs_def wit_cs_def wit_store_def wit_cms_def)
  have t: "LoadStateTree (csAsMap wit_msgs_cs (csBs wit_store)) (bhParentStateRoot (hd (tsBlks wit_g))) = Inr wit_tree"
    by (simp add: LoadStateTree_def wit_msgs_cs_def wit_cs_def wit_tree_def)
  have r: "MessagesForTipset wit_msgs_cs wit_store wit_g = (wit_store, Inr [BlsMsg (wit_cms ! 0), BlsMsg (wit_cms ! 2)])"
    unfolding MessagesForTipset_def t by (simp add: b m wit_select)
  have "tree_ok (csTree wit_msgs_cs) wit_tree" using wit_tree_ok by (simp add: wit_msgs_cs_def wit_cs_def)
  from MessagesForTipset_replay [OF t this r] r show ?thesis by blast
qed

end
