(* ===== verification/Aerrors.thy ===== *)
theory Aerrors
  imports Statetree
begin

text \<open>
  Actor errors: \<open>chain/actors/aerrors/error.go\<close> and \<open>wrap.go\<close>. An error is fatal or carries an
  exit code; its message and stack frame are not modelled. A nil error is \<open>None\<close>.
\<close>

section \<open>Data and operations\<close>

type_synonym exitcode = int

record actorError =
  aeFatal :: bool
  aeRetCode :: exitcode

text \<open>The errors handed to \<open>Absorb\<close>, \<open>Escalate\<close> and \<open>HandleExternalError\<close>.\<close>

datatype goerror = ActorErr actorError | SerializationErr | OtherErr

definition IsFatal :: "actorError option \<Rightarrow> bool" where
  "IsFatal err = (case err of None \<Rightarrow> False | Some e \<Rightarrow> aeFatal e)"

definition RetCode :: "actorError option \<Rightarrow> exitcode" where
  "RetCode err = (case err of None \<Rightarrow> 0 | Some e \<Rightarrow> aeRetCode e)"

definition Newf :: "exitcode \<Rightarrow> actorError" where
  "Newf retCode =
     (if retCode = 0 then \<lparr>aeFatal = True, aeRetCode = 0\<rparr>
      else \<lparr>aeFatal = False, aeRetCode = retCode\<rparr>)"

definition Fatalf :: actorError where
  "Fatalf = \<lparr>aeFatal = True, aeRetCode = 0\<rparr>"

definition Wrap :: "actorError option \<Rightarrow> actorError option" where
  "Wrap err =
     (case err of None \<Rightarrow> None
      | Some _ \<Rightarrow> Some \<lparr>aeFatal = IsFatal err, aeRetCode = RetCode err\<rparr>)"

definition Absorb :: "goerror option \<Rightarrow> exitcode \<Rightarrow> actorError option" where
  "Absorb err retCode =
     (case err of
        None \<Rightarrow> None
      | Some (ActorErr aerr) \<Rightarrow>
          if aeFatal aerr then Some \<lparr>aeFatal = True, aeRetCode = 0\<rparr>
          else if retCode = 0 then Some \<lparr>aeFatal = True, aeRetCode = 0\<rparr>
          else Some \<lparr>aeFatal = False, aeRetCode = retCode\<rparr>
      | Some _ \<Rightarrow>
          if retCode = 0 then Some \<lparr>aeFatal = True, aeRetCode = 0\<rparr>
          else Some \<lparr>aeFatal = False, aeRetCode = retCode\<rparr>)"

definition Escalate :: "goerror option \<Rightarrow> actorError option" where
  "Escalate err = (case err of None \<Rightarrow> None | Some _ \<Rightarrow> Some \<lparr>aeFatal = True, aeRetCode = 0\<rparr>)"

definition HandleExternalError :: "goerror option \<Rightarrow> actorError option" where
  "HandleExternalError err =
     (case err of
        None \<Rightarrow> None
      | Some (ActorErr aerr) \<Rightarrow> Some \<lparr>aeFatal = aeFatal aerr, aeRetCode = aeRetCode aerr\<rparr>
      | Some SerializationErr \<Rightarrow> Some \<lparr>aeFatal = False, aeRetCode = 253\<rparr>
      | Some OtherErr \<Rightarrow> Some \<lparr>aeFatal = False, aeRetCode = 219\<rparr>)"

section \<open>Invariant\<close>

text \<open>An error is fatal exactly when its exit code is 0.\<close>

definition aerr_ok :: "actorError \<Rightarrow> bool" where
  "aerr_ok e \<longleftrightarrow> (aeFatal e \<longleftrightarrow> aeRetCode e = 0)"

named_theorems aerr_ok_intros \<open>every constructor of the package keeps the invariant\<close>

lemma aerr_ok_Newf [aerr_ok_intros, simp]: "aerr_ok (Newf c)"
  by (simp add: aerr_ok_def Newf_def)

lemma aerr_ok_Fatalf [aerr_ok_intros, simp]: "aerr_ok Fatalf"
  by (simp add: aerr_ok_def Fatalf_def)

lemma aerr_ok_Wrap [aerr_ok_intros]: "pred_option aerr_ok err \<Longrightarrow> pred_option aerr_ok (Wrap err)"
  by (cases err) (auto simp: aerr_ok_def Wrap_def IsFatal_def RetCode_def)

lemma aerr_ok_Absorb [aerr_ok_intros]: "pred_option aerr_ok (Absorb err c)"
  by (auto simp: aerr_ok_def Absorb_def split: option.splits goerror.splits)

lemma aerr_ok_Escalate [aerr_ok_intros]: "pred_option aerr_ok (Escalate err)"
  by (auto simp: aerr_ok_def Escalate_def split: option.splits)

lemma aerr_ok_HandleExternalError [aerr_ok_intros]:
  "(\<And>a. err = Some (ActorErr a) \<Longrightarrow> aerr_ok a) \<Longrightarrow> pred_option aerr_ok (HandleExternalError err)"
  by (auto simp: aerr_ok_def HandleExternalError_def split: option.splits goerror.splits)

lemma RetCode_0_iff: "pred_option aerr_ok err \<Longrightarrow> \<not> IsFatal err \<Longrightarrow> RetCode err = 0 \<longleftrightarrow> err = None"
  by (cases err) (auto simp: aerr_ok_def RetCode_def IsFatal_def)

section \<open>Properties\<close>

text \<open>
  C32. Every way the package makes an error keeps its invariant: an error is fatal exactly when
  its exit code is 0. So a non-fatal error is never mistaken for success by its exit code.
\<close>

theorem aerrors_fatal_iff_zero:
  assumes "pred_option aerr_ok err" and "\<And>a. ext = Some (ActorErr a) \<Longrightarrow> aerr_ok a"
  shows "aerr_ok (Newf c) \<and> aerr_ok Fatalf \<and> pred_option aerr_ok (Wrap err) \<and> pred_option aerr_ok (Absorb ext c) \<and>
    pred_option aerr_ok (Escalate ext) \<and> pred_option aerr_ok (HandleExternalError ext) \<and>
    (\<not> IsFatal err \<longrightarrow> (RetCode err = 0 \<longleftrightarrow> err = None))"
  using assms RetCode_0_iff [of err] by (auto intro: aerr_ok_intros)

theorem aerrors_fatal_iff_zero_witness:
  "RetCode (Some (Newf 5)) \<noteq> 0 \<and> aerr_ok (Newf 0) \<and> pred_option aerr_ok (HandleExternalError (Some SerializationErr))"
  using aerrors_fatal_iff_zero [of "Some (Newf 5)" "Some SerializationErr" 0] by (simp add: IsFatal_def Newf_def aerr_ok_def)

end
