(* ===== verification/VM_Runtime.thy ===== *)
theory VM_Runtime
  imports Gas Aerrors
begin

text \<open>
  The virtual machine: \<open>chain/vm/vm.go\<close>, \<open>runtime.go\<close>, \<open>mkactor.go\<close>, \<open>invoker.go\<close> and the priced
  system calls of \<open>gas.go\<close>.

  Actor code is library code (specs-actors). It is a parameter: a program over the operations
  of the \<open>Runtime\<close> interface, a tree of type \<open>prog\<close> whose nodes are the calls the code makes and
  whose branches are indexed by what the call returns. The interpreter \<open>run_prog\<close> runs it
  against the runtime of this file. Panics are the left side of results; \<open>shimCall\<close> recovers
  them. Nested sends are bounded by fuel, one unit for each level of the call stack; running
  out is the panic \<open>PFuel\<close>, which nothing recovers.

  Execution traces, logging, and contexts are not modelled.
\<close>

section \<open>Data\<close>

datatype sysExit = SysErrSenderInvalid | SysErrSenderStateInvalid | SysErrInvalidMethod
  | SysErrInvalidParameters | SysErrInvalidReceiver | SysErrInsufficientFunds | SysErrOutOfGas
  | SysErrForbidden | SysErrorIllegalActor | SysErrorIllegalArgument | ErrIllegalState
  | ErrSerialization

datatype panic = PAerr actorError | POther | PFuel

datatype syscall = SysVerifySignature SigType address bytes | SysHashBlake2b bytes
  | SysComputeUnsealedSectorCID bytes | SysVerifySeal bytes
  | SysVerifyPoSt "RegisteredPoStProof list" int bytes | SysBatchVerifySeals bytes
  | SysVerifyConsensusFault bytes bytes bytes

text \<open>What an actor method returns to \<open>shimCall\<close>.\<close>

datatype rval = RBytes bytes | REmptyValue | RMarshaler "bytes option" | RNil | ROther

text \<open>
  Programs. \<open>Done obj r\<close> ends a method with the value \<open>r\<close>, or the body of a transaction with the
  object in the state \<open>obj\<close> (\<open>None\<close> if it does not marshal) and the captured results \<open>r\<close>. The
  argument of type \<open>bytes \<Rightarrow> bool\<close> of a read says which blocks decode into the object read; a
  transaction on a nil object has \<open>None\<close> there.
\<close>

datatype prog =
    Done "bytes option" rval
  | AbortP exitcode
  | PanicP
  | ValidateAcceptAnyP prog
  | ValidateIsP "address list" prog
  | ValidateTypeP "cid list" prog
  | CurrentBalanceP "bigint \<Rightarrow> prog"
  | ResolveAddressP address "address option \<Rightarrow> prog"
  | GetActorCodeCIDP address "cid option \<Rightarrow> prog"
  | GetRandomnessP int epoch bytes "bytes \<Rightarrow> prog"
  | NewActorAddressP "address \<Rightarrow> prog"
  | CreateActorP cid address prog
  | DeleteActorP address prog
  | TotalFilCircSupplyP "bigint \<Rightarrow> prog"
  | StoreGetP cid "bytes \<Rightarrow> bool" "bytes option \<Rightarrow> prog"
  | StorePutP "bytes option" "cid \<Rightarrow> prog"
  | StateCreateP "bytes option" prog
  | StateReadonlyP "bytes \<Rightarrow> bool" "bytes option \<Rightarrow> prog"
  | StateTransactionP "(bytes \<Rightarrow> bool) option" "bytes option \<Rightarrow> prog" "rval \<Rightarrow> prog"
  | SendP address uint64 "bytes option" bigint "bytes \<Rightarrow> exitcode \<Rightarrow> prog"
  | ChargeGasP int int prog
  | SyscallP syscall "bytes option \<Rightarrow> prog"

type_synonym export = "(bytes \<Rightarrow> unit + (Message \<Rightarrow> epoch \<Rightarrow> prog)) option"

record VM =
  cstate :: StateTree
  blocks :: "cid \<rightharpoonup> bytes"
  blockHeight :: epoch

record Runtime =
  vmsg :: Message
  height :: epoch
  pricelist :: pricelistV0
  gasAvailable :: int
  gasUsed :: int
  origin :: address
  originNonce :: uint64
  numActorsCreated :: uint64
  allowInternal :: bool
  callerValidated :: bool

text \<open>
  What the VM takes from its libraries. \<open>sysUnder\<close> is the system call below the pricing layer:
  the charges of the blocks it reads and its result. \<open>blockNotFound\<close> says whether the error of
  the blockstore for a missing block answers \<open>IsNotFound\<close>; \<open>putFails\<close> when it refuses a block.
\<close>

record vm_env =
  tenv :: tree_env
  exitCode :: "sysExit \<Rightarrow> exitcode"
  exportsOf :: "cid \<rightharpoonup> export list"
  isBuiltinActor :: "cid \<Rightarrow> bool"
  isSingletonActor :: "cid \<Rightarrow> bool"
  AccountActorCodeID :: cid
  SystemActorAddr :: address
  RewardActorAddr :: address
  BurntFundsActorAddr :: address
  StorageMarketActorAddr :: address
  StoragePowerActorAddr :: address
  MethodsAccountConstructor :: uint64
  EmptyObjectCid :: cid
  blockHash :: "bytes \<Rightarrow> cid"
  blockNotFound :: bool
  putFails :: "bytes \<Rightarrow> bool"
  marshalAddress :: "address \<Rightarrow> bytes option"
  hashActorAddress :: "bytes \<Rightarrow> address option"
  decodeAccountState :: "bytes \<Rightarrow> address option"
  decodeMarketState :: "bytes \<Rightarrow> (bigint \<times> bigint \<times> bigint) option"
  decodePowerState :: "bytes \<Rightarrow> bigint option"
  randomness :: "int \<Rightarrow> epoch \<Rightarrow> bytes \<Rightarrow> bytes option"
  vestedFunds :: "epoch \<Rightarrow> bigint option"
  sysUnder :: "StateTree \<Rightarrow> (cid \<rightharpoonup> bytes) \<Rightarrow> syscall \<Rightarrow> GasCharge list \<times> bytes option"
  proofType0 :: RegisteredPoStProof

section \<open>Runtime computations\<close>

type_synonym 'a rtm = "Runtime \<times> VM \<Rightarrow> (panic + 'a) \<times> Runtime \<times> VM"

definition rret :: "'a \<Rightarrow> 'a rtm" where
  "rret x s = (Inr x, s)"

definition rpanic :: "panic \<Rightarrow> 'a rtm" where
  "rpanic p s = (Inl p, s)"

definition rbind :: "'a rtm \<Rightarrow> ('a \<Rightarrow> 'b rtm) \<Rightarrow> 'b rtm" where
  "rbind f g s = (case f s of (Inl p, s1) \<Rightarrow> (Inl p, s1) | (Inr x, s1) \<Rightarrow> g x s1)"

definition rget :: "(Runtime \<times> VM \<Rightarrow> 'a) \<Rightarrow> 'a rtm" where
  "rget f s = (Inr (f s), s)"

definition rmod :: "(Runtime \<Rightarrow> Runtime) \<Rightarrow> unit rtm" where
  "rmod f s = (Inr (), f (fst s), snd s)"

text \<open>An operation of the state tree of the VM, its error returned as a value.\<close>

definition rtree :: "(StateTree \<Rightarrow> 'a \<times> StateTree) \<Rightarrow> 'a rtm" where
  "rtree f s = (let (r, st) = f (cstate (snd s)) in (Inr r, fst s, (snd s)\<lparr>cstate := st\<rparr>))"

definition Abortf :: "vm_env \<Rightarrow> sysExit \<Rightarrow> 'a rtm" where
  "Abortf E c = rpanic (PAerr (Newf (exitCode E c)))"

definition fatal_panic :: "'a rtm" where
  "fatal_panic = rpanic (PAerr Fatalf)"

section \<open>Gas\<close>

definition gasOnActorExec :: GasCharge where
  "gasOnActorExec = newGasCharge ''OnActorExec'' 0 0"

definition chargeGasInternal :: "vm_env \<Rightarrow> GasCharge \<Rightarrow> Runtime \<Rightarrow> actorError option \<times> Runtime" where
  "chargeGasInternal E gas rt =
     (let toUse = Total gas in
      if gasUsed rt > i64 (gasAvailable rt - toUse)
      then (Some (Newf (exitCode E SysErrOutOfGas)), rt\<lparr>gasUsed := gasAvailable rt\<rparr>)
      else (None, rt\<lparr>gasUsed := i64 (gasUsed rt + toUse)\<rparr>))"

definition chargeGasSafe :: "vm_env \<Rightarrow> GasCharge \<Rightarrow> actorError option rtm" where
  "chargeGasSafe E gas s =
     (let (err, rt) = chargeGasInternal E gas (fst s) in (Inr err, rt, snd s))"

definition chargeGas :: "vm_env \<Rightarrow> GasCharge \<Rightarrow> unit rtm" where
  "chargeGas E gas =
     rbind (chargeGasSafe E gas) (\<lambda>err. case err of None \<Rightarrow> rret () | Some e \<Rightarrow> rpanic (PAerr e))"

definition ChargeGas :: "vm_env \<Rightarrow> int \<Rightarrow> int \<Rightarrow> unit rtm" where
  "ChargeGas E compute virtual =
     chargeGas E (WithVirtual (newGasCharge ''ChargeGas'' compute 0) virtual 0)"

primrec chargeAll :: "vm_env \<Rightarrow> GasCharge list \<Rightarrow> unit rtm" where
  "chargeAll E [] = rret ()"
| "chargeAll E (g # gs) = rbind (chargeGas E g) (\<lambda>_. chargeAll E gs)"

section \<open>The gas-charging block store\<close>

datatype geterr = BlockMissing | BlockUndecodable

definition blocks_Get :: "vm_env \<Rightarrow> cid \<Rightarrow> (geterr + bytes) rtm" where
  "blocks_Get E c =
     rbind (rget (pricelist \<circ> fst)) (\<lambda>pl.
     rbind (chargeGas E (OnIpldGet pl)) (\<lambda>_.
     rbind (rget (\<lambda>s. blocks (snd s) c)) (\<lambda>blk.
       case blk of None \<Rightarrow> rret (Inl BlockMissing)
       | Some b \<Rightarrow>
           rbind (chargeGas E (newGasCharge ''OnIpldGetEnd'' 0 0)) (\<lambda>_.
           rbind (chargeGas E gasOnActorExec) (\<lambda>_. rret (Inr b))))))"

text \<open>\<open>Inl\<close> is a refused write.\<close>

definition blocks_Put :: "vm_env \<Rightarrow> bytes \<Rightarrow> (unit + cid) rtm" where
  "blocks_Put E b =
     rbind (rget (pricelist \<circ> fst)) (\<lambda>pl.
     rbind (chargeGas E (OnIpldPut pl (int (length b)))) (\<lambda>_.
       if putFails E b then rret (Inl ())
       else
         rbind (\<lambda>s. (Inr (), fst s, (snd s)\<lparr>blocks := (blocks (snd s))(blockHash E b \<mapsto> b)\<rparr>)) (\<lambda>_.
         rbind (chargeGas E gasOnActorExec) (\<lambda>_. rret (Inr (blockHash E b))))))"

definition cst_Get :: "vm_env \<Rightarrow> cid \<Rightarrow> (bytes \<Rightarrow> bool) \<Rightarrow> (geterr + bytes) rtm" where
  "cst_Get E c decodes =
     rbind (blocks_Get E c) (\<lambda>r. case r of
       Inl e \<Rightarrow> rret (Inl e)
     | Inr b \<Rightarrow> rret (if decodes b then Inr b else Inl BlockUndecodable))"

text \<open>
  \<open>Runtime.Get\<close>: an error that does not answer \<open>IsNotFound\<close> is fatal, an undecodable block
  included.
\<close>

definition rt_Get :: "vm_env \<Rightarrow> cid \<Rightarrow> (bytes \<Rightarrow> bool) \<Rightarrow> bytes option rtm" where
  "rt_Get E c decodes =
     rbind (cst_Get E c decodes) (\<lambda>r. case r of
       Inr b \<Rightarrow> rret (Some b)
     | Inl BlockMissing \<Rightarrow> if blockNotFound E then rret None else fatal_panic
     | Inl BlockUndecodable \<Rightarrow> fatal_panic)"

definition rt_Put :: "vm_env \<Rightarrow> bytes option \<Rightarrow> cid rtm" where
  "rt_Put E x =
     (case x of None \<Rightarrow> Abortf E ErrSerialization
      | Some b \<Rightarrow> rbind (blocks_Put E b) (\<lambda>r. case r of Inl _ \<Rightarrow> fatal_panic | Inr c \<Rightarrow> rret c))"

section \<open>Funds\<close>

definition deductFunds :: "Actor \<Rightarrow> bigint \<Rightarrow> sterr + Actor" where
  "deductFunds act amt =
     (if actBalance act < amt then Inl ErrNotEnoughFunds
      else Inr (act\<lparr>actBalance := actBalance act - amt\<rparr>))"

definition depositFunds :: "Actor \<Rightarrow> bigint \<Rightarrow> Actor" where
  "depositFunds act amt = act\<lparr>actBalance := actBalance act + amt\<rparr>"

text \<open>The part of \<open>transfer\<close> after both addresses are resolved.\<close>

definition transferID ::
  "vm_env \<Rightarrow> StateTree \<Rightarrow> address \<Rightarrow> address \<Rightarrow> bigint \<Rightarrow> actorError option \<times> StateTree" where
  "transferID E st fromID toID amt =
     (if fromID = toID then (None, st)
      else if amt < 0 then (Some (Newf (exitCode E SysErrForbidden)), st)
      else case GetActor (tenv E) st fromID of
        (Inl _, st1) \<Rightarrow> (Some Fatalf, st1)
      | (Inr f, st1) \<Rightarrow>
          (case GetActor (tenv E) st1 toID of
             (Inl _, st2) \<Rightarrow> (Some Fatalf, st2)
           | (Inr t, st2) \<Rightarrow>
               (case deductFunds f amt of
                  Inl _ \<Rightarrow> (Some (Newf (exitCode E SysErrInsufficientFunds)), st2)
                | Inr f' \<Rightarrow>
                    (let t' = depositFunds t amt in
                     case SetActor (tenv E) st2 fromID f' of
                       (Inl _, st3) \<Rightarrow> (Some Fatalf, st3)
                     | (Inr _, st3) \<Rightarrow>
                         (case SetActor (tenv E) st3 toID t' of
                            (Inl _, st4) \<Rightarrow> (Some Fatalf, st4)
                          | (Inr _, st4) \<Rightarrow> (None, st4))))))"

definition transfer ::
  "vm_env \<Rightarrow> StateTree \<Rightarrow> address \<Rightarrow> address \<Rightarrow> bigint \<Rightarrow> actorError option \<times> StateTree" where
  "transfer E st from to amt =
     (if from = to then (None, st)
      else case LookupID (tenv E) st from of
        (Inl _, st1) \<Rightarrow> (Some Fatalf, st1)
      | (Inr fromID, st1) \<Rightarrow>
          (case LookupID (tenv E) st1 to of
             (Inl _, st2) \<Rightarrow> (Some Fatalf, st2)
           | (Inr toID, st2) \<Rightarrow> transferID E st2 fromID toID amt))"

text \<open>The gas holder is a detached actor: both functions return its new value.\<close>

definition transferToGasHolder ::
  "vm_env \<Rightarrow> StateTree \<Rightarrow> address \<Rightarrow> Actor \<Rightarrow> bigint \<Rightarrow> (sterr + Actor) \<times> StateTree" where
  "transferToGasHolder E st addr gasHolder amt =
     (if amt < 0 then (Inl ErrNegativeValue, st)
      else MutateActor (tenv E) st addr (\<lambda>a.
        case deductFunds a amt of Inl e \<Rightarrow> Inl e | Inr a' \<Rightarrow> Inr (a', depositFunds gasHolder amt)))"

definition transferFromGasHolder ::
  "vm_env \<Rightarrow> StateTree \<Rightarrow> address \<Rightarrow> Actor \<Rightarrow> bigint \<Rightarrow> (sterr + Actor) \<times> StateTree" where
  "transferFromGasHolder E st addr gasHolder amt =
     (if amt < 0 then (Inl ErrNegativeValue, st)
      else MutateActor (tenv E) st addr (\<lambda>a.
        case deductFunds gasHolder amt of Inl e \<Rightarrow> Inl e | Inr gh \<Rightarrow> Inr (depositFunds a amt, gh)))"

definition incrementNonce :: "vm_env \<Rightarrow> StateTree \<Rightarrow> address \<Rightarrow> (sterr + unit) \<times> StateTree" where
  "incrementNonce E st addr =
     MutateActor (tenv E) st addr (\<lambda>a. Inr (a\<lparr>actNonce := actNonce a + 1\<rparr>, ()))"

section \<open>Address resolution and account creation\<close>

definition ResolveToKeyAddr ::
  "vm_env \<Rightarrow> (cid \<rightharpoonup> bytes) \<Rightarrow> StateTree \<Rightarrow> address \<Rightarrow> (actorError + address) \<times> StateTree" where
  "ResolveToKeyAddr E bs st addr =
     (if Protocol (tenv E) addr = ProtoBLS \<or> Protocol (tenv E) addr = ProtoSECP256K1 then (Inr addr, st)
      else case GetActor (tenv E) st addr of
        (Inl _, st1) \<Rightarrow> (Inl (Newf (exitCode E SysErrInvalidParameters)), st1)
      | (Inr act, st1) \<Rightarrow>
          if actCode act \<noteq> AccountActorCodeID E
          then (Inl (Newf (exitCode E SysErrInvalidParameters)), st1)
          else case Option.bind (bs (actHead act)) (decodeAccountState E) of
            None \<Rightarrow> (Inl (the (Absorb (Some OtherErr) (exitCode E SysErrInvalidParameters))), st1)
          | Some a \<Rightarrow> (Inr a, st1))"

definition NewAccountActor :: "vm_env \<Rightarrow> Actor" where
  "NewAccountActor E =
     \<lparr>actCode = AccountActorCodeID E, actHead = EmptyObjectCid E, actNonce = 0, actBalance = 0\<rparr>"

definition makeActor :: "vm_env \<Rightarrow> address \<Rightarrow> actorError + Actor" where
  "makeActor E addr =
     (case Protocol (tenv E) addr of
        ProtoBLS \<Rightarrow> Inr (NewAccountActor E)
      | ProtoSECP256K1 \<Rightarrow> Inr (NewAccountActor E)
      | _ \<Rightarrow> Inl (Newf (exitCode E SysErrInvalidReceiver)))"

text \<open>
  \<open>TryCreateAccountActor\<close>, where \<open>isend\<close> is \<open>internalSend\<close>: sender, receiver, method, value and
  parameters to the returned bytes and the error.
\<close>

type_synonym isend = "address \<Rightarrow> address \<Rightarrow> uint64 \<Rightarrow> bigint \<Rightarrow> bytes \<Rightarrow> (bytes \<times> actorError option) rtm"

definition TryCreateAccountActor :: "vm_env \<Rightarrow> isend \<Rightarrow> address \<Rightarrow> (actorError + Actor) rtm" where
  "TryCreateAccountActor E isend addr =
     rbind (rget (\<lambda>s. PricelistByEpoch prices (height (fst s)))) (\<lambda>opl. case opl of
       None \<Rightarrow> rpanic POther
     | Some pl \<Rightarrow>
     rbind (chargeGasSafe E (OnCreateActor pl)) (\<lambda>err. case err of
       Some e \<Rightarrow> rret (Inl e)
     | None \<Rightarrow>
     rbind (rtree (\<lambda>st. RegisterNewAddress (tenv E) st addr)) (\<lambda>r. case r of
       Inl _ \<Rightarrow> rret (Inl Fatalf)
     | Inr addrID \<Rightarrow> (case makeActor E addr of
       Inl e \<Rightarrow> rret (Inl e)
     | Inr act \<Rightarrow>
     rbind (rtree (\<lambda>st. SetActor (tenv E) st addrID act)) (\<lambda>r. case r of
       Inl _ \<Rightarrow> rret (Inl Fatalf)
     | Inr _ \<Rightarrow> (case marshalAddress E addr of
       None \<Rightarrow> rret (Inl Fatalf)
     | Some p \<Rightarrow>
     rbind (isend (SystemActorAddr E) addrID (MethodsAccountConstructor E) 0 p) (\<lambda>(_, aerr). case aerr of
       Some e \<Rightarrow> rret (Inl e)
     | None \<Rightarrow>
     rbind (rtree (\<lambda>st. GetActor (tenv E) st addrID)) (\<lambda>r. case r of
       Inl _ \<Rightarrow> rret (Inl Fatalf)
     | Inr act \<Rightarrow> rret (Inr act)))))))))"

section \<open>The runtime interface\<close>

definition Receiver :: "Runtime \<Rightarrow> address" where
  "Receiver rt = msgTo (vmsg rt)"

definition Caller :: "Runtime \<Rightarrow> address" where
  "Caller rt = msgFrom (vmsg rt)"

definition rt_ResolveAddress :: "vm_env \<Rightarrow> address \<Rightarrow> address option rtm" where
  "rt_ResolveAddress E addr =
     rbind (rtree (\<lambda>st. LookupID (tenv E) st addr)) (\<lambda>r. case r of
       Inr a \<Rightarrow> rret (Some a)
     | Inl e \<Rightarrow> if isNotFound e then rret None else fatal_panic)"

definition rt_GetBalance :: "vm_env \<Rightarrow> address \<Rightarrow> (actorError + bigint) rtm" where
  "rt_GetBalance E a =
     rbind (rtree (\<lambda>st. GetActor (tenv E) st a)) (\<lambda>r. case r of
       Inr act \<Rightarrow> rret (Inr (actBalance act))
     | Inl ErrActorNotFound \<Rightarrow> rret (Inr 0)
     | Inl _ \<Rightarrow> rret (Inl Fatalf))"

definition CurrentBalance :: "vm_env \<Rightarrow> bigint rtm" where
  "CurrentBalance E =
     rbind (rget (Receiver \<circ> fst)) (\<lambda>to.
     rbind (rt_GetBalance E to) (\<lambda>r. case r of
       Inl e \<Rightarrow> rpanic (PAerr (Newf (aeRetCode e)))
     | Inr b \<Rightarrow> rret b))"

definition GetActorCodeCID :: "vm_env \<Rightarrow> address \<Rightarrow> cid option rtm" where
  "GetActorCodeCID E addr =
     rbind (rtree (\<lambda>st. GetActor (tenv E) st addr)) (\<lambda>r. case r of
       Inr act \<Rightarrow> rret (Some (actCode act))
     | Inl e \<Rightarrow> if isNotFound e then rret None else fatal_panic)"

definition GetRandomness :: "vm_env \<Rightarrow> int \<Rightarrow> epoch \<Rightarrow> bytes \<Rightarrow> bytes rtm" where
  "GetRandomness E pers randEpoch entropy =
     (case randomness E pers randEpoch entropy of None \<Rightarrow> fatal_panic | Some r \<Rightarrow> rret r)"

definition NewActorAddress :: "vm_env \<Rightarrow> address rtm" where
  "NewActorAddress E =
     rbind (rget (origin \<circ> fst)) (\<lambda>o1.
     rbind (\<lambda>s. let (r, st) = ResolveToKeyAddr E (blocks (snd s)) (cstate (snd s)) o1
                in (Inr r, fst s, (snd s)\<lparr>cstate := st\<rparr>)) (\<lambda>r.
     let oa = (case r of Inl _ \<Rightarrow> address_Undef | Inr a \<Rightarrow> a) in
     (case marshalAddress E oa of
       None \<Rightarrow> fatal_panic
     | Some b \<Rightarrow>
     rbind (rget (\<lambda>s. b @ be64 (originNonce (fst s)) @ be64 (numActorsCreated (fst s)))) (\<lambda>buf.
     (case hashActorAddress E buf of
       None \<Rightarrow> fatal_panic
     | Some addr \<Rightarrow>
     rbind (rmod (\<lambda>rt. rt\<lparr>numActorsCreated := numActorsCreated rt + 1\<rparr>)) (\<lambda>_. rret addr))))))"

definition CreateActor :: "vm_env \<Rightarrow> cid \<Rightarrow> address \<Rightarrow> unit rtm" where
  "CreateActor E codeID addr =
     (if \<not> isBuiltinActor E codeID then Abortf E SysErrorIllegalArgument
      else if isSingletonActor E codeID then Abortf E SysErrorIllegalArgument
      else
        rbind (rtree (\<lambda>st. GetActor (tenv E) st addr)) (\<lambda>r. case r of
          Inr _ \<Rightarrow> Abortf E SysErrorIllegalArgument
        | Inl _ \<Rightarrow>
        rbind (rget (pricelist \<circ> fst)) (\<lambda>pl.
        rbind (chargeGas E (OnCreateActor pl)) (\<lambda>_.
        rbind (rtree (\<lambda>st. SetActor (tenv E) st addr
          \<lparr>actCode = codeID, actHead = EmptyObjectCid E, actNonce = 0, actBalance = 0\<rparr>)) (\<lambda>r. case r of
          Inl _ \<Rightarrow> fatal_panic
        | Inr _ \<Rightarrow> rbind (chargeGasSafe E gasOnActorExec) (\<lambda>_. rret ()))))))"

text \<open>The address argument is not used: the receiver is deleted.\<close>

definition rt_DeleteActor :: "vm_env \<Rightarrow> address \<Rightarrow> unit rtm" where
  "rt_DeleteActor E addr =
     rbind (rget (pricelist \<circ> fst)) (\<lambda>pl.
     rbind (chargeGas E (OnDeleteActor pl)) (\<lambda>_.
     rbind (rget (Receiver \<circ> fst)) (\<lambda>to.
     rbind (rtree (\<lambda>st. GetActor (tenv E) st to)) (\<lambda>r. case r of
       Inl e \<Rightarrow> if isNotFound e then Abortf E SysErrorIllegalActor else fatal_panic
     | Inr act \<Rightarrow>
     rbind (if actBalance act = 0 then rret None
            else rtree (\<lambda>st. transfer E st to (BurntFundsActorAddr E) (actBalance act))) (\<lambda>err. case err of
       Some _ \<Rightarrow> fatal_panic
     | None \<Rightarrow>
     rbind (rtree (\<lambda>st. DeleteActor (tenv E) st to)) (\<lambda>r. case r of
       Inl _ \<Rightarrow> fatal_panic
     | Inr _ \<Rightarrow> rbind (chargeGasSafe E gasOnActorExec) (\<lambda>_. rret ())))))))"

definition FilAllocStorageMining :: int where "FilAllocStorageMining = 1100000000"

text \<open>Reading an actor, and its decoded state, while computing the circulating supply.\<close>

definition supply_actor :: "vm_env \<Rightarrow> address \<Rightarrow> Actor rtm" where
  "supply_actor E a =
     rbind (rtree (\<lambda>st. GetActor (tenv E) st a)) (\<lambda>r. case r of
       Inl _ \<Rightarrow> Abortf E ErrIllegalState | Inr act \<Rightarrow> rret act)"

definition supply_state :: "vm_env \<Rightarrow> cid \<Rightarrow> (bytes \<Rightarrow> 'b option) \<Rightarrow> 'b rtm" where
  "supply_state E c dec =
     rbind (cst_Get E c (\<lambda>b. dec b \<noteq> None)) (\<lambda>r. case r of
       Inl _ \<Rightarrow> Abortf E ErrIllegalState
     | Inr b \<Rightarrow> (case dec b of None \<Rightarrow> Abortf E ErrIllegalState | Some x \<Rightarrow> rret x))"

definition TotalFilCircSupply :: "vm_env \<Rightarrow> bigint rtm" where
  "TotalFilCircSupply E =
     rbind (rget (\<lambda>s. vestedFunds E (blockHeight (snd s)))) (\<lambda>v. case v of
       None \<Rightarrow> Abortf E ErrIllegalState
     | Some filVested \<Rightarrow>
     rbind (supply_actor E (RewardActorAddr E)) (\<lambda>rew.
     let filMined = max 0 (FromFil FilAllocStorageMining - actBalance rew) in
     rbind (supply_actor E (BurntFundsActorAddr E)) (\<lambda>burnt.
     let filBurned = actBalance burnt in
     rbind (supply_actor E (StorageMarketActorAddr E)) (\<lambda>market.
     rbind (supply_state E (actHead market) (decodeMarketState E)) (\<lambda>(clientLocked, providerLocked, clientFee).
     let filMarketLocked = clientLocked + providerLocked + clientFee in
     rbind (supply_actor E (StoragePowerActorAddr E)) (\<lambda>power.
     rbind (supply_state E (actHead power) (decodePowerState E)) (\<lambda>pledge.
     let filLocked = filMarketLocked + pledge in
     rret (max 0 (filVested + filMined - filBurned - filLocked)))))))))"

definition abortIfAlreadyValidated :: "vm_env \<Rightarrow> unit rtm" where
  "abortIfAlreadyValidated E =
     rbind (rget (callerValidated \<circ> fst)) (\<lambda>v.
       if v then Abortf E SysErrorIllegalActor else rmod (\<lambda>rt. rt\<lparr>callerValidated := True\<rparr>))"

definition ValidateImmediateCallerIs :: "vm_env \<Rightarrow> address list \<Rightarrow> unit rtm" where
  "ValidateImmediateCallerIs E as =
     rbind (abortIfAlreadyValidated E) (\<lambda>_.
     rbind (rget (Caller \<circ> fst)) (\<lambda>imm.
       if imm \<in> set as then rret () else Abortf E SysErrForbidden))"

definition ValidateImmediateCallerType :: "vm_env \<Rightarrow> cid list \<Rightarrow> unit rtm" where
  "ValidateImmediateCallerType E ts =
     rbind (abortIfAlreadyValidated E) (\<lambda>_.
     rbind (rget (Caller \<circ> fst)) (\<lambda>imm.
     rbind (GetActorCodeCID E imm) (\<lambda>r. case r of
       None \<Rightarrow> fatal_panic
     | Some callerCid \<Rightarrow> if callerCid \<in> set ts then rret () else Abortf E SysErrForbidden)))"

text \<open>\<open>stateCommit\<close> returns an error, which both of its callers drop.\<close>

definition stateCommit :: "vm_env \<Rightarrow> cid \<Rightarrow> cid \<Rightarrow> actorError option rtm" where
  "stateCommit E oldh newh =
     rbind (rget (Receiver \<circ> fst)) (\<lambda>to.
     rbind (rtree (\<lambda>st. GetActor (tenv E) st to)) (\<lambda>r. case r of
       Inl _ \<Rightarrow> rret (Some Fatalf)
     | Inr act \<Rightarrow>
       if actHead act \<noteq> oldh then rret (Some Fatalf)
       else
         rbind (rtree (\<lambda>st. SetActor (tenv E) st to (act\<lparr>actHead := newh\<rparr>))) (\<lambda>r. case r of
           Inl _ \<Rightarrow> rret (Some Fatalf) | Inr _ \<Rightarrow> rret None)))"

definition state_Create :: "vm_env \<Rightarrow> bytes option \<Rightarrow> unit rtm" where
  "state_Create E obj =
     rbind (rt_Put E obj) (\<lambda>c. rbind (stateCommit E (EmptyObjectCid E) c) (\<lambda>_. rret ()))"

definition state_Readonly :: "vm_env \<Rightarrow> (bytes \<Rightarrow> bool) \<Rightarrow> bytes option rtm" where
  "state_Readonly E decodes =
     rbind (rget (Receiver \<circ> fst)) (\<lambda>to.
     rbind (rtree (\<lambda>st. GetActor (tenv E) st to)) (\<lambda>r. case r of
       Inl _ \<Rightarrow> Abortf E SysErrorIllegalArgument
     | Inr act \<Rightarrow> rt_Get E (actHead act) decodes))"

definition state_Transaction ::
  "vm_env \<Rightarrow> (bytes \<Rightarrow> bool) option \<Rightarrow> (bytes option \<Rightarrow> (bytes option \<times> rval) rtm) \<Rightarrow> rval rtm" where
  "state_Transaction E obj f =
     (case obj of None \<Rightarrow> Abortf E SysErrorIllegalActor
      | Some decodes \<Rightarrow>
     rbind (rget (Receiver \<circ> fst)) (\<lambda>to.
     rbind (rtree (\<lambda>st. GetActor (tenv E) st to)) (\<lambda>r. case r of
       Inl _ \<Rightarrow> Abortf E SysErrorIllegalActor
     | Inr act \<Rightarrow>
     rbind (rt_Get E (actHead act) decodes) (\<lambda>o1.
     rbind (rmod (\<lambda>rt. rt\<lparr>allowInternal := False\<rparr>)) (\<lambda>_.
     rbind (f o1) (\<lambda>(o2, captured).
     rbind (rmod (\<lambda>rt. rt\<lparr>allowInternal := True\<rparr>)) (\<lambda>_.
     rbind (rt_Put E o2) (\<lambda>c.
     rbind (stateCommit E (actHead act) c) (\<lambda>_. rret captured)))))))))"

definition rt_Send ::
  "vm_env \<Rightarrow> isend \<Rightarrow> address \<Rightarrow> uint64 \<Rightarrow> bytes option \<Rightarrow> bigint \<Rightarrow> (bytes \<times> exitcode) rtm" where
  "rt_Send E isend to method m value =
     rbind (rget (allowInternal \<circ> fst)) (\<lambda>ai.
       if \<not> ai then Abortf E SysErrorIllegalActor
       else case m of None \<Rightarrow> Abortf E SysErrInvalidParameters
       | Some params \<Rightarrow>
         rbind (rget (Receiver \<circ> fst)) (\<lambda>from.
         rbind (isend from to method value params) (\<lambda>(ret, err). case err of
           Some e \<Rightarrow> if aeFatal e then rpanic (PAerr e) else rret ([], aeRetCode e)
         | None \<Rightarrow> rbind (chargeGasSafe E gasOnActorExec) (\<lambda>_. rret (ret, 0)))))"

section \<open>Priced system calls\<close>

definition syscall_charge :: "vm_env \<Rightarrow> pricelistV0 \<Rightarrow> syscall \<Rightarrow> GasCharge option" where
  "syscall_charge E pl call =
     (case call of
        SysVerifySignature sigTy signer plaintext \<Rightarrow>
          (case OnVerifySignature pl sigTy (int (length plaintext)) of Inl _ \<Rightarrow> None | Inr c \<Rightarrow> Some c)
      | SysHashBlake2b data \<Rightarrow> Some (OnHashing pl (int (length data)))
      | SysComputeUnsealedSectorCID pieces \<Rightarrow> Some (OnComputeUnsealedSectorCid pl)
      | SysVerifySeal info \<Rightarrow> Some (OnVerifySeal pl)
      | SysVerifyPoSt proofs challenged info \<Rightarrow> Some (OnVerifyPost pl (proofType0 E) proofs challenged)
      | SysBatchVerifySeals inp \<Rightarrow> Some (newGasCharge ''BatchVerifySeals'' 0 0)
      | SysVerifyConsensusFault h1 h2 extra \<Rightarrow> Some (OnVerifyConsensusFault pl))"

definition pricedSyscall :: "vm_env \<Rightarrow> syscall \<Rightarrow> bytes option rtm" where
  "pricedSyscall E call =
     rbind (rget (pricelist \<circ> fst)) (\<lambda>pl. case syscall_charge E pl call of
       None \<Rightarrow> rret None
     | Some c \<Rightarrow>
     rbind (chargeGas E c) (\<lambda>_.
     rbind (rget (\<lambda>s. sysUnder E (cstate (snd s)) (blocks (snd s)) call)) (\<lambda>(charges, res).
     rbind (chargeAll E charges) (\<lambda>_.
     rbind (chargeGas E gasOnActorExec) (\<lambda>_. rret res)))))"

section \<open>Running actor code\<close>

primrec run_prog :: "vm_env \<Rightarrow> isend \<Rightarrow> prog \<Rightarrow> (bytes option \<times> rval) rtm" where
  "run_prog E S (Done obj r) = rret (obj, r)"
| "run_prog E S (AbortP c) = rpanic (PAerr (Newf c))"
| "run_prog E S PanicP = rpanic POther"
| "run_prog E S (ValidateAcceptAnyP k) = rbind (abortIfAlreadyValidated E) (\<lambda>_. run_prog E S k)"
| "run_prog E S (ValidateIsP as k) = rbind (ValidateImmediateCallerIs E as) (\<lambda>_. run_prog E S k)"
| "run_prog E S (ValidateTypeP ts k) = rbind (ValidateImmediateCallerType E ts) (\<lambda>_. run_prog E S k)"
| "run_prog E S (CurrentBalanceP k) = rbind (CurrentBalance E) (\<lambda>b. run_prog E S (k b))"
| "run_prog E S (ResolveAddressP a k) = rbind (rt_ResolveAddress E a) (\<lambda>r. run_prog E S (k r))"
| "run_prog E S (GetActorCodeCIDP a k) = rbind (GetActorCodeCID E a) (\<lambda>r. run_prog E S (k r))"
| "run_prog E S (GetRandomnessP p e en k) = rbind (GetRandomness E p e en) (\<lambda>r. run_prog E S (k r))"
| "run_prog E S (NewActorAddressP k) = rbind (NewActorAddress E) (\<lambda>a. run_prog E S (k a))"
| "run_prog E S (CreateActorP c a k) = rbind (CreateActor E c a) (\<lambda>_. run_prog E S k)"
| "run_prog E S (DeleteActorP a k) = rbind (rt_DeleteActor E a) (\<lambda>_. run_prog E S k)"
| "run_prog E S (TotalFilCircSupplyP k) = rbind (TotalFilCircSupply E) (\<lambda>b. run_prog E S (k b))"
| "run_prog E S (StoreGetP c d k) = rbind (rt_Get E c d) (\<lambda>r. run_prog E S (k r))"
| "run_prog E S (StorePutP x k) = rbind (rt_Put E x) (\<lambda>c. run_prog E S (k c))"
| "run_prog E S (StateCreateP x k) = rbind (state_Create E x) (\<lambda>_. run_prog E S k)"
| "run_prog E S (StateReadonlyP d k) = rbind (state_Readonly E d) (\<lambda>r. run_prog E S (k r))"
| "run_prog E S (StateTransactionP d f k) =
     rbind (state_Transaction E d (\<lambda>x. run_prog E S (f x))) (\<lambda>r. run_prog E S (k r))"
| "run_prog E S (SendP to method m v k) =
     rbind (rt_Send E S to method m v) (\<lambda>(ret, code). run_prog E S (k ret code))"
| "run_prog E S (ChargeGasP c v k) = rbind (ChargeGas E c v) (\<lambda>_. run_prog E S k)"
| "run_prog E S (SyscallP call k) = rbind (pricedSyscall E call) (\<lambda>r. run_prog E S (k r))"

text \<open>
  \<open>shimCall\<close>: a panic with an actor error becomes that error, any other panic exit code 1; a
  method that did not validate its caller is aborted.
\<close>

definition shimCall :: "vm_env \<Rightarrow> (bytes option \<times> rval) rtm \<Rightarrow> (bytes \<times> actorError option) rtm" where
  "shimCall E f s =
     (case f s of
        (Inl PFuel, s1) \<Rightarrow> (Inl PFuel, s1)
      | (Inl (PAerr ar), s1) \<Rightarrow> (Inr ([], Some ar), s1)
      | (Inl POther, s1) \<Rightarrow> (Inr ([], Some (Newf 1)), s1)
      | (Inr (_, ret), s1) \<Rightarrow>
          (Inr (if \<not> callerValidated (fst s1) then ([], Some (Newf (exitCode E SysErrorIllegalActor)))
                else case ret of
                  RBytes b \<Rightarrow> (b, None)
                | REmptyValue \<Rightarrow> ([], None)
                | RMarshaler (Some b) \<Rightarrow> (b, None)
                | RMarshaler None \<Rightarrow> ([], Absorb (Some OtherErr) 2)
                | RNil \<Rightarrow> ([], None)
                | ROther \<Rightarrow> ([], Some (Newf 3))), s1))"

text \<open>
  \<open>transform\<close> wraps every export of an actor, a nil one too: calling that one is a panic of the
  reflect package outside of \<open>shimCall\<close>.
\<close>

type_synonym invokeFunc = "vm_env \<Rightarrow> isend \<Rightarrow> bytes \<Rightarrow> (bytes \<times> actorError option) rtm"

definition transform_export :: "export \<Rightarrow> invokeFunc" where
  "transform_export m E S params =
     (case m of None \<Rightarrow> rpanic POther
      | Some meth \<Rightarrow>
          (case meth params of
             Inl _ \<Rightarrow> rret ([], Absorb (Some OtherErr) 1)
           | Inr code \<Rightarrow> shimCall E (rbind (rget fst) (\<lambda>rt. run_prog E S (code (vmsg rt) (height rt))))))"

definition transform :: "export list \<Rightarrow> invokeFunc option list" where
  "transform exports = map (\<lambda>m. Some (transform_export m)) exports"

definition Invoker_Invoke ::
  "vm_env \<Rightarrow> isend \<Rightarrow> cid \<Rightarrow> uint64 \<Rightarrow> bytes \<Rightarrow> (bytes \<times> actorError option) rtm" where
  "Invoker_Invoke E S codeCid method params =
     (case map_option transform (exportsOf E codeCid) of
        None \<Rightarrow> rret ([], Some (Newf (exitCode E SysErrorIllegalActor)))
      | Some code \<Rightarrow>
          if unat method \<ge> length code then rret ([], Some (Newf (exitCode E SysErrInvalidMethod)))
          else case code ! unat method of
            None \<Rightarrow> rret ([], Some (Newf (exitCode E SysErrInvalidMethod)))
          | Some f \<Rightarrow> f E S params)"

definition VM_Invoke ::
  "vm_env \<Rightarrow> isend \<Rightarrow> Actor \<Rightarrow> uint64 \<Rightarrow> bytes \<Rightarrow> (bytes \<times> actorError option) rtm" where
  "VM_Invoke E S act method params =
     rbind (Invoker_Invoke E S (actCode act) method params) (\<lambda>(ret, err).
       case err of Some _ \<Rightarrow> rret ([], err) | None \<Rightarrow> rret (ret, None))"

section \<open>Sending\<close>

text \<open>\<open>None\<close> as the runtime means that none was made.\<close>

definition makeRuntime ::
  "vm_env \<Rightarrow> VM \<Rightarrow> Message \<Rightarrow> address \<Rightarrow> uint64 \<Rightarrow> int \<Rightarrow> uint64 \<Rightarrow> (panic + Runtime) \<times> VM" where
  "makeRuntime E vm msg orig origNonce usedGas nac =
     (case PricelistByEpoch prices (blockHeight vm) of
        None \<Rightarrow> (Inl POther, vm)
      | Some pl \<Rightarrow>
          (let rt = \<lparr>vmsg = msg, height = blockHeight vm, pricelist = pl,
                     gasAvailable = msgGasLimit msg, gasUsed = usedGas, origin = orig,
                     originNonce = origNonce, numActorsCreated = nac, allowInternal = True,
                     callerValidated = False\<rparr>
           in case rt_ResolveAddress E (msgFrom msg) (rt, vm) of
                (Inl p, _, vm1) \<Rightarrow> (Inl p, vm1)
              | (Inr None, _, vm1) \<Rightarrow> (Inl (PAerr (Newf (exitCode E SysErrInvalidReceiver))), vm1)
              | (Inr (Some resF), rt1, vm1) \<Rightarrow> (Inr (rt1\<lparr>vmsg := msg\<lparr>msgFrom := resF\<rparr>\<rparr>), vm1)))"

text \<open>The function literal inside \<open>send\<close>.\<close>

definition send_rest :: "vm_env \<Rightarrow> isend \<Rightarrow> Message \<Rightarrow> Actor \<Rightarrow> (bytes \<times> actorError option) rtm" where
  "send_rest E S msg toActor =
     rbind (rget (pricelist \<circ> fst)) (\<lambda>pl.
     rbind (chargeGasSafe E (OnMethodInvocation pl (bigOf (msgValue msg)) (msgMethod msg))) (\<lambda>aerr.
       case aerr of
         Some _ \<Rightarrow> rret ([], Wrap aerr)
       | None \<Rightarrow>
       rbind
         (rbind (if bigOf (msgValue msg) = 0 then rret None
                 else rtree (\<lambda>st. transfer E st (msgFrom msg) (msgTo msg) (bigOf (msgValue msg)))) (\<lambda>err.
            case err of
              Some _ \<Rightarrow> rret ([], Wrap err)
            | None \<Rightarrow>
              if msgMethod msg \<noteq> 0 then
                rbind (chargeGasSafe E gasOnActorExec) (\<lambda>_.
                  VM_Invoke E S toActor (msgMethod msg) (msgParams msg))
              else rret ([], None)))
         (\<lambda>res. rbind (chargeGasSafe E (newGasCharge ''OnMethodInvocationDone'' 0 0)) (\<lambda>_. rret res))))"

definition send_body :: "vm_env \<Rightarrow> isend \<Rightarrow> Message \<Rightarrow> (bytes \<times> actorError option) rtm" where
  "send_body E S msg =
     rbind (chargeGasSafe E (newGasCharge ''OnGetActor'' 0 0)) (\<lambda>_.
     rbind (rtree (\<lambda>st. GetActor (tenv E) st (msgTo msg))) (\<lambda>r. case r of
       Inr toActor \<Rightarrow> send_rest E S msg toActor
     | Inl e \<Rightarrow>
         if isNotFound e then
           rbind (TryCreateAccountActor E S (msgTo msg)) (\<lambda>r. case r of
             Inl aerr \<Rightarrow> rret ([], Wrap (Some aerr))
           | Inr a \<Rightarrow> send_rest E S msg a)
         else rret ([], Escalate (Some OtherErr))))"

type_synonym send_res = "(panic + bytes \<times> actorError option) \<times> Runtime option \<times> VM"

text \<open>
  \<open>internalSend\<close>, where \<open>sendf\<close> is \<open>send\<close>. The gas used by the callee is written back to the
  caller by a deferred function of \<open>send\<close>, on a panic too; the snapshot is cleared on every
  exit. With no layer to merge into, clearing panics; running out of fuel stays what it is.
\<close>

definition internalSend :: "(Message \<Rightarrow> Runtime option \<Rightarrow> GasCharge option \<Rightarrow> VM \<Rightarrow> send_res) \<Rightarrow> isend" where
  "internalSend sendf from to method value params s =
     (let rt = fst s; vm = snd s;
          msg = \<lparr>msgVersion = 0, msgTo = to, msgFrom = from, msgNonce = 0, msgValue = Some value,
                 msgGasPrice = None, msgGasLimit = gasAvailable rt, msgMethod = method,
                 msgParams = params\<rparr>;
          (res, subrt, vm1) = sendf msg (Some rt) None (vm\<lparr>cstate := Snapshot (cstate vm)\<rparr>);
          rt1 = (case subrt of None \<Rightarrow> rt | Some sub \<Rightarrow> rt\<lparr>gasUsed := gasUsed sub\<rparr>);
          st2 = (case res of Inr (_, Some _) \<Rightarrow> Revert (cstate vm1) | _ \<Rightarrow> cstate vm1);
          rt2 = (case (res, subrt) of
                   (Inr _, Some sub) \<Rightarrow> rt1\<lparr>numActorsCreated := numActorsCreated sub\<rparr> | _ \<Rightarrow> rt1)
      in case ClearSnapshot st2 of
           None \<Rightarrow> (Inl (if res = Inl PFuel then PFuel else POther), rt2, vm1\<lparr>cstate := st2\<rparr>)
         | Some st3 \<Rightarrow> (res, rt2, vm1\<lparr>cstate := st3\<rparr>))"

primrec send ::
  "vm_env \<Rightarrow> nat \<Rightarrow> Message \<Rightarrow> Runtime option \<Rightarrow> GasCharge option \<Rightarrow> VM \<Rightarrow> send_res" where
  "send E 0 = (\<lambda>msg parent gasCharge vm. (Inl PFuel, None, vm))"
| "send E (Suc n) = (\<lambda>msg parent gasCharge vm.
     let (orig, on, gasU, nac) =
           (case parent of
              None \<Rightarrow> (msgFrom msg, msgNonce msg, 0, 0)
            | Some p \<Rightarrow> (origin p, originNonce p, gasUsed p, numActorsCreated p))
     in case makeRuntime E vm msg orig on gasU nac of
          (Inl p, vm1) \<Rightarrow> (Inl p, None, vm1)
        | (Inr rt, vm1) \<Rightarrow>
            (let (res, rt2, vm2) =
               rbind (case gasCharge of None \<Rightarrow> rret None | Some g \<Rightarrow> chargeGasSafe E g) (\<lambda>err.
                 case err of
                   Some _ \<Rightarrow> rret ([], Wrap err)
                 | None \<Rightarrow> send_body E (internalSend (send E n)) msg) (rt, vm1)
             in (res, Some rt2, vm2)))"

section \<open>Applying messages\<close>

record ApplyRet =
  arExitCode :: exitcode
  arReturn :: bytes
  arGasUsed :: int
  arActorErr :: "actorError option"
  arPenalty :: bigint

datatype applyErr = ErrNoGasLimit | ErrNegativeGasLimit | ErrNoGasPrice | ErrNoValue
  | ErrFromLookup | ErrWithdrawGas | ErrIncrementNonce | ErrFatalSend | ErrReturnWithError
  | ErrRefundGas | ErrGasReward | ErrGasMath | ApplyPanic panic

definition checkMessage :: "Message \<Rightarrow> applyErr + unit" where
  "checkMessage msg =
     (if msgGasLimit msg = 0 then Inl ErrNoGasLimit
      else if msgGasLimit msg < 0 then Inl ErrNegativeGasLimit
      else if msgGasPrice msg = None then Inl ErrNoGasPrice
      else if msgValue msg = None then Inl ErrNoValue
      else Inr ())"

definition ApplyImplicitMessage :: "vm_env \<Rightarrow> nat \<Rightarrow> VM \<Rightarrow> Message \<Rightarrow> (panic + ApplyRet) \<times> VM" where
  "ApplyImplicitMessage E fuel vm msg =
     (case send E fuel msg None None vm of
        (Inl p, _, vm1) \<Rightarrow> (Inl p, vm1)
      | (Inr (ret, actorErr), _, vm1) \<Rightarrow>
          (Inr \<lparr>arExitCode = RetCode actorErr, arReturn = ret, arGasUsed = 0,
                arActorErr = actorErr, arPenalty = 0\<rparr>, vm1))"

definition rejected :: "exitcode \<Rightarrow> actorError option \<Rightarrow> bigint \<Rightarrow> ApplyRet" where
  "rejected code err penalty =
     \<lparr>arExitCode = code, arReturn = [], arGasUsed = 0, arActorErr = err, arPenalty = penalty\<rparr>"

text \<open>The refund of unused gas and the reward, and the check that the gas holder ends empty.\<close>

definition settle_gas ::
  "vm_env \<Rightarrow> Message \<Rightarrow> Actor \<Rightarrow> int \<Rightarrow> StateTree \<Rightarrow> (applyErr + unit) \<times> StateTree" where
  "settle_gas E msg gasHolder gasU st =
     (let price = bigOf (msgGasPrice msg);
          refund = NewInt (i64 (msgGasLimit msg - gasU)) * price
      in case transferFromGasHolder E st (msgFrom msg) gasHolder refund of
           (Inl _, st1) \<Rightarrow> (Inl ErrRefundGas, st1)
         | (Inr gasHolder1, st1) \<Rightarrow>
             (let gasReward = price * NewInt gasU
              in case transferFromGasHolder E st1 (RewardActorAddr E) gasHolder1 gasReward of
                   (Inl _, st2) \<Rightarrow> (Inl ErrGasReward, st2)
                 | (Inr gasHolder2, st2) \<Rightarrow>
                     (if actBalance gasHolder2 \<noteq> 0 then Inl ErrGasMath else Inr (), st2)))"

text \<open>
  \<open>ApplyMessage\<close> after the send: the charge for the returned value, the revert of a failed
  message, and the settlement. The runtime \<open>rt\<close> is the one \<open>send\<close> returned.
\<close>

definition settle ::
  "vm_env \<Rightarrow> Message \<Rightarrow> Actor \<Rightarrow> bytes \<Rightarrow> actorError option \<Rightarrow> Runtime \<Rightarrow> StateTree
     \<Rightarrow> (applyErr + ApplyRet) \<times> StateTree" where
  "settle E msg gasHolder ret actorErr rt st =
     (if IsFatal actorErr then (Inl ErrFatalSend, st)
      else if actorErr \<noteq> None \<and> ret \<noteq> [] then (Inl ErrReturnWithError, st)
      else
        let (actorErr, rt) = (if ret \<noteq> [] then chargeGasInternal E (OnChainReturnValue (pricelist rt) (int (length ret))) rt
                              else (actorErr, rt));
            ret = (if ret \<noteq> [] \<and> actorErr \<noteq> None then [] else ret);
            errcode = RetCode actorErr;
            st1 = (if errcode \<noteq> 0 then Revert st else st);
            gasU = max 0 (gasUsed rt)
        in case settle_gas E msg gasHolder gasU st1 of
             (Inl e, st2) \<Rightarrow> (Inl e, st2)
           | (Inr _, st2) \<Rightarrow>
               (Inr \<lparr>arExitCode = errcode, arReturn = ret, arGasUsed = gasU,
                     arActorErr = actorErr, arPenalty = 0\<rparr>, st2))"

text \<open>
  \<open>ApplyMessage\<close> from the snapshot on; clearing the snapshot is deferred to every exit.
\<close>

definition ApplyMessage_send ::
  "vm_env \<Rightarrow> nat \<Rightarrow> VM \<Rightarrow> Message \<Rightarrow> GasCharge \<Rightarrow> Actor \<Rightarrow> (applyErr + ApplyRet) \<times> VM" where
  "ApplyMessage_send E fuel vm msg msgGas gasHolder =
     (let (res, ort, vm1) = send E fuel msg None (Some msgGas) (vm\<lparr>cstate := Snapshot (cstate vm)\<rparr>);
          (r, st) = (case (res, ort) of
                       (Inl p, _) \<Rightarrow> (Inl (ApplyPanic p), cstate vm1)
                     | (Inr (ret, actorErr), Some rt) \<Rightarrow> settle E msg gasHolder ret actorErr rt (cstate vm1)
                     | (Inr _, None) \<Rightarrow> (Inl (ApplyPanic POther), cstate vm1))
      in case ClearSnapshot st of
           None \<Rightarrow> (Inl (ApplyPanic POther), vm1\<lparr>cstate := st\<rparr>)
         | Some st' \<Rightarrow> (r, vm1\<lparr>cstate := st'\<rparr>))"

definition ApplyMessage :: "vm_env \<Rightarrow> nat \<Rightarrow> VM \<Rightarrow> Message \<Rightarrow> int \<Rightarrow> (applyErr + ApplyRet) \<times> VM" where
  "ApplyMessage E fuel vm msg chainLength =
     (case checkMessage msg of
        Inl e \<Rightarrow> (Inl e, vm)
      | Inr _ \<Rightarrow>
      (case PricelistByEpoch prices (blockHeight vm) of
        None \<Rightarrow> (Inl (ApplyPanic POther), vm)
      | Some pl \<Rightarrow>
      (let msgGas = OnChainMessage pl chainLength;
           msgGasCost = Total msgGas;
           price = bigOf (msgGasPrice msg);
           minerPenaltyAmount = price * NewInt msgGasCost
       in if msgGasCost > msgGasLimit msg
          then (Inr (rejected (exitCode E SysErrOutOfGas) None minerPenaltyAmount), vm)
          else case GetActor (tenv E) (cstate vm) (msgFrom msg) of
            (Inl e, st1) \<Rightarrow>
              (if isNotFound e
               then Inr (rejected (exitCode E SysErrSenderInvalid)
                      (Some (Newf (exitCode E SysErrSenderInvalid))) minerPenaltyAmount)
               else Inl ErrFromLookup, vm\<lparr>cstate := st1\<rparr>)
          | (Inr fromActor, st1) \<Rightarrow>
              if actCode fromActor \<noteq> AccountActorCodeID E
              then (Inr (rejected (exitCode E SysErrSenderInvalid)
                      (Some (Newf (exitCode E SysErrSenderInvalid))) minerPenaltyAmount), vm\<lparr>cstate := st1\<rparr>)
              else if msgNonce msg \<noteq> actNonce fromActor
              then (Inr (rejected (exitCode E SysErrSenderStateInvalid)
                      (Some (Newf (exitCode E SysErrSenderStateInvalid))) minerPenaltyAmount), vm\<lparr>cstate := st1\<rparr>)
              else let gascost = NewInt (msgGasLimit msg) * price
                   in if actBalance fromActor < gascost
                      then (Inr (rejected (exitCode E SysErrSenderStateInvalid)
                              (Some (Newf (exitCode E SysErrSenderStateInvalid))) minerPenaltyAmount), vm\<lparr>cstate := st1\<rparr>)
                      else case transferToGasHolder E st1 (msgFrom msg) zeroActor gascost of
                        (Inl _, st2) \<Rightarrow> (Inl ErrWithdrawGas, vm\<lparr>cstate := st2\<rparr>)
                      | (Inr gasHolder, st2) \<Rightarrow>
                          (case incrementNonce E st2 (msgFrom msg) of
                             (Inl _, st3) \<Rightarrow> (Inl ErrIncrementNonce, vm\<lparr>cstate := st3\<rparr>)
                           | (Inr _, st3) \<Rightarrow>
                               ApplyMessage_send E fuel (vm\<lparr>cstate := st3\<rparr>) msg msgGas gasHolder))))"

definition ActorBalance :: "vm_env \<Rightarrow> VM \<Rightarrow> address \<Rightarrow> (actorError + bigint) \<times> VM" where
  "ActorBalance E vm addr =
     (case GetActor (tenv E) (cstate vm) addr of
        (Inl _, st) \<Rightarrow> (Inl (the (Absorb (Some OtherErr) 1)), vm\<lparr>cstate := st\<rparr>)
      | (Inr act, st) \<Rightarrow> (Inr (actBalance act), vm\<lparr>cstate := st\<rparr>))"

end
