(* ===== verification/VM_Funds.thy ===== *)
theory VM_Funds
  imports VM_Runtime
begin

text \<open>
  Funds in the virtual machine: what every operation of the VM does to the sum of all actor
  balances. The combinators of runtime computations are treated once, for a family of
  relations between states indexed by a cost, in the locale \<open>rt_relation\<close>; it is interpreted
  for funds here and for the gas meter in \<open>VM_Meter\<close>.
\<close>

section \<open>Relations kept by runtime computations\<close>

locale rt_relation =
  fixes R :: "nat \<Rightarrow> Runtime \<times> VM \<Rightarrow> Runtime \<times> VM \<Rightarrow> bool"
  assumes R_refl: "R k s s" and R_trans: "R k s t \<Longrightarrow> R l t u \<Longrightarrow> R (k + l) s u"
begin

definition keeps :: "nat \<Rightarrow> 'a rtm \<Rightarrow> bool" where
  "keeps k m \<longleftrightarrow> (\<forall>s. R k s (snd (m s)))"

lemma keeps_rret: "keeps k (rret x)" and keeps_rpanic: "keeps k (rpanic p)" and keeps_rget: "keeps k (rget f)"
  by (simp_all add: keeps_def rret_def rpanic_def rget_def R_refl)

lemma R_weaken: "R k s t \<Longrightarrow> R (k + l) s t"
  using R_trans R_refl by blast

lemma keeps_rbind_sum:
  assumes "keeps k f" and "\<And>x. keeps l (g x)"
  shows "keeps (k + l) (rbind f g)"
  unfolding keeps_def
proof
  fix s
  obtain r s1 where f: "f s = (r, s1)" by (cases "f s")
  with assms(1) have "R k s s1" by (metis keeps_def snd_conv)
  moreover have "R l s1 (snd (g x s1))" for x using assms(2) by (metis keeps_def)
  ultimately show "R (k + l) s (snd (rbind f g s))"
    by (cases r) (auto simp: rbind_def f intro: R_trans R_weaken)
qed

lemma keeps_rbind: "keeps 0 f \<Longrightarrow> (\<And>x. keeps k (g x)) \<Longrightarrow> keeps k (rbind f g)"
  using keeps_rbind_sum [of 0 f k g] by simp

lemma keeps_rbind_last: "keeps k f \<Longrightarrow> (\<And>x. keeps 0 (g x)) \<Longrightarrow> keeps k (rbind f g)"
  using keeps_rbind_sum [of k f 0 g] by simp

lemma keepsD: "keeps k m \<Longrightarrow> R k s (snd (m s))"
  unfolding keeps_def by blast

lemma keeps_rbind_rget:
  assumes "\<And>s. keeps k (g (f s))"
  shows "keeps k (rbind (rget f) g)"
proof -
  have "R k s (snd (rbind (rget f) g s))" for s
    using keepsD [OF assms, of s s] by (simp add: rbind_def rget_def)
  then show ?thesis unfolding keeps_def by blast
qed

lemma keeps_Abortf: "keeps k (Abortf E c)" and keeps_fatal: "keeps k fatal_panic"
  by (simp_all add: Abortf_def fatal_panic_def keeps_rpanic)

lemma keeps_option: "keeps k a \<Longrightarrow> (\<And>x. keeps k (b x)) \<Longrightarrow> keeps k (case z of None \<Rightarrow> a | Some x \<Rightarrow> b x)"
  by (cases z) auto

lemma keeps_sum: "(\<And>x. keeps k (a x)) \<Longrightarrow> (\<And>x. keeps k (b x)) \<Longrightarrow> keeps k (case z of Inl x \<Rightarrow> a x | Inr x \<Rightarrow> b x)"
  by (cases z) auto

lemma keeps_if: "(c \<Longrightarrow> keeps k a) \<Longrightarrow> (\<not> c \<Longrightarrow> keeps k b) \<Longrightarrow> keeps k (if c then a else b)"
  by auto

lemma keeps_prod: "(\<And>x y. keeps k (f x y)) \<Longrightarrow> keeps k (case z of (x, y) \<Rightarrow> f x y)"
  by (cases z) auto

lemma keeps_geterr: "keeps k a \<Longrightarrow> keeps k b \<Longrightarrow> keeps k (case z of BlockMissing \<Rightarrow> a | BlockUndecodable \<Rightarrow> b)"
  by (cases z) auto

lemma keeps_Let: "(\<And>x. keeps k (f x)) \<Longrightarrow> keeps k (let x = z in f x)"
  by simp

lemma keeps_shimCall: "keeps k m \<Longrightarrow> keeps k (shimCall E m)"
proof -
  assume "keeps k m"
  moreover have "snd (shimCall E m s) = snd (m s)" for s
    by (auto simp: shimCall_def split: prod.splits sum.splits panic.splits)
  ultimately show ?thesis by (simp add: keeps_def)
qed

lemmas keeps_basic = keeps_rret keeps_rpanic keeps_rget keeps_Abortf keeps_fatal
  keeps_option keeps_sum keeps_if keeps_prod keeps_geterr keeps_Let keeps_shimCall keeps_rbind

end

section \<open>The sum of all balances\<close>

definition total_supply :: "(address \<rightharpoonup> Actor) \<Rightarrow> bigint" where
  "total_supply v = (\<Sum>a \<in> dom v. actBalance (the (v a)))"

definition nonneg :: "(address \<rightharpoonup> Actor) \<Rightarrow> bool" where
  "nonneg v \<longleftrightarrow> finite (dom v) \<and> (\<forall>a act. v a = Some act \<longrightarrow> 0 \<le> actBalance act)"

definition balance :: "(address \<rightharpoonup> Actor) \<Rightarrow> address \<Rightarrow> bigint" where
  "balance v a = (case v a of None \<Rightarrow> 0 | Some act \<Rightarrow> actBalance act)"

lemma nonneg_balance: "nonneg v \<Longrightarrow> 0 \<le> balance v a"
  by (auto simp: nonneg_def balance_def split: option.splits)

lemma nonneg_upd: "nonneg v \<Longrightarrow> 0 \<le> actBalance act \<Longrightarrow> nonneg (v(a \<mapsto> act))"
  and nonneg_del: "nonneg v \<Longrightarrow> nonneg (v(a := None))"
  by (auto simp: nonneg_def)

lemma supply_remove: "finite (dom v) \<Longrightarrow> total_supply v = balance v a + total_supply (v(a := None))"
proof -
  assume fin: "finite (dom v)"
  have eq: "(\<Sum>x \<in> dom v - {a}. actBalance (the (v x))) = total_supply (v(a := None))"
    by (auto simp: total_supply_def intro: sum.cong)
  show ?thesis
  proof (cases "v a")
    case None
    then have "v(a := None) = v" by (simp add: fun_upd_idem)
    with None show ?thesis by (simp add: balance_def)
  next
    case (Some act)
    then show ?thesis using fin eq by (simp add: total_supply_def balance_def sum.remove [of "dom v" a] domI)
  qed
qed

lemma supply_del: "finite (dom v) \<Longrightarrow> total_supply (v(a := None)) = total_supply v - balance v a"
  using supply_remove [of v a] by simp

lemma supply_upd: "finite (dom v) \<Longrightarrow> total_supply (v(a \<mapsto> act)) = total_supply v - balance v a + actBalance act"
  using supply_remove [of "v(a \<mapsto> act)" a] supply_remove [of v a] by (simp add: balance_def)

section \<open>The invariant of the state tree under the VM\<close>

text \<open>
  What the VM relies on of addresses and the init actor: an address that is an ID address is
  not the undefined one, and resolved and newly assigned addresses are ID addresses.
\<close>

definition env_ok :: "vm_env \<Rightarrow> bool" where
  "env_ok E \<longleftrightarrow> Protocol (tenv E) address_Undef \<noteq> ProtoID \<and>
     Protocol (tenv E) (InitActorAddr (tenv E)) = ProtoID \<and>
     (\<forall>h a b. initResolve (tenv E) h a = Inr b \<longrightarrow> Protocol (tenv E) b = ProtoID) \<and>
     (\<forall>h a b c. initMapNew (tenv E) h a = Inr (b, c) \<longrightarrow> Protocol (tenv E) b = ProtoID)"

definition tree_inv :: "vm_env \<Rightarrow> StateTree \<Rightarrow> bool" where
  "tree_inv E st \<longleftrightarrow> tree_ok (tenv E) st \<and> list_all nonneg (views st) \<and>
     (\<forall>l \<in> set (layers st). \<forall>a b. lyResolveCache l a = Some b \<longrightarrow> Protocol (tenv E) b = ProtoID)"

lemma id_addrI: "env_ok E \<Longrightarrow> Protocol (tenv E) a = ProtoID \<Longrightarrow> id_addr (tenv E) a"
  by (auto simp: env_ok_def id_addr_def)

lemma tree_inv_ok: "tree_inv E st \<Longrightarrow> tree_ok (tenv E) st"
  and tree_inv_ne: "tree_inv E st \<Longrightarrow> layers st \<noteq> []"
  by (auto simp: tree_inv_def tree_ok_def)

lemma tree_inv_nonneg: "tree_inv E st \<Longrightarrow> nonneg (view st)"
  by (auto simp: tree_inv_def tree_ok_def views_conv)

lemma resolveAddress_id:
  "tree_inv E st \<Longrightarrow> resolveAddress (layers st) a = Some b \<Longrightarrow> Protocol (tenv E) b = ProtoID"
proof -
  have "resolveAddress ls a = Some b \<Longrightarrow> \<exists>l \<in> set ls. lyResolveCache l a = Some b" for ls
    by (induction ls) (auto split: option.splits)
  then show "tree_inv E st \<Longrightarrow> resolveAddress (layers st) a = Some b \<Longrightarrow> Protocol (tenv E) b = ProtoID"
    by (fastforce simp: tree_inv_def)
qed

lemma resolveAddress_setActor [simp]: "resolveAddress (snaps_setActor ls a act) b = resolveAddress ls b"
  by (cases ls) auto

lemma resolveAddress_cache [simp]: "ls \<noteq> [] \<Longrightarrow> resolveAddress (cacheResolveAddress ls a b) a = Some b"
  by (cases ls) auto

text \<open>Nothing below the current layer changes.\<close>

definition same_below :: "StateTree \<Rightarrow> StateTree \<Rightarrow> bool" where
  "same_below st st' \<longleftrightarrow> root st' = root st \<and> layers st' \<noteq> [] \<and> tl (layers st') = tl (layers st)"

lemma same_below_trans: "same_below s t \<Longrightarrow> same_below t u \<Longrightarrow> same_below s u"
  by (simp add: same_below_def)

lemma tree_inv_caches_setActor:
  assumes "tree_inv E st" and "0 \<le> actBalance act"
  shows "tree_inv E (st\<lparr>layers := snaps_setActor (layers st) a act\<rparr>)"
    and "view (st\<lparr>layers := snaps_setActor (layers st) a act\<rparr>) = (view st)(a \<mapsto> act)"
    and "same_below st (st\<lparr>layers := snaps_setActor (layers st) a act\<rparr>)"
proof -
  obtain l ls where l: "layers st = l # ls" using tree_inv_ne [OF assms(1)] by (cases "layers st") auto
  show v: "view (st\<lparr>layers := snaps_setActor (layers st) a act\<rparr>) = (view st)(a \<mapsto> act)"
    using tree_inv_ne [OF assms(1)] by (simp add: view_def)
  show "same_below st (st\<lparr>layers := snaps_setActor (layers st) a act\<rparr>)"
    by (simp add: same_below_def l)
  have "nonneg ((view st)(a \<mapsto> act))" using tree_inv_nonneg [OF assms(1)] assms(2) by (rule nonneg_upd)
  with assms(1) v show "tree_inv E (st\<lparr>layers := snaps_setActor (layers st) a act\<rparr>)"
    by (auto simp: tree_inv_def tree_ok_def views_conv l)
qed

lemma tree_inv_deleteActor:
  assumes "tree_inv E st"
  shows "tree_inv E (st\<lparr>layers := snaps_deleteActor (layers st) a\<rparr>)"
    and "view (st\<lparr>layers := snaps_deleteActor (layers st) a\<rparr>) = (view st)(a := None)"
    and "same_below st (st\<lparr>layers := snaps_deleteActor (layers st) a\<rparr>)"
proof -
  obtain l ls where l: "layers st = l # ls" using tree_inv_ne [OF assms(1)] by (cases "layers st") auto
  show v: "view (st\<lparr>layers := snaps_deleteActor (layers st) a\<rparr>) = (view st)(a := None)"
    using tree_inv_ne [OF assms(1)] by (simp add: view_def)
  show "same_below st (st\<lparr>layers := snaps_deleteActor (layers st) a\<rparr>)"
    by (simp add: same_below_def l)
  have "nonneg ((view st)(a := None))" using tree_inv_nonneg [OF assms(1)] by (rule nonneg_del)
  with assms(1) v show "tree_inv E (st\<lparr>layers := snaps_deleteActor (layers st) a\<rparr>)"
    by (auto simp: tree_inv_def tree_ok_def views_conv l)
qed

text \<open>A state that differs only in what it has cached.\<close>

definition same_view :: "vm_env \<Rightarrow> StateTree \<Rightarrow> StateTree \<Rightarrow> bool" where
  "same_view E st st' \<longleftrightarrow> tree_inv E st' \<and> view st' = view st \<and> same_below st st'"

lemma same_view_refl: "tree_inv E st \<Longrightarrow> same_view E st st"
  by (simp add: same_view_def same_below_def tree_inv_ne)

lemma same_view_trans: "same_view E s t \<Longrightarrow> same_view E t u \<Longrightarrow> same_view E s u"
  by (auto simp: same_view_def intro: same_below_trans)

lemma same_view_setActor:
  assumes "tree_inv E st" and "view st a = Some act"
  shows "same_view E st (st\<lparr>layers := snaps_setActor (layers st) a act\<rparr>)"
proof -
  have "0 \<le> actBalance act" using tree_inv_nonneg [OF assms(1)] assms(2) by (auto simp: nonneg_def)
  from tree_inv_caches_setActor [OF assms(1) this] assms(2) show ?thesis
    by (simp add: same_view_def fun_upd_idem)
qed

lemma GetActorID_inv:
  assumes "tree_inv E st" and "GetActorID (tenv E) st a = (r, st')"
  shows "same_view E st st'" and "r = (case view st a of None \<Rightarrow> Inl ErrActorNotFound | Some act \<Rightarrow> Inr act)"
    and "resolveAddress (layers st') = resolveAddress (layers st)"
proof -
  from GetActorID_spec(1) [OF tree_inv_ok [OF assms(1)], of a] assms(2)
  show r: "r = (case view st a of None \<Rightarrow> Inl ErrActorNotFound | Some act \<Rightarrow> Inr act)" by simp
  have c: "st' = st \<or> (\<exists>act. r = Inr act \<and> st' = st\<lparr>layers := snaps_setActor (layers st) a act\<rparr>)"
    using assms(2) by (auto simp: GetActorID_def split: sum.splits option.splits)
  then show "same_view E st st'"
    using same_view_refl [OF assms(1)] same_view_setActor [OF assms(1)] r by (auto split: option.splits)
  from c show "resolveAddress (layers st') = resolveAddress (layers st)" by auto
qed

lemma same_view_cacheResolve:
  assumes "tree_inv E st" and "Protocol (tenv E) b = ProtoID"
  shows "same_view E st (st\<lparr>layers := cacheResolveAddress (layers st) a b\<rparr>)"
proof -
  obtain l ls where l: "layers st = l # ls" using tree_inv_ne [OF assms(1)] by (cases "layers st") auto
  have "view (st\<lparr>layers := cacheResolveAddress (layers st) a b\<rparr>) = view st" by (simp add: view_def)
  then show ?thesis using assms
    by (auto simp: same_view_def same_below_def tree_inv_def tree_ok_def views_conv l)
qed

text \<open>The address \<open>a\<close> is known to stand for the ID address \<open>b\<close>.\<close>

definition resolves_to :: "vm_env \<Rightarrow> StateTree \<Rightarrow> address \<Rightarrow> address \<Rightarrow> bool" where
  "resolves_to E st a b \<longleftrightarrow> Protocol (tenv E) b = ProtoID \<and>
     (if Protocol (tenv E) a = ProtoID then b = a else resolveAddress (layers st) a = Some b)"

lemma resolves_to_LookupID: "resolves_to E st a b \<Longrightarrow> LookupID (tenv E) st a = (Inr b, st)"
  by (auto simp: resolves_to_def LookupID_def split: if_splits)

lemma resolves_to_setActor [simp]:
  "resolves_to E (st\<lparr>layers := snaps_setActor (layers st) c act\<rparr>) a b \<longleftrightarrow> resolves_to E st a b"
  by (simp add: resolves_to_def)

lemma resolves_to_id: "Protocol (tenv E) a = ProtoID \<Longrightarrow> resolves_to E st a a"
  by (simp add: resolves_to_def)

text \<open>A lookup keeps the view, returns an ID address, and gives the same answer from then on.\<close>

lemma LookupID_inv:
  assumes "env_ok E" and "tree_inv E st" and l: "LookupID (tenv E) st a = (r, st')"
  shows "same_view E st st'"
    and "r = Inr b \<Longrightarrow> resolves_to E st' a b"
proof -
  obtain ri st1 where g: "GetActorID (tenv E) st (InitActorAddr (tenv E)) = (ri, st1)" by fastforce
  note s1 = GetActorID_inv [OF assms(2) g]
  have i1: "tree_inv E st1" using s1(1) by (simp add: same_view_def)
  have id: "initResolve (tenv E) h a = Inr b \<Longrightarrow> Protocol (tenv E) b = ProtoID" for h a b
    using assms(1) by (simp add: env_ok_def)
  show "same_view E st st'"
  proof (cases "Protocol (tenv E) a = ProtoID \<or> resolveAddress (layers st) a \<noteq> None")
    case True
    with l have "st' = st" by (auto simp: LookupID_def split: if_splits)
    with same_view_refl [OF assms(2)] show ?thesis by simp
  next
    case False
    with l g have "st' = st1 \<or> (\<exists>h b. initResolve (tenv E) h a = Inr b \<and>
        st' = st1\<lparr>layers := cacheResolveAddress (layers st1) a b\<rparr>)"
      by (auto simp: LookupID_def split: sum.splits) metis
    with same_view_cacheResolve [OF i1 id] s1(1) show ?thesis by (auto intro: same_view_trans)
  qed
  show "resolves_to E st' a b" if "r = Inr b"
    using l that g id resolveAddress_id [OF assms(2)] tree_inv_ne [OF i1]
    by (auto simp: LookupID_def resolves_to_def split: sum.splits option.splits if_splits)
qed

lemma GetActor_inv:
  assumes "env_ok E" and "tree_inv E st" and "GetActor (tenv E) st a = (r, st')"
  shows "same_view E st st'"
    and "r = Inr act \<Longrightarrow> \<exists>b. resolves_to E st' a b \<and> view st b = Some act"
proof -
  obtain rl st1 where l: "LookupID (tenv E) st a = (rl, st1)" by fastforce
  note s1 = LookupID_inv [OF assms(1,2) l]
  have i1: "tree_inv E st1" and v1: "view st1 = view st" using s1(1) by (simp_all add: same_view_def)
  have g: "same_view E st1 st2 \<and> (r2 = Inr act \<longrightarrow> view st b = Some act) \<and> (resolves_to E st1 a b \<longrightarrow> resolves_to E st2 a b)"
    if "GetActorID (tenv E) st1 b = (r2, st2)" for b r2 st2
    using GetActorID_inv [OF i1 that] v1 by (auto simp: resolves_to_def split: option.splits)
  show "same_view E st st'"
    using assms(3) l s1(1) g same_view_refl [OF assms(2)]
    by (auto simp: GetActor_def split: if_splits sum.splits intro: same_view_trans)
  show "\<exists>b. resolves_to E st' a b \<and> view st b = Some act" if "r = Inr act"
    using assms(3) l s1(2) g that by (auto simp: GetActor_def split: if_splits sum.splits)
qed

text \<open>
  The ID address another address stands for: itself, the one cached in the layers, or the one the
  init actor of the current view knows it by.
\<close>

definition resolved :: "tree_env \<Rightarrow> StateTree \<Rightarrow> address \<Rightarrow> sterr + address" where
  "resolved T st a =
     (if Protocol T a = ProtoID then Inr a
      else case resolveAddress (layers st) a of Some b \<Rightarrow> Inr b
      | None \<Rightarrow> (case view st (InitActorAddr T) of None \<Rightarrow> Inl ErrAddressNotFound
          | Some act \<Rightarrow> (case initResolve T (actHead act) a of Inl e \<Rightarrow> Inl (wrapErr e) | Inr b \<Rightarrow> Inr b)))"

lemma LookupID_resolved:
  assumes "tree_inv E st"
  shows "fst (LookupID (tenv E) st a) = resolved (tenv E) st a"
  using GetActorID_inv(2) [OF assms surjective_pairing, of "InitActorAddr (tenv E)"]
  by (auto simp: LookupID_def resolved_def split: option.splits sum.splits prod.splits)

lemma GetActor_result:
  assumes "env_ok E" and "tree_inv E st" and "GetActor (tenv E) st a = (r, st')"
  shows "r = (if a = address_Undef then Inl ErrUndefinedAddress
    else case resolved (tenv E) st a of Inl e \<Rightarrow> Inl e
      | Inr b \<Rightarrow> (case view st b of None \<Rightarrow> Inl ErrActorNotFound | Some act \<Rightarrow> Inr act))"
proof -
  obtain rl st1 where l: "LookupID (tenv E) st a = (rl, st1)" by fastforce
  have "view st1 = view st" "tree_inv E st1"
    using LookupID_inv(1) [OF assms(1,2) l] by (simp_all add: same_view_def)
  then show ?thesis
    using assms(3) l GetActorID_inv [of E st1] LookupID_resolved [OF assms(2), of a, symmetric] by (auto simp: GetActor_def split: sum.splits if_splits)
qed

lemma SetActor_resolved:
  "resolves_to E st a b \<Longrightarrow>
     SetActor (tenv E) st a act = (Inr (), st\<lparr>layers := snaps_setActor (layers st) b act\<rparr>)"
  by (simp add: SetActor_def resolves_to_LookupID)

text \<open>What a change may do to the tree: the invariant and the saved layers stay, and no funds appear.\<close>

definition funds_le :: "vm_env \<Rightarrow> StateTree \<Rightarrow> StateTree \<Rightarrow> bool" where
  "funds_le E st st' \<longleftrightarrow> tree_inv E st' \<and> same_below st st' \<and> total_supply (view st') \<le> total_supply (view st)"

lemma same_view_funds: "same_view E st st' \<Longrightarrow> funds_le E st st'"
  by (simp add: same_view_def funds_le_def)

lemma funds_le_trans: "funds_le E s t \<Longrightarrow> funds_le E t u \<Longrightarrow> funds_le E s u"
  by (auto simp: funds_le_def intro: same_below_trans)

lemma tree_inv_fin: "tree_inv E st \<Longrightarrow> finite (dom (view st))"
  using tree_inv_nonneg by (auto simp: nonneg_def)

lemma SetActor_funds:
  assumes "env_ok E" and "tree_inv E st" and "actBalance act = 0" and "SetActor (tenv E) st a act = (r, st')"
  shows "funds_le E st st'"
proof -
  obtain rl st1 where l: "LookupID (tenv E) st a = (rl, st1)" by fastforce
  note s1 = LookupID_inv [OF assms(1,2) l]
  have i1: "tree_inv E st1" and v1: "view st1 = view st" using s1(1) by (simp_all add: same_view_def)
  show ?thesis
  proof (cases rl)
    case (Inl e)
    with assms(4) l s1(1) show ?thesis by (simp add: SetActor_def same_view_funds)
  next
    case (Inr b)
    with assms(4) l have st': "st' = st1\<lparr>layers := snaps_setActor (layers st1) b act\<rparr>" by (simp add: SetActor_def)
    have "total_supply ((view st1)(b \<mapsto> act)) \<le> total_supply (view st1)"
      using assms(3) tree_inv_fin [OF i1] nonneg_balance [OF tree_inv_nonneg [OF i1], of b] by (simp add: supply_upd)
    with tree_inv_caches_setActor [OF i1, of act b] assms(3) same_view_funds [OF s1(1)] v1 show ?thesis
      by (auto simp: st' funds_le_def intro: same_below_trans)
  qed
qed

text \<open>Changing an actor that was read: the callback decides what happens to its balance.\<close>

definition mut_nonneg :: "(Actor \<Rightarrow> sterr + Actor \<times> 'x) \<Rightarrow> bool" where
  "mut_nonneg f \<longleftrightarrow> (\<forall>act act' x. f act = Inr (act', x) \<longrightarrow> 0 \<le> actBalance act \<longrightarrow> 0 \<le> actBalance act')"

lemma MutateActor_inv:
  assumes "env_ok E" and "tree_inv E st" and m: "MutateActor (tenv E) st a f = (r, st')"
    and pos: "mut_nonneg f"
  shows "r = Inl e \<Longrightarrow> same_view E st st'"
    and "r = Inr x \<Longrightarrow> \<exists>b act act'. resolves_to E st' a b \<and> view st b = Some act \<and> f act = Inr (act', x) \<and>
      view st' = (view st)(b \<mapsto> act') \<and> tree_inv E st' \<and> same_below st st'"
proof -
  obtain rg st1 where g: "GetActor (tenv E) st a = (rg, st1)" by fastforce
  note s1 = GetActor_inv [OF assms(1,2) g]
  have i1: "tree_inv E st1" and v1: "view st1 = view st" and b1: "same_below st st1"
    using s1(1) by (simp_all add: same_view_def)
  have step: "\<exists>b. resolves_to E st' a b \<and> view st b = Some act \<and> r = Inr y \<and>
      view st' = (view st)(b \<mapsto> act') \<and> tree_inv E st' \<and> same_below st st'"
    if "rg = Inr act" "f act = Inr (act', y)" for act act' y
  proof -
    from s1(2) [OF that(1)] obtain b where b: "resolves_to E st1 a b" "view st b = Some act" by auto
    have "0 \<le> actBalance act'" using pos that(2) tree_inv_nonneg [OF assms(2)] b(2) by (auto simp: nonneg_def mut_nonneg_def)
    note s2 = tree_inv_caches_setActor [OF i1 this, of b]
    from m g that SetActor_resolved [OF b(1), of act'] have "r = Inr y"
        "st' = st1\<lparr>layers := snaps_setActor (layers st1) b act'\<rparr>" by (auto simp: MutateActor_def)
    with b s2 v1 same_below_trans [OF b1] show ?thesis by auto
  qed
  show "same_view E st st'" if "r = Inl e"
    using m g s1(1) step that by (auto simp: MutateActor_def split: sum.splits)
  show "\<exists>b act act'. resolves_to E st' a b \<and> view st b = Some act \<and> f act = Inr (act', x) \<and>
      view st' = (view st)(b \<mapsto> act') \<and> tree_inv E st' \<and> same_below st st'" if "r = Inr x"
  proof (cases rg)
    case (Inl e)
    with m g that show ?thesis by (simp add: MutateActor_def)
  next
    case (Inr act)
    show ?thesis
    proof (cases "f act")
      case (Inl e)
      with m g that Inr show ?thesis by (simp add: MutateActor_def)
    next
      case f: (Inr p)
      obtain act' y where p: "p = (act', y)" by (cases p)
      with f have fa: "f act = Inr (act', y)" by simp
      from step [OF Inr fa] that fa show ?thesis by blast
    qed
  qed
qed

section \<open>Transfers\<close>

text \<open>The view after moving \<open>amt\<close> between two different actors.\<close>

definition moved :: "(address \<rightharpoonup> Actor) \<Rightarrow> address \<Rightarrow> address \<Rightarrow> bigint \<Rightarrow> address \<rightharpoonup> Actor" where
  "moved v f t amt =
     v(f \<mapsto> (the (v f))\<lparr>actBalance := actBalance (the (v f)) - amt\<rparr>,
       t \<mapsto> (the (v t))\<lparr>actBalance := actBalance (the (v t)) + amt\<rparr>)"

lemma supply_moved:
  "finite (dom v) \<Longrightarrow> f \<noteq> t \<Longrightarrow> v f = Some fa \<Longrightarrow> v t = Some ta \<Longrightarrow> total_supply (moved v f t amt) = total_supply v"
  by (simp add: moved_def supply_upd balance_def)

lemma GetActor_idI:
  assumes "env_ok E" and "tree_inv E st" and "Protocol (tenv E) a = ProtoID" and "GetActor (tenv E) st a = (r, st')"
  shows "same_view E st st'" and "r = (case view st a of None \<Rightarrow> Inl ErrActorNotFound | Some act \<Rightarrow> Inr act)"
  using GetActorID_inv [OF assms(2), of a r st'] assms(4) GetActor_id [OF id_addrI [OF assms(1,3)]] by simp_all

text \<open>
  A transfer between two ID addresses: nothing happens to the same address; a negative amount,
  a missing actor and too small a balance are errors that move nothing.
\<close>

lemma transferID_spec:
  assumes "env_ok E" and i: "tree_inv E st" and "Protocol (tenv E) f = ProtoID" and "Protocol (tenv E) t = ProtoID"
    and tr: "transferID E st f t amt = (r, st')"
  shows "(r = None \<and> f \<noteq> t \<and> 0 \<le> amt \<and> amt \<le> balance (view st) f \<and> view st f \<noteq> None \<and> view st t \<noteq> None \<and>
       view st' = moved (view st) f t amt \<and> tree_inv E st' \<and> same_below st st') \<or>
    ((r = None \<longrightarrow> f = t) \<and> same_view E st st')"
proof (cases "f = t \<or> amt < 0")
  case True
  with tr same_view_refl [OF i] show ?thesis by (auto simp: transferID_def split: if_splits)
next
  case False
  obtain rf st1 where g1: "GetActor (tenv E) st f = (rf, st1)" by fastforce
  note s1 = GetActor_idI [OF assms(1) i assms(3) g1]
  have i1: "tree_inv E st1" and v1: "view st1 = view st" using s1(1) by (simp_all add: same_view_def)
  obtain rt1 st2 where g2: "GetActor (tenv E) st1 t = (rt1, st2)" by fastforce
  note s2 = GetActor_idI [OF assms(1) i1 assms(4) g2]
  have sv: "same_view E st st2" using same_view_trans [OF s1(1) s2(1)] .
  have i2: "tree_inv E st2" and v2: "view st2 = view st" and b2: "same_below st st2"
    using sv by (simp_all add: same_view_def)
  show ?thesis
  proof (cases "\<exists>fa ta. view st f = Some fa \<and> view st t = Some ta \<and> amt \<le> actBalance fa")
    case False1: False
    then show ?thesis using False tr g1 g2 s1 s2 v1 sv
      by (auto simp: transferID_def deductFunds_def split: option.splits if_splits)
  next
    case True
    then obtain fa ta where a: "view st f = Some fa" "view st t = Some ta" "amt \<le> actBalance fa" by blast
    let ?fa = "fa\<lparr>actBalance := actBalance fa - amt\<rparr>" and ?ta = "ta\<lparr>actBalance := actBalance ta + amt\<rparr>"
    have "0 \<le> actBalance ta" using tree_inv_nonneg [OF i] a(2) by (auto simp: nonneg_def)
    then have n: "0 \<le> actBalance ?fa" "0 \<le> actBalance ?ta" using a(3) False by simp_all
    note u3 = tree_inv_caches_setActor [OF i2 n(1), of f]
    note u4 = tree_inv_caches_setActor [OF u3(1) n(2), of t]
    from a False tr g1 g2 s1(2) s2(2) v1
    have "r = None" "st' = (let st3 = st2\<lparr>layers := snaps_setActor (layers st2) f ?fa\<rparr>
        in st3\<lparr>layers := snaps_setActor (layers st3) t ?ta\<rparr>)"
      by (auto simp: transferID_def deductFunds_def depositFunds_def SetActor_def assms(3,4))
    with u3 u4 v2 b2 a False show ?thesis
      by (auto simp: moved_def balance_def Let_def intro: same_below_trans)
  qed
qed

lemma transfer_inv:
  assumes "env_ok E" and i: "tree_inv E st" and tr: "transfer E st f t amt = (r, st')"
  shows "same_view E st st' \<or> r = None \<and> (\<exists>b c. b \<noteq> c \<and> view st b \<noteq> None \<and> view st c \<noteq> None \<and>
    0 \<le> amt \<and> amt \<le> balance (view st) b \<and> view st' = moved (view st) b c amt \<and> tree_inv E st' \<and> same_below st st')"
proof (cases "f = t")
  case True
  with tr same_view_refl [OF i] show ?thesis by (simp add: transfer_def)
next
  case False
  obtain rf st1 where l1: "LookupID (tenv E) st f = (rf, st1)" by fastforce
  note s1 = LookupID_inv [OF assms(1) i l1]
  have i1: "tree_inv E st1" and v1: "view st1 = view st" using s1(1) by (simp_all add: same_view_def)
  obtain rt1 st2 where l2: "LookupID (tenv E) st1 t = (rt1, st2)" by fastforce
  note s2 = LookupID_inv [OF assms(1) i1 l2]
  have sv: "same_view E st st2" using same_view_trans [OF s1(1) s2(1)] .
  have i2: "tree_inv E st2" and v2: "view st2 = view st" and b2: "same_below st st2"
    using sv by (simp_all add: same_view_def)
  show ?thesis
  proof (cases "\<exists>b c. rf = Inr b \<and> rt1 = Inr c")
    case False1: False
    with tr l1 l2 False s1(1) sv show ?thesis by (auto simp: transfer_def split: sum.splits)
  next
    case True
    then obtain b c where r: "rf = Inr b" "rt1 = Inr c" by blast
    with s1(2) s2(2) have id: "Protocol (tenv E) b = ProtoID" "Protocol (tenv E) c = ProtoID"
      by (auto simp: resolves_to_def)
    from tr l1 l2 r False have "transferID E st2 b c amt = (r, st')" by (simp add: transfer_def)
    from transferID_spec [OF assms(1) i2 id this] show ?thesis
      using v2 same_view_trans [OF sv] same_below_trans [OF b2] by auto
  qed
qed

lemma transfer_funds:
  assumes "env_ok E" and "tree_inv E st"
  shows "funds_le E st (snd (transfer E st f t amt)) \<and>
    total_supply (view (snd (transfer E st f t amt))) = total_supply (view st)"
proof -
  obtain r st' where t: "transfer E st f t amt = (r, st')" by fastforce
  from transfer_inv [OF assms t] show ?thesis
  proof
    assume "same_view E st st'"
    then show ?thesis using same_view_funds [of E st st'] by (simp add: t same_view_def)
  next
    assume "r = None \<and> (\<exists>b c. b \<noteq> c \<and> view st b \<noteq> None \<and> view st c \<noteq> None \<and> 0 \<le> amt \<and>
      amt \<le> balance (view st) b \<and> view st' = moved (view st) b c amt \<and> tree_inv E st' \<and> same_below st st')"
    then show ?thesis using supply_moved [OF tree_inv_fin [OF assms(2)]] by (auto simp: t funds_le_def)
  qed
qed

lemma DeleteActor_funds:
  assumes "env_ok E" and i: "tree_inv E st"
  shows "funds_le E st (snd (DeleteActor (tenv E) st a))"
proof -
  obtain rl st1 where l1: "LookupID (tenv E) st a = (rl, st1)" by fastforce
  note s1 = LookupID_inv [OF assms(1) i l1]
  have i1: "tree_inv E st1" using s1(1) by (simp add: same_view_def)
  have d: "funds_le E st2 (st2\<lparr>layers := snaps_deleteActor (layers st2) b\<rparr>)" if "tree_inv E st2" for st2 b
    using tree_inv_deleteActor [OF that, of b] tree_inv_fin [OF that] nonneg_balance [OF tree_inv_nonneg [OF that], of b]
    by (simp add: funds_le_def supply_del)
  have g: "same_view E st st2" if "GetActor (tenv E) st1 b = (r2, st2)" for b r2 st2
    using GetActor_inv(1) [OF assms(1) i1 that] s1(1) by (rule same_view_trans [rotated])
  have "funds_le E st (st2\<lparr>layers := snaps_deleteActor (layers st2) b\<rparr>)"
    if "GetActor (tenv E) st1 b = (r2, st2)" for b r2 st2
    using funds_le_trans [OF same_view_funds [OF g [OF that]] d] g [OF that] by (simp add: same_view_def)
  then show ?thesis using l1 s1(1) g same_view_refl [OF i]
    by (auto simp: DeleteActor_def same_view_funds split: prod.splits sum.splits)
qed

section \<open>No operation of the runtime creates funds\<close>

definition funds_rel :: "vm_env \<Rightarrow> Runtime \<times> VM \<Rightarrow> Runtime \<times> VM \<Rightarrow> bool" where
  "funds_rel E s t \<longleftrightarrow> (tree_inv E (cstate (snd s)) \<longrightarrow> funds_le E (cstate (snd s)) (cstate (snd t)))"

interpretation funds: rt_relation "\<lambda>k. funds_rel E" for E
proof (unfold_locales, goal_cases)
  case (1 k s)
  then show ?case by (simp add: funds_rel_def same_view_funds same_view_refl)
next
  case (2 k s t l u)
  then show ?case unfolding funds_rel_def by (metis funds_le_def funds_le_trans)
qed

lemma keeps_funds_tree:
  "(\<And>st. tree_inv E st \<Longrightarrow> funds_le E st (snd (f st))) \<Longrightarrow> funds.keeps E k (rtree f)"
  by (auto simp: funds.keeps_def funds_rel_def rtree_def split: prod.splits) (metis snd_conv)

lemma keeps_funds_same:
  "(\<And>s. cstate (snd (snd (m s))) = cstate (snd s)) \<Longrightarrow> funds.keeps E k m"
  by (simp add: funds.keeps_def funds_rel_def same_view_funds same_view_refl)

lemma keeps_funds_charge: "funds.keeps E k (chargeGasSafe E' g)" "funds.keeps E k (chargeGas E' g)"
  "funds.keeps E k (ChargeGas E' c v)"
proof -
  show c: "funds.keeps E k (chargeGasSafe E' g)" for k g
    by (rule keeps_funds_same) (simp add: chargeGasSafe_def split: prod.splits)
  show "funds.keeps E k (chargeGas E' g)" "funds.keeps E k (ChargeGas E' c v)"
    unfolding chargeGas_def ChargeGas_def by (intro funds.keeps_basic c)+
qed

lemma keeps_funds_rmod: "funds.keeps E k (rmod f)"
  by (rule keeps_funds_same) (simp add: rmod_def)

lemma keeps_funds_chargeAll: "funds.keeps E k (chargeAll E' gs)"
  by (induction gs) (auto intro: funds.keeps_basic keeps_funds_charge)

text \<open>The operations on the state tree.\<close>

lemma keeps_funds_GetActor: "env_ok E \<Longrightarrow> funds.keeps E k (rtree (\<lambda>st. GetActor (tenv E) st a))"
  by (rule keeps_funds_tree) (metis GetActor_inv(1) same_view_funds prod.collapse)

lemma keeps_funds_LookupID: "env_ok E \<Longrightarrow> funds.keeps E k (rtree (\<lambda>st. LookupID (tenv E) st a))"
  by (rule keeps_funds_tree) (metis LookupID_inv(1) same_view_funds prod.collapse)

lemma keeps_funds_SetActor:
  "env_ok E \<Longrightarrow> actBalance act = 0 \<Longrightarrow> funds.keeps E k (rtree (\<lambda>st. SetActor (tenv E) st a act))"
  by (rule keeps_funds_tree) (metis SetActor_funds prod.collapse)

lemma keeps_funds_transfer: "env_ok E \<Longrightarrow> funds.keeps E k (rtree (\<lambda>st. transfer E st f t amt))"
  by (rule keeps_funds_tree) (simp add: transfer_funds)

lemma keeps_funds_Delete: "env_ok E \<Longrightarrow> funds.keeps E k (rtree (\<lambda>st. DeleteActor (tenv E) st a))"
  by (rule keeps_funds_tree) (simp add: DeleteActor_funds)

text \<open>Changing an actor without touching its balance.\<close>

lemma MutateActor_balance_funds:
  assumes "env_ok E" and "tree_inv E st"
    and "\<And>act act' x. f act = Inr (act', x) \<Longrightarrow> actBalance act' = actBalance act"
  shows "funds_le E st (snd (MutateActor (tenv E) st a f))"
proof -
  obtain r st' where m: "MutateActor (tenv E) st a f = (r, st')" by fastforce
  have pos: "mut_nonneg f" using assms(3) by (fastforce simp: mut_nonneg_def)
  show ?thesis
  proof (cases r)
    case (Inl e)
    with MutateActor_inv(1) [OF assms(1,2) m pos] show ?thesis by (simp add: m same_view_funds)
  next
    case (Inr x)
    from MutateActor_inv(2) [OF assms(1,2) m pos Inr] obtain b act act' where
      b: "view st b = Some act" "f act = Inr (act', x)" "view st' = (view st)(b \<mapsto> act')" "tree_inv E st'" "same_below st st'"
      by blast
    with assms(3) [OF b(2)] show ?thesis
      by (simp add: m funds_le_def supply_upd tree_inv_fin [OF assms(2)] balance_def)
  qed
qed

lemma keeps_funds_Register: "env_ok E \<Longrightarrow> funds.keeps E k (rtree (\<lambda>st. RegisterNewAddress (tenv E) st a))"
  unfolding RegisterNewAddress_def
  by (intro keeps_funds_tree MutateActor_balance_funds) (auto split: sum.splits)

lemma ResolveToKeyAddr_inv:
  assumes "env_ok E" and "tree_inv E st"
  shows "same_view E st (snd (ResolveToKeyAddr E bs st a))"
proof -
  obtain r st' where "GetActor (tenv E) st a = (r, st')" by fastforce
  with GetActor_inv(1) [OF assms this] same_view_refl [OF assms(2)] show ?thesis
    by (auto simp: ResolveToKeyAddr_def split: sum.splits option.splits)
qed

text \<open>Committing a new head: the actor is read and written back with the same balance.\<close>

lemma keeps_funds_stateCommit:
  assumes "env_ok E"
  shows "funds.keeps E k (stateCommit E oldh newh)"
proof -
  have "funds_rel E s (snd (stateCommit E oldh newh s))" for s
  proof (cases "tree_inv E (cstate (snd s))")
    case i: True
    let ?to = "Receiver (fst s)" and ?st = "cstate (snd s)"
    obtain r st1 where g: "GetActor (tenv E) ?st ?to = (r, st1)" by fastforce
    note s1 = GetActor_inv [OF assms i g]
    have i1: "tree_inv E st1" and v1: "view st1 = view ?st" using s1(1) by (simp_all add: same_view_def)
    show ?thesis
    proof (cases "\<exists>act. r = Inr act \<and> actHead act = oldh")
      case False
      with g s1(1) show ?thesis
        by (auto simp: stateCommit_def rbind_def rget_def rtree_def rret_def funds_rel_def
            split: sum.splits intro: same_view_funds)
    next
      case True
      then obtain act where act: "r = Inr act" "actHead act = oldh" by blast
      with s1(2) obtain b where b: "resolves_to E st1 ?to b" "view ?st b = Some act" by blast
      let ?act = "act\<lparr>actHead := newh\<rparr>"
      have n: "0 \<le> actBalance ?act" using tree_inv_nonneg [OF i] b(2) by (auto simp: nonneg_def)
      have "funds_le E st1 (st1\<lparr>layers := snaps_setActor (layers st1) b ?act\<rparr>)"
        using tree_inv_caches_setActor [OF i1 n, of b] b(2) v1
        by (simp add: funds_le_def supply_upd tree_inv_fin [OF i] balance_def)
      with funds_le_trans [OF same_view_funds [OF s1(1)]] g act SetActor_resolved [OF b(1), of ?act] show ?thesis
        by (auto simp: stateCommit_def rbind_def rget_def rtree_def rret_def funds_rel_def)
    qed
  qed (simp add: funds_rel_def)
  then show ?thesis by (simp add: funds.keeps_def)
qed

lemmas keeps_funds_prims = keeps_funds_charge keeps_funds_rmod keeps_funds_chargeAll keeps_funds_GetActor
  keeps_funds_LookupID keeps_funds_SetActor keeps_funds_transfer keeps_funds_Delete keeps_funds_Register
  keeps_funds_stateCommit

text \<open>The operations of the runtime interface.\<close>

lemma keeps_funds_blocks_Get: "funds.keeps E k (blocks_Get E c)"
  unfolding blocks_Get_def by (intro funds.keeps_basic keeps_funds_charge)

lemma keeps_funds_blocks_Put: "funds.keeps E k (blocks_Put E b)"
  unfolding blocks_Put_def by (intro funds.keeps_basic keeps_funds_charge keeps_funds_same) simp

lemma keeps_funds_store: "funds.keeps E k (cst_Get E c d)" "funds.keeps E k (rt_Get E c d)" "funds.keeps E k (rt_Put E x)"
  unfolding cst_Get_def rt_Get_def rt_Put_def
  by (intro funds.keeps_basic keeps_funds_blocks_Get keeps_funds_blocks_Put)+

lemma keeps_funds_lookups:
  assumes "env_ok E"
  shows "funds.keeps E k (rt_ResolveAddress E a)" "funds.keeps E k (rt_GetBalance E a)" "funds.keeps E k (CurrentBalance E)"
    "funds.keeps E k (GetActorCodeCID E a)" "funds.keeps E k (GetRandomness E p e en)"
    "funds.keeps E k (abortIfAlreadyValidated E)"
proof -
  show b: "funds.keeps E k (rt_GetBalance E a)" for k a
    unfolding rt_GetBalance_def
    by (intro funds.keeps_basic keeps_funds_prims assms) (auto split: sterr.splits intro: funds.keeps_basic)
  show "funds.keeps E k (rt_ResolveAddress E a)" "funds.keeps E k (CurrentBalance E)"
    "funds.keeps E k (GetActorCodeCID E a)" "funds.keeps E k (GetRandomness E p e en)"
    "funds.keeps E k (abortIfAlreadyValidated E)"
    unfolding rt_ResolveAddress_def CurrentBalance_def GetActorCodeCID_def GetRandomness_def abortIfAlreadyValidated_def
    by (intro funds.keeps_basic keeps_funds_prims assms b)+
qed

lemma keeps_funds_NewActorAddress: "env_ok E \<Longrightarrow> funds.keeps E k (NewActorAddress E)"
proof -
  assume e: "env_ok E"
  have "funds.keeps E k (\<lambda>s. let (r, st) = ResolveToKeyAddr E (blocks (snd s)) (cstate (snd s)) a
      in (Inr r, fst s, (snd s)\<lparr>cstate := st\<rparr>))" for k a
    using same_view_funds [OF ResolveToKeyAddr_inv [OF e]]
    by (auto simp: funds.keeps_def funds_rel_def split: prod.splits) (metis snd_conv)
  then show ?thesis unfolding NewActorAddress_def
    by (intro funds.keeps_basic keeps_funds_prims e)
qed

lemma keeps_funds_actors:
  assumes "env_ok E"
  shows "funds.keeps E k (CreateActor E c a)" "funds.keeps E k (rt_DeleteActor E a)"
    "funds.keeps E k (ValidateImmediateCallerIs E as)" "funds.keeps E k (ValidateImmediateCallerType E ts)"
  unfolding CreateActor_def rt_DeleteActor_def ValidateImmediateCallerIs_def ValidateImmediateCallerType_def
  by (intro funds.keeps_basic keeps_funds_prims keeps_funds_lookups assms; simp)+

lemma keeps_funds_supply:
  assumes "env_ok E"
  shows "funds.keeps E k (supply_actor E a)" "funds.keeps E k (supply_state E c dec)"
  unfolding supply_actor_def supply_state_def
  by (intro funds.keeps_basic keeps_funds_prims keeps_funds_store assms)+

lemma keeps_funds_TotalFilCircSupply: "env_ok E \<Longrightarrow> funds.keeps E k (TotalFilCircSupply E)"
  unfolding TotalFilCircSupply_def by (intro funds.keeps_basic keeps_funds_supply)

lemma keeps_funds_state:
  assumes "env_ok E"
  shows "funds.keeps E k (state_Create E x)" "funds.keeps E k (state_Readonly E d)"
    "(\<And>x k. funds.keeps E k (f x)) \<Longrightarrow> funds.keeps E k (state_Transaction E ob f)"
  unfolding state_Create_def state_Readonly_def state_Transaction_def
  by (intro funds.keeps_basic keeps_funds_prims keeps_funds_store assms; assumption)+

lemma keeps_funds_pricedSyscall: "funds.keeps E k (pricedSyscall E call)"
  unfolding pricedSyscall_def by (intro funds.keeps_basic keeps_funds_prims)

definition isend_funds :: "vm_env \<Rightarrow> isend \<Rightarrow> bool" where
  "isend_funds E S \<longleftrightarrow> (\<forall>k f t m v p. funds.keeps E k (S f t m v p))"

lemma keeps_funds_rt_Send: "isend_funds E S \<Longrightarrow> funds.keeps E k (rt_Send E S to m x v)"
  unfolding rt_Send_def
  by (intro funds.keeps_basic keeps_funds_prims) (simp add: isend_funds_def)

lemmas keeps_funds_ops = keeps_funds_lookups keeps_funds_actors keeps_funds_NewActorAddress
  keeps_funds_TotalFilCircSupply keeps_funds_state keeps_funds_store keeps_funds_pricedSyscall
  keeps_funds_rt_Send keeps_funds_charge

text \<open>Whatever the code of an actor does through the runtime, it creates no funds.\<close>

lemma keeps_funds_run_prog:
  assumes "env_ok E" and "isend_funds E S"
  shows "funds.keeps E k (run_prog E S p)"
  using assms(2)
  by (induction p arbitrary: k) (auto intro!: funds.keeps_basic keeps_funds_ops assms, metis rangeI)

lemma keeps_funds_VM_Invoke:
  assumes "env_ok E" and "isend_funds E S"
  shows "funds.keeps E k (VM_Invoke E S act m ps)"
proof -
  have "funds.keeps E k (transform_export m E S ps)" for k m ps
    unfolding transform_export_def by (intro funds.keeps_basic keeps_funds_run_prog assms)
  then have "funds.keeps E k (Invoker_Invoke E S c m ps)" for k c m ps
    by (auto simp: Invoker_Invoke_def transform_def split: option.splits intro: funds.keeps_basic)
  then show ?thesis unfolding VM_Invoke_def by (intro funds.keeps_basic)
qed

lemma keeps_funds_TryCreate:
  assumes "env_ok E" and "isend_funds E S"
  shows "funds.keeps E k (TryCreateAccountActor E S a)"
proof -
  have m: "makeActor E a = Inr act \<Longrightarrow> actBalance act = 0" for act
    by (auto simp: makeActor_def NewAccountActor_def split: protocol.splits)
  have S: "funds.keeps E k (S f t m v p)" for k f t m v p
    using assms(2) by (simp add: isend_funds_def)
  show ?thesis unfolding TryCreateAccountActor_def
    by (cases "makeActor E a")
      (auto intro!: funds.keeps_basic keeps_funds_prims assms S dest: m split: option.split prod.split)
qed

lemma keeps_funds_send_body:
  assumes "env_ok E" and "isend_funds E S"
  shows "funds.keeps E k (send_body E S msg)"
proof -
  have "funds.keeps E k (send_rest E S msg act)" for k act
    unfolding send_rest_def by (intro funds.keeps_basic keeps_funds_prims keeps_funds_VM_Invoke assms)
  then show ?thesis unfolding send_body_def
    by (intro funds.keeps_basic keeps_funds_prims keeps_funds_TryCreate assms)
qed

section \<open>Snapshots\<close>

lemma Snapshot_inv:
  assumes "tree_inv E st"
  shows "tree_inv E (Snapshot st)" and "view (Snapshot st) = view st"
    and "layers (Snapshot st) = newStateSnapLayer # layers st" and "root (Snapshot st) = root st"
proof -
  show v: "view (Snapshot st) = view st"
    by (simp add: view_def Snapshot_def addLayer_def newStateSnapLayer_def fun_eq_iff)
  have "list_all nonneg (lviews (root st) (layers st))" using assms by (simp add: tree_inv_def views_def)
  with assms v tree_inv_nonneg [OF assms] show "tree_inv E (Snapshot st)"
    by (auto simp: tree_inv_def tree_ok_def Snapshot_def addLayer_def newStateSnapLayer_def views_conv)
qed (simp_all add: Snapshot_def addLayer_def)

lemma Revert_inv:
  assumes "tree_inv E st" and "tree_inv E st1" and "same_below (Snapshot st) st1"
  shows "Revert st1 = Snapshot st"
  using assms by (simp add: Revert_def Snapshot_def same_below_def addLayer_def dropLayer_def)

lemma ClearSnapshot_inv:
  assumes "tree_inv E st" and "tree_inv E st1" and "same_below (Snapshot st) st1"
  shows "\<exists>st2. ClearSnapshot st1 = Some st2 \<and> tree_inv E st2 \<and> view st2 = view st1 \<and> same_below st st2"
proof -
  from assms(1,3) obtain l l0 ls where l: "layers st1 = l # l0 # ls" "layers st = l0 # ls" and r: "root st1 = root st"
    by (cases "layers st1"; cases "layers st")
      (auto simp: same_below_def Snapshot_def addLayer_def tree_inv_def tree_ok_def)
  obtain ls' where m: "mergeLastLayer (l # l0 # ls) = Some ls'" by simp
  let ?st2 = "st1\<lparr>layers := ls'\<rparr>"
  note lm = lview_merge [OF m]
  have v: "view ?st2 = view st1" using lm by (simp add: view_def l)
  have "lyResolveCache x a = Some b \<Longrightarrow> Protocol (tenv E) b = ProtoID" if "x \<in> set ls'" for x a b
    using that m assms(2) by (fastforce simp: tree_inv_def l map_add_Some_iff)
  moreover have "lviews (root st1) (tl ls') = lviews (root st1) ls" using lm by simp
  ultimately have "tree_inv E ?st2" using assms(2) v lm
    by (auto simp: tree_inv_def tree_ok_def views_conv l)
  moreover have "same_below st ?st2" using lm r by (simp add: same_below_def l)
  ultimately show ?thesis using m v by (auto simp: ClearSnapshot_def l)
qed

text \<open>
  A snapshot around a computation that creates no funds, reverted or not, creates none.
\<close>

definition send_funds :: "vm_env \<Rightarrow> (Message \<Rightarrow> Runtime option \<Rightarrow> GasCharge option \<Rightarrow> VM \<Rightarrow> send_res) \<Rightarrow> bool" where
  "send_funds E sendf \<longleftrightarrow> (\<forall>msg parent g vm. tree_inv E (cstate vm) \<longrightarrow>
     funds_le E (cstate vm) (cstate (snd (snd (sendf msg parent g vm)))))"

lemma internalSend_funds:
  assumes "send_funds E sendf"
  shows "isend_funds E (internalSend sendf)"
proof -
  have "funds_rel E s (snd (internalSend sendf f t m v p s))" for f t m v p s
  proof (cases "tree_inv E (cstate (snd s))")
    case i: True
    let ?st = "cstate (snd s)"
    define msg where "msg = \<lparr>msgVersion = 0, msgTo = t, msgFrom = f, msgNonce = 0, msgValue = Some v,
      msgGasPrice = None, msgGasLimit = gasAvailable (fst s), msgMethod = m, msgParams = p\<rparr>"
    obtain res sub vm1 where r: "sendf msg (Some (fst s)) None ((snd s)\<lparr>cstate := Snapshot ?st\<rparr>) = (res, sub, vm1)"
      by (cases "sendf msg (Some (fst s)) None ((snd s)\<lparr>cstate := Snapshot ?st\<rparr>)")
    note sn = Snapshot_inv [OF i]
    have "funds_le E (Snapshot ?st) (cstate vm1)"
      using assms sn(1) unfolding send_funds_def by (metis r VM.select_convs(1) VM.surjective VM.update_convs(1) snd_conv)
    then have fl: "tree_inv E (cstate vm1)" "same_below (Snapshot ?st) (cstate vm1)"
        "total_supply (view (cstate vm1)) \<le> total_supply (view ?st)" by (simp_all add: funds_le_def sn(2))
    define st2 where "st2 = (case res of Inr (_, Some _) \<Rightarrow> Revert (cstate vm1) | _ \<Rightarrow> cstate vm1)"
    have "tree_inv E st2 \<and> same_below (Snapshot ?st) st2 \<and> total_supply (view st2) \<le> total_supply (view ?st)"
      using fl sn Revert_inv [OF i fl(1,2)]
      by (auto simp: st2_def same_below_def split: sum.splits option.splits)
    moreover from this ClearSnapshot_inv [OF i, of st2] obtain st3 where
      "ClearSnapshot st2 = Some st3" "tree_inv E st3" "view st3 = view st2" "same_below ?st st3" by blast
    ultimately show ?thesis
      by (simp add: funds_rel_def internalSend_def Let_def msg_def [symmetric] r st2_def [symmetric] funds_le_def)
  qed (simp add: funds_rel_def)
  then show ?thesis by (simp add: isend_funds_def funds.keeps_def)
qed

lemma makeRuntime_funds:
  assumes "env_ok E" and "tree_inv E (cstate vm)"
  shows "funds_le E (cstate vm) (cstate (snd (makeRuntime E vm msg o1 n g c)))"
proof -
  have "funds_le E (cstate vm) (cstate (snd (snd (rt_ResolveAddress E a (rt, vm)))))" for a rt
    using keeps_funds_lookups(1) [OF assms(1), of 0 a] assms(2)
    unfolding funds.keeps_def funds_rel_def by (metis snd_conv)
  then show ?thesis
    by (auto simp: makeRuntime_def Let_def split: prod.split sum.split option.split) (metis snd_conv)+
qed

lemma send_keeps_funds: "env_ok E \<Longrightarrow> send_funds E (send E n)"
proof (induction n)
  case 0
  then show ?case by (simp add: send_funds_def same_view_funds same_view_refl)
next
  case (Suc n)
  have b: "funds.keeps E 0 (rbind (case g of None \<Rightarrow> rret None | Some g \<Rightarrow> chargeGasSafe E g) (\<lambda>err.
      case err of Some _ \<Rightarrow> rret ([], Wrap err) | None \<Rightarrow> send_body E (internalSend (send E n)) msg))" for g msg
    by (intro funds.keeps_basic keeps_funds_charge keeps_funds_send_body Suc.prems internalSend_funds Suc.IH)
  show ?case unfolding send_funds_def
  proof (intro allI impI)
    fix msg :: Message and parent :: "Runtime option" and g and vm :: VM
    assume i: "tree_inv E (cstate vm)"
    obtain o1 on gu nac where par: "(case parent of None \<Rightarrow> (msgFrom msg, msgNonce msg, 0, 0)
        | Some p \<Rightarrow> (origin p, originNonce p, gasUsed p, numActorsCreated p)) = (o1, on, gu, nac)"
      by (cases "case parent of None \<Rightarrow> (msgFrom msg, msgNonce msg, 0, 0)
        | Some p \<Rightarrow> (origin p, originNonce p, gasUsed p, numActorsCreated p)")
    obtain mr vm1 where m: "makeRuntime E vm msg o1 on gu nac = (mr, vm1)" by fastforce
    from makeRuntime_funds [OF Suc.prems i, of msg o1 on gu nac] m
    have f1: "funds_le E (cstate vm) (cstate vm1)" by simp
    show "funds_le E (cstate vm) (cstate (snd (snd (send E (Suc n) msg parent g vm))))"
    proof (cases mr)
      case (Inl p)
      then show ?thesis using f1 by (simp add: par m)
    next
      case (Inr rt)
      let ?b = "rbind (case g of None \<Rightarrow> rret None | Some g \<Rightarrow> chargeGasSafe E g) (\<lambda>err.
        case err of Some _ \<Rightarrow> rret ([], Wrap err) | None \<Rightarrow> send_body E (internalSend (send E n)) msg)"
      obtain res rt2 vm2 where r: "?b (rt, vm1) = (res, rt2, vm2)" by (cases "?b (rt, vm1)")
      from b [of g msg] have "funds_rel E (rt, vm1) (snd (?b (rt, vm1)))" unfolding funds.keeps_def by blast
      then have "funds_le E (cstate vm1) (cstate vm2)" using r f1 by (simp add: funds_rel_def funds_le_def)
      with funds_le_trans [OF f1] show ?thesis by (simp add: par m Inr r)
    qed
  qed
qed

end
