(* ===== verification/VM_Meter.thy ===== *)
theory VM_Meter
  imports VM_Funds
begin

text \<open>
  The gas meter of the virtual machine: however actor code runs, the gas used never exceeds the
  limit of the message, and a message pays for every call it makes. Actor code is assumed to
  charge no negative amounts and to delete its actor at most once per method, outside of
  transactions (the refund for a deletion is less than the price of the call).
\<close>

section \<open>Well-behaved actor code\<close>

definition size_ok :: "bytes option \<Rightarrow> bool" where
  "size_ok x \<longleftrightarrow> (case x of None \<Rightarrow> True | Some b \<Rightarrow> int (length b) < 2 ^ 40)"

definition syscall_ok :: "syscall \<Rightarrow> bool" where
  "syscall_ok call \<longleftrightarrow> (case call of SysVerifyPoSt _ n _ \<Rightarrow> 0 \<le> n \<and> n < 2 ^ 30 | _ \<Rightarrow> True)"

text \<open>The flag says whether the program may still delete its actor.\<close>

primrec prog_gas_ok :: "prog \<Rightarrow> bool \<Rightarrow> bool" where
  "prog_gas_ok (Done obj r) d \<longleftrightarrow> size_ok obj"
| "prog_gas_ok (AbortP c) d \<longleftrightarrow> True"
| "prog_gas_ok PanicP d \<longleftrightarrow> True"
| "prog_gas_ok (ValidateAcceptAnyP k) d \<longleftrightarrow> prog_gas_ok k d"
| "prog_gas_ok (ValidateIsP as k) d \<longleftrightarrow> prog_gas_ok k d"
| "prog_gas_ok (ValidateTypeP ts k) d \<longleftrightarrow> prog_gas_ok k d"
| "prog_gas_ok (CurrentBalanceP k) d \<longleftrightarrow> (\<forall>x. prog_gas_ok (k x) d)"
| "prog_gas_ok (ResolveAddressP a k) d \<longleftrightarrow> (\<forall>x. prog_gas_ok (k x) d)"
| "prog_gas_ok (GetActorCodeCIDP a k) d \<longleftrightarrow> (\<forall>x. prog_gas_ok (k x) d)"
| "prog_gas_ok (GetRandomnessP p e en k) d \<longleftrightarrow> (\<forall>x. prog_gas_ok (k x) d)"
| "prog_gas_ok (NewActorAddressP k) d \<longleftrightarrow> (\<forall>x. prog_gas_ok (k x) d)"
| "prog_gas_ok (CreateActorP c a k) d \<longleftrightarrow> prog_gas_ok k d"
| "prog_gas_ok (DeleteActorP a k) d \<longleftrightarrow> d \<and> prog_gas_ok k False"
| "prog_gas_ok (TotalFilCircSupplyP k) d \<longleftrightarrow> (\<forall>x. prog_gas_ok (k x) d)"
| "prog_gas_ok (StoreGetP c dec k) d \<longleftrightarrow> (\<forall>x. prog_gas_ok (k x) d)"
| "prog_gas_ok (StorePutP x k) d \<longleftrightarrow> size_ok x \<and> (\<forall>c. prog_gas_ok (k c) d)"
| "prog_gas_ok (StateCreateP x k) d \<longleftrightarrow> size_ok x \<and> prog_gas_ok k d"
| "prog_gas_ok (StateReadonlyP dec k) d \<longleftrightarrow> (\<forall>x. prog_gas_ok (k x) d)"
| "prog_gas_ok (StateTransactionP dec f k) d \<longleftrightarrow> (\<forall>x. prog_gas_ok (f x) False) \<and> (\<forall>r. prog_gas_ok (k r) d)"
| "prog_gas_ok (SendP t m x v k) d \<longleftrightarrow> (\<forall>r c. prog_gas_ok (k r c) d)"
| "prog_gas_ok (ChargeGasP c v k) d \<longleftrightarrow> 0 \<le> c \<and> in_i64 c \<and> prog_gas_ok k d"
| "prog_gas_ok (SyscallP call k) d \<longleftrightarrow> syscall_ok call \<and> (\<forall>x. prog_gas_ok (k x) d)"

definition code_gas_ok :: "vm_env \<Rightarrow> bool" where
  "code_gas_ok E \<longleftrightarrow>
     (\<forall>c exps f ps code msg h. exportsOf E c = Some exps \<longrightarrow> Some f \<in> set exps \<longrightarrow> f ps = Inr code \<longrightarrow>
        prog_gas_ok (code msg h) True) \<and>
     (\<forall>st bs call. list_all (\<lambda>g. 0 \<le> Total g) (fst (sysUnder E st bs call)))"

section \<open>The meter\<close>

text \<open>At least \<open>b\<close> gas is used, and no more than is available.\<close>

definition meter_inv :: "nat \<Rightarrow> Runtime \<Rightarrow> bool" where
  "meter_inv b rt \<longleftrightarrow> int b \<le> gasUsed rt \<and> gasUsed rt \<le> gasAvailable rt \<and> gasAvailable rt < 2 ^ 62 \<and>
     pricelist rt = price0"

definition meter_rel :: "nat \<Rightarrow> Runtime \<times> VM \<Rightarrow> Runtime \<times> VM \<Rightarrow> bool" where
  "meter_rel k s t \<longleftrightarrow>
     (\<forall>b. meter_inv (b + k) (fst s) \<longrightarrow> meter_inv b (fst t) \<and> gasAvailable (fst t) = gasAvailable (fst s))"

interpretation meter: rt_relation meter_rel
proof (unfold_locales, goal_cases)
  case (1 k s)
  then show ?case by (auto simp: meter_rel_def meter_inv_def)
next
  case (2 k s t l u)
  then show ?case unfolding meter_rel_def by (metis add.assoc add.commute)
qed

lemma chargeGasInternal_meter:
  assumes "meter_inv b rt" and "- int b \<le> Total g"
  shows "chargeGasInternal E g rt =
    (if gasUsed rt + Total g \<le> gasAvailable rt then (None, rt\<lparr>gasUsed := gasUsed rt + Total g\<rparr>)
     else (Some (Newf (exitCode E SysErrOutOfGas)), rt\<lparr>gasUsed := gasAvailable rt\<rparr>))"
proof -
  from assms have r: "0 \<le> gasUsed rt" "gasUsed rt \<le> gasAvailable rt" "gasAvailable rt < 2 ^ 62"
      "- (2 ^ 62) \<le> Total g" "Total g < 2 ^ 63" "0 \<le> gasUsed rt + Total g"
    using Total_in_i64 [of g] by (auto simp: meter_inv_def in_i64_def)
  then have "i64 (gasAvailable rt - Total g) = gasAvailable rt - Total g"
    by (intro i64_id) (simp add: in_i64_def)
  moreover have "i64 (gasUsed rt + Total g) = gasUsed rt + Total g" if "gasUsed rt + Total g \<le> gasAvailable rt"
    using r that by (intro i64_id) (simp add: in_i64_def)
  ultimately show ?thesis by (auto simp: chargeGasInternal_def Let_def)
qed

text \<open>A charge of at least \<open>- k\<close> keeps the meter; a successful charge of at least \<open>k\<close> leaves room for it.\<close>

lemma keeps_meter_charge:
  assumes "- int k \<le> Total g"
  shows "meter.keeps k (chargeGasSafe E g)" and "meter.keeps k (chargeGas E g)"
proof -
  have "meter_rel k s (snd (chargeGasSafe E g s))" for s
    using chargeGasInternal_meter [of "b + k" "fst s" g E for b] assms
    by (auto simp: meter_rel_def chargeGasSafe_def meter_inv_def split: prod.splits if_splits)
  then show c: "meter.keeps k (chargeGasSafe E g)" by (simp add: meter.keeps_def)
  show "meter.keeps k (chargeGas E g)"
    unfolding chargeGas_def by (intro meter.keeps_rbind_last c meter.keeps_basic)
qed

lemma keeps_meter_paid:
  assumes "int k \<le> Total g" and "\<And>e. meter.keeps 0 (h (Some e))" and "meter.keeps k (h None)"
  shows "meter.keeps 0 (rbind (chargeGasSafe E g) h)"
proof -
  have "meter_rel 0 s (snd (rbind (chargeGasSafe E g) h s))" for s
    unfolding meter_rel_def
  proof (intro allI impI)
    fix b assume i: "meter_inv (b + 0) (fst s)"
    let ?s1 = "snd (chargeGasSafe E g s)"
    have c: "chargeGasInternal E g (fst s) =
      (if gasUsed (fst s) + Total g \<le> gasAvailable (fst s) then (None, (fst s)\<lparr>gasUsed := gasUsed (fst s) + Total g\<rparr>)
       else (Some (Newf (exitCode E SysErrOutOfGas)), (fst s)\<lparr>gasUsed := gasAvailable (fst s)\<rparr>))"
      by (rule chargeGasInternal_meter [OF i]) (use assms(1) in simp)
    show "meter_inv b (fst (snd (rbind (chargeGasSafe E g) h s))) \<and>
      gasAvailable (fst (snd (rbind (chargeGasSafe E g) h s))) = gasAvailable (fst s)"
    proof (cases "gasUsed (fst s) + Total g \<le> gasAvailable (fst s)")
      case True
      let ?t = "((fst s)\<lparr>gasUsed := gasUsed (fst s) + Total g\<rparr>, snd s)"
      have "meter_inv (b + k) (fst ?t)" using i assms(1) True by (simp add: meter_inv_def)
      moreover have "meter_rel k ?t (snd (h None ?t))" using assms(3) unfolding meter.keeps_def by blast
      ultimately show ?thesis using True c by (simp add: rbind_def chargeGasSafe_def meter_rel_def)
    next
      case False
      let ?e = "Some (Newf (exitCode E SysErrOutOfGas))"
      let ?t = "((fst s)\<lparr>gasUsed := gasAvailable (fst s)\<rparr>, snd s)"
      have "meter_inv b (fst ?t)" using i by (simp add: meter_inv_def)
      moreover have "meter_rel 0 ?t (snd (h ?e ?t))" using assms(2) unfolding meter.keeps_def by blast
      ultimately show ?thesis using False c by (simp add: rbind_def chargeGasSafe_def meter_rel_def)
    qed
  qed
  then show ?thesis by (simp add: meter.keeps_def)
qed

lemma keeps_meter_same:
  assumes "\<And>s. fst (snd (m s)) = fst s"
  shows "meter.keeps k m"
  using assms by (auto simp: meter.keeps_def meter_rel_def meter_inv_def)

lemma keeps_meter_tree: "meter.keeps k (rtree f)"
  by (rule keeps_meter_same) (simp add: rtree_def split: prod.splits)

lemma keeps_meter_rmod:
  assumes "\<And>rt. gasUsed (f rt) = gasUsed rt \<and> gasAvailable (f rt) = gasAvailable rt \<and> pricelist (f rt) = pricelist rt"
  shows "meter.keeps k (rmod f)"
  using assms by (auto simp: meter.keeps_def rmod_def meter_rel_def meter_inv_def)

text \<open>Reading the price list of a runtime in a good state gives the list of epoch 0.\<close>

lemma keeps_meter_pricelist:
  assumes "meter.keeps k (h price0)"
  shows "meter.keeps k (rbind (rget (pricelist \<circ> fst)) h)"
proof -
  have "meter_rel k s (snd (rbind (rget (pricelist \<circ> fst)) h s))" for s
  proof (cases "pricelist (fst s) = price0")
    case True
    then show ?thesis using meter.keepsD [OF assms, of s] by (simp add: rbind_def rget_def)
  next
    case False
    then show ?thesis by (simp add: meter_rel_def meter_inv_def)
  qed
  then show ?thesis by (simp add: meter.keeps_def)
qed

section \<open>Prices\<close>

lemma price0_charges:
  "Total (OnIpldGet price0) = 417230" "Total (OnCreateActor price0) = 826011"
  "Total (OnDeleteActor price0) = - 76000" "Total gasOnActorExec = 0"
  "Total (newGasCharge n 0 0) = 0"
  by (simp_all add: OnIpldGet_def OnCreateActor_def OnDeleteActor_def gasOnActorExec_def price0_def i64_def)

lemma OnIpldPut_nonneg: "int (length b) < 2 ^ 40 \<Longrightarrow> 0 \<le> Total (OnIpldPut price0 (int (length b)))"
proof -
  assume a: "int (length b) < 2 ^ 40"
  have "i64 (int (length b)) = int (length b)" "i64 (int (length b) * 1000) = int (length b) * 1000"
    "i64 (396100 + int (length b) * 1000) = 396100 + int (length b) * 1000"
    using a by (auto intro!: i64_id simp: in_i64_def)
  then show ?thesis by (simp add: OnIpldPut_def price0_def i64_id in_i64_def)
qed

lemma OnMethodInvocation_pays: "76000 \<le> Total (OnMethodInvocation price0 v m)"
  by (simp add: OnMethodInvocation_def price0_def MethodSend_def i64_def)

lemma syscall_charge_nonneg:
  assumes "syscall_ok call" and "syscall_charge E price0 call = Some g"
  shows "0 \<le> Total g"
proof (cases call)
  case (SysVerifyPoSt proofs n info)
  with assms(1) have n: "0 \<le> n" "n < 2 ^ 30" by (auto simp: syscall_ok_def)
  have "0 \<le> flat \<Longrightarrow> flat < 2 ^ 40 \<Longrightarrow> 0 \<le> scale \<Longrightarrow> scale < 2 ^ 24 \<Longrightarrow>
      0 \<le> i64 (go_div (i64 (flat + i64 (n * scale))) 2)" for flat scale
  proof -
    assume f: "0 \<le> flat" "flat < 2 ^ 40" "0 \<le> scale" "scale < 2 ^ 24"
    have "n * scale \<le> 2 ^ 30 * 2 ^ 24" using n f by (intro mult_mono) auto
    moreover have "0 \<le> n * scale" using n f by simp
    ultimately have e: "i64 (n * scale) = n * scale" "i64 (flat + n * scale) = flat + n * scale"
        "flat + n * scale < 2 ^ 60" "0 \<le> flat + n * scale"
      using f by (auto intro!: i64_id simp: in_i64_def)
    moreover have "i64 (x div 2) = x div 2" if "0 \<le> x" "x < 2 ^ 60" for x
      using that by (intro i64_id) (simp add: in_i64_def; linarith)
    note this [OF e(4,3)]
    ultimately show ?thesis by (simp add: go_div_nonneg)
  qed
  note this [of 106102820 10238878] this [of 1165718059 166657]
  with assms(2) SysVerifyPoSt show ?thesis
    by (auto simp: syscall_charge_def OnVerifyPost_def price0_def Let_def split: option.splits if_splits list.splits)
next
  case (SysVerifySignature t a b)
  with assms(2) show ?thesis
    by (auto simp: syscall_charge_def OnVerifySignature_def price0_def i64_def split: option.splits if_splits)
qed (use assms(2) in \<open>auto simp: syscall_charge_def OnHashing_def OnComputeUnsealedSectorCid_def OnVerifySeal_def
  OnVerifyConsensusFault_def price0_def i64_def\<close>)

section \<open>No operation of the runtime exceeds the limit\<close>

lemma keeps_meter_free: "0 \<le> Total g \<Longrightarrow> meter.keeps 0 (chargeGasSafe E g)" "0 \<le> Total g \<Longrightarrow> meter.keeps 0 (chargeGas E g)"
  by (simp_all add: keeps_meter_charge)

lemma keeps_meter_exec:
  "meter.keeps 0 (chargeGasSafe E gasOnActorExec)" "meter.keeps 0 (chargeGas E gasOnActorExec)"
  "meter.keeps 0 (chargeGasSafe E (newGasCharge n 0 0))" "meter.keeps 0 (chargeGas E (newGasCharge n 0 0))"
  "meter.keeps 0 (chargeGas E (OnIpldGet price0))" "meter.keeps 0 (chargeGas E (OnCreateActor price0))"
  "meter.keeps 0 (chargeGasSafe E (OnCreateActor price0))"
  by (simp_all add: keeps_meter_free price0_charges del: Total_newGasCharge)

lemma keeps_meter_chargeAll: "list_all (\<lambda>g. 0 \<le> Total g) gs \<Longrightarrow> meter.keeps 0 (chargeAll E gs)"
  by (induction gs) (auto intro: meter.keeps_basic keeps_meter_free)

lemma keeps_meter_ChargeGas: "0 \<le> c \<Longrightarrow> in_i64 c \<Longrightarrow> meter.keeps 0 (ChargeGas E c v)"
  unfolding ChargeGas_def
  by (rule keeps_meter_free) (simp add: Total_def WithVirtual_def newGasCharge_def GasComputeMulti_def i64_id i64_0)

lemma keeps_meter_store:
  shows "meter.keeps 0 (blocks_Get E c)" "meter.keeps 0 (cst_Get E c d)" "meter.keeps 0 (rt_Get E c d)"
    "size_ok x \<Longrightarrow> meter.keeps 0 (rt_Put E x)"
proof -
  show g: "meter.keeps 0 (blocks_Get E c)" for c
    unfolding blocks_Get_def by (rule keeps_meter_pricelist) (intro meter.keeps_basic keeps_meter_exec)
  show c: "meter.keeps 0 (cst_Get E c d)" for c d
    unfolding cst_Get_def by (intro meter.keeps_basic g)
  show "meter.keeps 0 (rt_Get E c d)"
    unfolding rt_Get_def by (intro meter.keeps_basic c)
  have "meter.keeps 0 (blocks_Put E b)" if "int (length b) < 2 ^ 40" for b
    unfolding blocks_Put_def
    by (rule keeps_meter_pricelist)
      (intro meter.keeps_basic keeps_meter_exec keeps_meter_free OnIpldPut_nonneg that keeps_meter_same; simp)
  then show "size_ok x \<Longrightarrow> meter.keeps 0 (rt_Put E x)"
    by (cases x) (auto simp: rt_Put_def size_ok_def intro!: meter.keeps_basic)
qed

lemma keeps_meter_rmods:
  "meter.keeps k (rmod (\<lambda>rt. rt\<lparr>callerValidated := v\<rparr>))" "meter.keeps k (rmod (\<lambda>rt. rt\<lparr>allowInternal := v\<rparr>))"
  "meter.keeps k (rmod (\<lambda>rt. rt\<lparr>numActorsCreated := f rt\<rparr>))"
  by (simp_all add: keeps_meter_rmod)

lemma keeps_meter_GetBalance: "meter.keeps k (rt_GetBalance E a)"
  unfolding rt_GetBalance_def
  by (intro meter.keeps_basic keeps_meter_tree) (auto split: sterr.splits intro: meter.keeps_basic)

lemma keeps_meter_GetActorCodeCID: "meter.keeps k (GetActorCodeCID E a)"
  unfolding GetActorCodeCID_def by (intro meter.keeps_basic keeps_meter_tree)

lemma keeps_meter_abort: "meter.keeps k (abortIfAlreadyValidated E)"
  unfolding abortIfAlreadyValidated_def by (intro meter.keeps_basic keeps_meter_rmods)

lemma keeps_meter_lookups:
  "meter.keeps k (rt_ResolveAddress E a)" "meter.keeps k (CurrentBalance E)" "meter.keeps k (GetRandomness E p e en)"
  "meter.keeps k (ValidateImmediateCallerIs E as)" "meter.keeps k (ValidateImmediateCallerType E ts)"
  "meter.keeps k (stateCommit E oldh newh)"
  unfolding rt_ResolveAddress_def CurrentBalance_def GetRandomness_def ValidateImmediateCallerIs_def
    ValidateImmediateCallerType_def stateCommit_def
  by (intro meter.keeps_basic keeps_meter_tree keeps_meter_GetBalance keeps_meter_GetActorCodeCID keeps_meter_abort)+

lemma keeps_meter_NewActorAddress: "meter.keeps k (NewActorAddress E)"
proof -
  have "meter.keeps k (\<lambda>s. let (r, st) = ResolveToKeyAddr E (blocks (snd s)) (cstate (snd s)) a
      in (Inr r, fst s, (snd s)\<lparr>cstate := st\<rparr>))" for k a
    by (rule keeps_meter_same) (simp split: prod.splits)
  then show ?thesis unfolding NewActorAddress_def
    by (intro meter.keeps_basic keeps_meter_rmods)
qed

lemma keeps_meter_CreateActor: "meter.keeps 0 (CreateActor E c a)"
  unfolding CreateActor_def
  by (intro meter.keeps_basic keeps_meter_tree keeps_meter_pricelist keeps_meter_exec)

lemma keeps_meter_DeleteActor: "meter.keeps 76000 (rt_DeleteActor E a)"
  unfolding rt_DeleteActor_def
  by (rule keeps_meter_pricelist, rule meter.keeps_rbind_last, rule keeps_meter_charge)
    (simp add: price0_charges, intro meter.keeps_basic keeps_meter_tree keeps_meter_exec)

lemma keeps_meter_supply: "meter.keeps 0 (supply_actor E a)" "meter.keeps 0 (supply_state E c dec)"
  unfolding supply_actor_def supply_state_def
  by (intro meter.keeps_basic keeps_meter_tree keeps_meter_store)+

lemma keeps_meter_TotalFilCircSupply: "meter.keeps 0 (TotalFilCircSupply E)"
  unfolding TotalFilCircSupply_def by (intro meter.keeps_basic keeps_meter_supply)

lemma keeps_meter_state:
  "size_ok x \<Longrightarrow> meter.keeps 0 (state_Create E x)" "meter.keeps 0 (state_Readonly E d)"
  unfolding state_Create_def state_Readonly_def
  by (intro meter.keeps_basic keeps_meter_tree keeps_meter_store keeps_meter_lookups; assumption)+

lemma keeps_meter_pricedSyscall:
  assumes "code_gas_ok E" and "syscall_ok call"
  shows "meter.keeps 0 (pricedSyscall E call)"
proof -
  have "list_all (\<lambda>g. 0 \<le> Total g) (fst (sysUnder E st bs call))" for st bs
    using assms(1) unfolding code_gas_ok_def by blast
  then have u: "meter.keeps 0 (case sysUnder E st bs call of (charges, res) \<Rightarrow>
     rbind (chargeAll E charges) (\<lambda>_. rbind (chargeGas E gasOnActorExec) (\<lambda>_. rret res)))" for st bs
    unfolding split_beta by (intro meter.keeps_rbind keeps_meter_chargeAll keeps_meter_exec meter.keeps_rret) simp
  show ?thesis
  proof (cases "syscall_charge E price0 call")
    case None
    then show ?thesis unfolding pricedSyscall_def
      by (intro keeps_meter_pricelist) (simp add: meter.keeps_rret)
  next
    case (Some g)
    note c = keeps_meter_free(2) [OF syscall_charge_nonneg [OF assms(2) Some]]
    show ?thesis unfolding pricedSyscall_def
      by (intro keeps_meter_pricelist, unfold Some option.case)
        (intro meter.keeps_rbind [OF c] meter.keeps_rbind_rget u)
  qed
qed

section \<open>Running actor code within the limit\<close>

text \<open>What a computation returns.\<close>

definition ends :: "('a \<Rightarrow> bool) \<Rightarrow> 'a rtm \<Rightarrow> bool" where
  "ends Q m \<longleftrightarrow> (\<forall>s x. fst (m s) = Inr x \<longrightarrow> Q x)"

lemma ends_rbind:
  assumes "\<And>x. ends Q (g x)"
  shows "ends Q (rbind f g)"
  unfolding ends_def
proof (intro allI impI)
  fix s y assume y: "fst (rbind f g s) = Inr y"
  then obtain x s1 where "f s = (Inr x, s1)" "fst (g x s1) = Inr y"
    by (cases "f s"; cases "fst (f s)") (auto simp: rbind_def)
  with assms show "Q y" unfolding ends_def by blast
qed

lemma ends_rret: "Q x \<Longrightarrow> ends Q (rret x)" and ends_rpanic: "ends Q (rpanic p)"
  by (simp_all add: ends_def rret_def rpanic_def)

lemma run_prog_size: "prog_gas_ok p d \<Longrightarrow> ends (\<lambda>(obj, r). size_ok obj) (run_prog E S p)"
proof (induction p arbitrary: d)
  case (SendP t m x v k)
  then have "ends (\<lambda>(obj, r). size_ok obj) (run_prog E S (k r c))" for r c
    by (metis prog_gas_ok.simps(20) rangeI)
  then show ?case by (auto intro!: ends_rbind)
next
  case (StateTransactionP ob f k)
  then have "ends (\<lambda>(obj, r). size_ok obj) (run_prog E S (k r))" for r
    using StateTransactionP.IH(2) [of "k r" d] by simp
  then show ?case by (auto intro!: ends_rbind)
qed (auto intro!: ends_rbind ends_rret ends_rpanic)

lemma keeps_rbind_ends:
  assumes "meter.keeps 0 f" and "ends Q f" and "\<And>x. Q x \<Longrightarrow> meter.keeps k (g x)"
  shows "meter.keeps k (rbind f g)"
proof -
  have "rbind f g s = rbind f (\<lambda>x. if Q x then g x else rpanic POther) s" for s
  proof -
    have "fst (f s) = Inr x \<Longrightarrow> Q x" for x using assms(2) unfolding ends_def by blast
    then show ?thesis by (auto simp: rbind_def split: prod.splits sum.splits)
  qed
  then have "rbind f g = rbind f (\<lambda>x. if Q x then g x else rpanic POther)" by blast
  moreover have "meter.keeps k (rbind f (\<lambda>x. if Q x then g x else rpanic POther))"
    by (intro meter.keeps_rbind assms meter.keeps_if meter.keeps_rpanic)
  ultimately show ?thesis by simp
qed

lemma keeps_meter_Transaction:
  assumes "\<And>x. meter.keeps 0 (f x)" and "\<And>x. ends (\<lambda>(obj, r). size_ok obj) (f x)"
  shows "meter.keeps 0 (state_Transaction E ob f)"
proof -
  have "meter.keeps 0 (rbind (f x) (\<lambda>(o2, captured).
     rbind (rmod (\<lambda>rt. rt\<lparr>allowInternal := True\<rparr>)) (\<lambda>_.
     rbind (rt_Put E o2) (\<lambda>c. rbind (stateCommit E h c) (\<lambda>_. rret captured)))))" for x h
    by (rule keeps_rbind_ends [OF assms])
      (auto intro!: meter.keeps_rbind meter.keeps_rret keeps_meter_rmods keeps_meter_store keeps_meter_lookups)
  note body = this
  show ?thesis
  proof (cases ob)
    case None
    then show ?thesis by (simp add: state_Transaction_def meter.keeps_Abortf)
  next
    case (Some d)
    show ?thesis unfolding state_Transaction_def Some option.case
      by (rule meter.keeps_rbind [OF meter.keeps_rget], rule meter.keeps_rbind [OF keeps_meter_tree],
          rule meter.keeps_sum [OF meter.keeps_Abortf], rule meter.keeps_rbind [OF keeps_meter_store(3)],
          rule meter.keeps_rbind [OF keeps_meter_rmods(2)], rule body)
  qed
qed

definition isend_meter :: "isend \<Rightarrow> bool" where
  "isend_meter S \<longleftrightarrow> (\<forall>f t m v p. meter.keeps 0 (S f t m v p))"

lemma keeps_meter_rt_Send: "isend_meter S \<Longrightarrow> meter.keeps 0 (rt_Send E S t m x v)"
  unfolding rt_Send_def
  by (intro meter.keeps_basic keeps_meter_exec) (simp add: isend_meter_def)

lemmas keeps_meter_ops = keeps_meter_abort keeps_meter_lookups keeps_meter_GetActorCodeCID keeps_meter_NewActorAddress
  keeps_meter_CreateActor keeps_meter_TotalFilCircSupply keeps_meter_store keeps_meter_state
  keeps_meter_Transaction keeps_meter_rt_Send keeps_meter_ChargeGas keeps_meter_pricedSyscall

text \<open>The refund that is still possible.\<close>

definition allowance :: "bool \<Rightarrow> nat" where
  "allowance d = (if d then 76000 else 0)"

lemma keeps_meter_run_prog:
  assumes "code_gas_ok E" and "isend_meter S"
  shows "prog_gas_ok p d \<Longrightarrow> meter.keeps (allowance d) (run_prog E S p)"
proof (induction p arbitrary: d)
  case (DeleteActorP a p)
  then have "meter.keeps 0 (run_prog E S p)" using DeleteActorP.IH [of False] by (simp add: allowance_def)
  with DeleteActorP.prems show ?case
    by (simp add: allowance_def meter.keeps_rbind_last keeps_meter_DeleteActor)
next
  case (StateTransactionP ob f k)
  then have "meter.keeps 0 (run_prog E S (f x))" "ends (\<lambda>(obj, r). size_ok obj) (run_prog E S (f x))" for x
    using StateTransactionP.IH(1) [of "f x" False] run_prog_size [of "f x" False] by (auto simp: allowance_def)
  moreover have "meter.keeps (allowance d) (run_prog E S (k r))" for r
    using StateTransactionP.IH(2) [of "k r" d] StateTransactionP.prems by simp
  ultimately show ?case
    unfolding run_prog.simps by (intro meter.keeps_rbind keeps_meter_Transaction)
next
  case (SendP t m x v k)
  have "meter.keeps (allowance d) (run_prog E S (k r c))" for r c
    using SendP.IH [of "k r" "k r c" d] SendP.prems by simp
  then show ?case unfolding run_prog.simps
    by (intro meter.keeps_rbind meter.keeps_prod keeps_meter_rt_Send assms)
qed (use assms in \<open>auto intro!: meter.keeps_rbind meter.keeps_rret meter.keeps_rpanic keeps_meter_ops\<close>)

lemma keeps_meter_VM_Invoke:
  assumes "code_gas_ok E" and "isend_meter S"
  shows "meter.keeps 76000 (VM_Invoke E S act m ps)"
proof -
  have e: "meter.keeps 76000 (transform_export x E S ps)"
    if "exportsOf E c = Some exps" "x \<in> set exps" for x ps c exps
  proof (cases x)
    case None
    then show ?thesis by (simp add: transform_export_def meter.keeps_rpanic)
  next
    case (Some meth)
    have "meter.keeps 76000 (run_prog E S (code msg h))" if "meth ps = Inr code" for code msg h
    proof -
      have "prog_gas_ok (code msg h) True"
        using assms(1) Some that \<open>exportsOf E c = Some exps\<close> \<open>x \<in> set exps\<close> unfolding code_gas_ok_def by blast
      from keeps_meter_run_prog [OF assms this] show ?thesis by (simp add: allowance_def)
    qed
    then show ?thesis unfolding transform_export_def Some option.case
      by (cases "meth ps") (auto intro!: meter.keeps_rret meter.keeps_shimCall meter.keeps_rbind_rget)
  qed
  have "meter.keeps 76000 (Invoker_Invoke E S c m ps)" for c
    using e [of c] by (auto simp: Invoker_Invoke_def transform_def split: option.split intro: meter.keeps_rret)
  then show ?thesis unfolding VM_Invoke_def by (intro meter.keeps_rbind_last meter.keeps_basic)
qed

lemma keeps_meter_height: "meter.keeps 0 (h (Some price0)) \<Longrightarrow>
    meter.keeps 0 (rbind (rget (\<lambda>s. PricelistByEpoch prices (height (fst s)))) h)"
  by (rule meter.keeps_rbind_rget) simp

lemma keeps_meter_TryCreate:
  assumes "isend_meter S"
  shows "meter.keeps 0 (TryCreateAccountActor E S a)"
proof -
  have S: "meter.keeps 0 (S f t m v p)" for f t m v p
    using assms by (simp add: isend_meter_def)
  show ?thesis unfolding TryCreateAccountActor_def
    by (rule keeps_meter_height, unfold option.case)
      (intro meter.keeps_basic keeps_meter_tree keeps_meter_exec S)
qed

lemma keeps_meter_send_rest:
  assumes "code_gas_ok E" and "isend_meter S"
  shows "meter.keeps 0 (send_rest E S msg act)"
proof -
  have t: "meter.keeps 0 (if bigOf (msgValue msg) = 0 then rret None
      else rtree (\<lambda>st. transfer E st (msgFrom msg) (msgTo msg) (bigOf (msgValue msg))))"
    by (intro meter.keeps_if meter.keeps_rret keeps_meter_tree)
  have i: "meter.keeps 76000 (if msgMethod msg \<noteq> 0
      then rbind (chargeGasSafe E gasOnActorExec) (\<lambda>_. VM_Invoke E S act (msgMethod msg) (msgParams msg))
      else rret ([], None))"
    by (intro meter.keeps_if meter.keeps_rbind keeps_meter_exec keeps_meter_VM_Invoke assms meter.keeps_rret)
  have n: "meter.keeps 76000
       (rbind
         (rbind (if bigOf (msgValue msg) = 0 then rret None
                 else rtree (\<lambda>st. transfer E st (msgFrom msg) (msgTo msg) (bigOf (msgValue msg)))) (\<lambda>err.
            case err of
              Some _ \<Rightarrow> rret ([], Wrap err)
            | None \<Rightarrow>
              if msgMethod msg \<noteq> 0 then
                rbind (chargeGasSafe E gasOnActorExec) (\<lambda>_.
                  VM_Invoke E S act (msgMethod msg) (msgParams msg))
              else rret ([], None)))
         (\<lambda>res. rbind (chargeGasSafe E (newGasCharge ''OnMethodInvocationDone'' 0 0)) (\<lambda>_. rret res)))"
    by (intro meter.keeps_rbind_last meter.keeps_rbind [OF t] meter.keeps_option i meter.keeps_rret keeps_meter_exec)
  show ?thesis unfolding send_rest_def
    by (rule keeps_meter_pricelist, rule keeps_meter_paid [where k = 76000])
      (simp add: OnMethodInvocation_pays, simp add: meter.keeps_rret, unfold option.case, rule n)
qed

lemma keeps_meter_send_body:
  assumes "code_gas_ok E" and "isend_meter S"
  shows "meter.keeps 0 (send_body E S msg)"
  unfolding send_body_def
  by (intro meter.keeps_basic keeps_meter_tree keeps_meter_exec keeps_meter_TryCreate keeps_meter_send_rest assms)

text \<open>
  Sending: the callee starts with the gas its caller has used, and hands back at least as much
  and never more than the limit.
\<close>

definition send_meter :: "(Message \<Rightarrow> Runtime option \<Rightarrow> GasCharge option \<Rightarrow> VM \<Rightarrow> send_res) \<Rightarrow> bool" where
  "send_meter sendf \<longleftrightarrow> (\<forall>msg parent g vm b rt.
     fst (snd (sendf msg parent g vm)) = Some rt \<longrightarrow>
     0 \<le> msgGasLimit msg \<longrightarrow> msgGasLimit msg < 2 ^ 62 \<longrightarrow>
     (case g of None \<Rightarrow> True | Some g \<Rightarrow> 0 \<le> Total g) \<longrightarrow>
     (case parent of None \<Rightarrow> b = 0 | Some p \<Rightarrow> meter_inv b p \<and> gasAvailable p = msgGasLimit msg) \<longrightarrow>
     meter_inv b rt \<and> gasAvailable rt = msgGasLimit msg)"

lemma internalSend_meter:
  assumes "send_meter sendf"
  shows "isend_meter (internalSend sendf)"
proof -
  have "meter_rel 0 s (snd (internalSend sendf f t m v p s))" for f t m v p s
    unfolding meter_rel_def
  proof (intro allI impI)
    fix b assume i: "meter_inv (b + 0) (fst s)"
    define msg where "msg = \<lparr>msgVersion = 0, msgTo = t, msgFrom = f, msgNonce = 0, msgValue = Some v,
      msgGasPrice = None, msgGasLimit = gasAvailable (fst s), msgMethod = m, msgParams = p\<rparr>"
    obtain res sub vm1 where r: "sendf msg (Some (fst s)) None ((snd s)\<lparr>cstate := Snapshot (cstate (snd s))\<rparr>) = (res, sub, vm1)"
      by (cases "sendf msg (Some (fst s)) None ((snd s)\<lparr>cstate := Snapshot (cstate (snd s))\<rparr>)")
    have sub: "meter_inv b rt \<and> gasAvailable rt = gasAvailable (fst s)" if "sub = Some rt" for rt
    proof -
      have *: "fst (snd (sendf msg (Some (fst s)) None ((snd s)\<lparr>cstate := Snapshot (cstate (snd s))\<rparr>))) = Some rt"
        by (simp add: r that)
      have "msgGasLimit msg = gasAvailable (fst s)" by (simp add: msg_def)
      with assms [unfolded send_meter_def, rule_format, OF *, of b] i show ?thesis
        by (simp add: meter_inv_def)
    qed
    let ?t = "fst (snd (internalSend sendf f t m v p s))"
    have "gasAvailable ?t = gasAvailable (fst s) \<and> pricelist ?t = pricelist (fst s) \<and>
        gasUsed ?t = (case sub of None \<Rightarrow> gasUsed (fst s) | Some rt \<Rightarrow> gasUsed rt)"
      by (cases sub; simp add: internalSend_def Let_def msg_def [symmetric] r split: option.split sum.split)
    with i sub show "meter_inv b ?t \<and> gasAvailable ?t = gasAvailable (fst s)"
      by (cases sub) (auto simp: meter_inv_def)
  qed
  then show ?thesis unfolding isend_meter_def meter.keeps_def by blast
qed

lemma makeRuntime_InrD:
  assumes "makeRuntime E vm msg o1 n g c = (Inr rt, vm1)"
  shows "gasUsed rt = g \<and> gasAvailable rt = msgGasLimit msg \<and> pricelist rt = price0 \<and> numActorsCreated rt = c"
  using assms
  by (auto simp: makeRuntime_def rt_ResolveAddress_def rbind_def rtree_def rret_def rpanic_def fatal_panic_def
      split: sum.splits if_splits prod.splits)

lemma send_keeps_meter: "code_gas_ok E \<Longrightarrow> send_meter (send E n)"
proof (induction n)
  case 0
  then show ?case by (simp add: send_meter_def)
next
  case (Suc n)
  show ?case unfolding send_meter_def
  proof (intro allI impI)
    fix msg :: Message and parent :: "Runtime option" and g and vm :: VM and b rt2
    assume res: "fst (snd (send E (Suc n) msg parent g vm)) = Some rt2"
      and lim: "0 \<le> msgGasLimit msg" "msgGasLimit msg < 2 ^ 62"
      and g: "case g of None \<Rightarrow> True | Some g \<Rightarrow> 0 \<le> Total g"
      and par: "case parent of None \<Rightarrow> b = 0 | Some p \<Rightarrow> meter_inv b p \<and> gasAvailable p = msgGasLimit msg"
    let ?b = "rbind (case g of None \<Rightarrow> rret None | Some g \<Rightarrow> chargeGasSafe E g) (\<lambda>err.
      case err of Some _ \<Rightarrow> rret ([], Wrap err) | None \<Rightarrow> send_body E (internalSend (send E n)) msg)"
    have k: "meter.keeps 0 ?b"
      by (cases g) (use g in \<open>auto intro!: meter.keeps_rbind meter.keeps_rret meter.keeps_option keeps_meter_free
        keeps_meter_send_body Suc.prems internalSend_meter Suc.IH\<close>)
    obtain o1 on gu nac where p: "(case parent of None \<Rightarrow> (msgFrom msg, msgNonce msg, 0, 0)
        | Some p \<Rightarrow> (origin p, originNonce p, gasUsed p, numActorsCreated p)) = (o1, on, gu, nac)"
      by (cases "case parent of None \<Rightarrow> (msgFrom msg, msgNonce msg, 0, 0)
        | Some p \<Rightarrow> (origin p, originNonce p, gasUsed p, numActorsCreated p)")
    obtain rt vm1 where m: "makeRuntime E vm msg o1 on gu nac = (Inr rt, vm1)" and r2: "rt2 = fst (snd (?b (rt, vm1)))"
      using res p by (auto split: sum.splits prod.splits)
    note mr = makeRuntime_InrD [OF m]
    have "meter_inv b rt" using mr p par lim by (auto simp: meter_inv_def split: option.splits)
    with meter.keepsD [OF k, of "(rt, vm1)"] mr show "meter_inv b rt2 \<and> gasAvailable rt2 = msgGasLimit msg"
      by (simp add: meter_rel_def r2)
  qed
qed

end
