(* ===== verification/VM_Fuel.thy ===== *)
theory VM_Fuel
  imports VM_Meter
begin

text \<open>
  Messages end: the fuel of \<open>send\<close> counts the levels of the call stack, and gas bounds them.
  Entering a method costs at least 94126 gas, of which at most 76000 come back by deleting the
  actor, so a call at depth \<open>n\<close> has used at least \<open>18126 * n\<close>.
\<close>

section \<open>Computations that never run out of fuel\<close>

definition nofuel :: "'a rtm \<Rightarrow> bool" where
  "nofuel m \<longleftrightarrow> (\<forall>s. fst (m s) \<noteq> Inl PFuel)"

lemma nofuel_rret: "nofuel (rret x)" and nofuel_rget: "nofuel (rget f)" and nofuel_rmod: "nofuel (rmod f')"
  and nofuel_aerr: "nofuel (rpanic (PAerr e))" and nofuel_other: "nofuel (rpanic POther)"
  by (simp_all add: nofuel_def rret_def rget_def rmod_def rpanic_def)

lemma nofuel_rtree: "nofuel (rtree f)"
  by (simp add: nofuel_def rtree_def split: prod.splits)

lemma nofuel_chargeGasSafe: "nofuel (chargeGasSafe E g)"
  by (simp add: nofuel_def chargeGasSafe_def split: prod.splits)

lemma nofuel_rbind: "nofuel f \<Longrightarrow> (\<And>x. nofuel (g x)) \<Longrightarrow> nofuel (rbind f g)"
  unfolding nofuel_def rbind_def by (auto split: prod.splits sum.splits) (metis fst_conv)+

lemma nofuel_Abortf: "nofuel (Abortf E c)" and nofuel_fatal: "nofuel fatal_panic"
  by (simp_all add: Abortf_def fatal_panic_def nofuel_aerr)

lemma nofuel_option: "nofuel a \<Longrightarrow> (\<And>x. nofuel (b x)) \<Longrightarrow> nofuel (case z of None \<Rightarrow> a | Some x \<Rightarrow> b x)"
  by (cases z) auto

lemma nofuel_sum: "(\<And>x. nofuel (a x)) \<Longrightarrow> (\<And>x. nofuel (b x)) \<Longrightarrow> nofuel (case z of Inl x \<Rightarrow> a x | Inr x \<Rightarrow> b x)"
  by (cases z) auto

lemma nofuel_if: "nofuel a \<Longrightarrow> nofuel b \<Longrightarrow> nofuel (if c then a else b)"
  by auto

lemma nofuel_prod: "(\<And>x y. nofuel (f x y)) \<Longrightarrow> nofuel (case z of (x, y) \<Rightarrow> f x y)"
  by (cases z) auto

lemma nofuel_geterr: "nofuel a \<Longrightarrow> nofuel b \<Longrightarrow> nofuel (case z of BlockMissing \<Rightarrow> a | BlockUndecodable \<Rightarrow> b)"
  by (cases z) auto

lemma nofuel_Let: "(\<And>x. nofuel (f x)) \<Longrightarrow> nofuel (let x = z in f x)"
  by simp

lemmas nofuel_basic = nofuel_rret nofuel_rget nofuel_rmod nofuel_aerr nofuel_other nofuel_rtree
  nofuel_chargeGasSafe nofuel_Abortf nofuel_fatal nofuel_option nofuel_sum nofuel_if nofuel_prod
  nofuel_geterr nofuel_Let nofuel_rbind

lemma nofuel_charge: "nofuel (chargeGas E g)" "nofuel (ChargeGas E c v)"
  unfolding chargeGas_def ChargeGas_def by (intro nofuel_basic)+

lemma nofuel_chargeAll: "nofuel (chargeAll E gs)"
  by (induction gs) (auto intro: nofuel_rret nofuel_rbind nofuel_charge)

lemma nofuel_blocks: "nofuel (blocks_Get E c)" "nofuel (blocks_Put E b)"
proof -
  show "nofuel (blocks_Get E c)" unfolding blocks_Get_def by (intro nofuel_basic nofuel_charge)
  have "nofuel (\<lambda>s. (Inr (), fst s, (snd s)\<lparr>blocks := (blocks (snd s))(c \<mapsto> b)\<rparr>))" for c b
    by (simp add: nofuel_def)
  then show "nofuel (blocks_Put E b)" unfolding blocks_Put_def by (intro nofuel_basic nofuel_charge)
qed

lemma nofuel_store: "nofuel (cst_Get E c d)" "nofuel (rt_Get E c d)" "nofuel (rt_Put E x)"
  unfolding cst_Get_def rt_Get_def rt_Put_def by (intro nofuel_basic nofuel_blocks)+

lemma nofuel_GetBalance: "nofuel (rt_GetBalance E a)"
  unfolding rt_GetBalance_def by (intro nofuel_basic) (auto split: sterr.splits intro: nofuel_basic)

lemma nofuel_lookups: "nofuel (rt_ResolveAddress E a)" "nofuel (CurrentBalance E)" "nofuel (GetActorCodeCID E a)"
  "nofuel (GetRandomness E p e en)" "nofuel (abortIfAlreadyValidated E)" "nofuel (stateCommit E oldh newh)"
  "nofuel (CreateActor E c a)" "nofuel (rt_DeleteActor E a)"
  unfolding rt_ResolveAddress_def CurrentBalance_def GetActorCodeCID_def GetRandomness_def
    abortIfAlreadyValidated_def stateCommit_def CreateActor_def rt_DeleteActor_def
  by (intro nofuel_basic nofuel_GetBalance nofuel_charge)+

lemma nofuel_validate: "nofuel (ValidateImmediateCallerIs E as)" "nofuel (ValidateImmediateCallerType E ts)"
  unfolding ValidateImmediateCallerIs_def ValidateImmediateCallerType_def by (intro nofuel_basic nofuel_lookups)+

lemma nofuel_NewActorAddress: "nofuel (NewActorAddress E)"
proof -
  have "nofuel (\<lambda>s. let (r, st) = ResolveToKeyAddr E (blocks (snd s)) (cstate (snd s)) a
      in (Inr r, fst s, (snd s)\<lparr>cstate := st\<rparr>))" for a
    by (simp add: nofuel_def split: prod.splits)
  then show ?thesis unfolding NewActorAddress_def by (intro nofuel_basic)
qed

lemma nofuel_supply: "nofuel (supply_actor E a)" "nofuel (supply_state E c dec)"
  unfolding supply_actor_def supply_state_def by (intro nofuel_basic nofuel_store)+

lemma nofuel_state: "nofuel (TotalFilCircSupply E)" "nofuel (state_Create E x)" "nofuel (state_Readonly E d)"
  "nofuel (pricedSyscall E call)"
  unfolding TotalFilCircSupply_def state_Create_def state_Readonly_def pricedSyscall_def
  by (intro nofuel_basic nofuel_supply nofuel_store nofuel_lookups nofuel_charge nofuel_chargeAll)+

lemmas nofuel_ops = nofuel_charge nofuel_store nofuel_lookups nofuel_validate nofuel_NewActorAddress nofuel_state

section \<open>Enough fuel\<close>

text \<open>No running out of fuel from states whose limit is \<open>L\<close> and where \<open>B + k\<close> is used.\<close>

definition enough :: "int \<Rightarrow> nat \<Rightarrow> nat \<Rightarrow> 'a rtm \<Rightarrow> bool" where
  "enough L B k m \<longleftrightarrow> (\<forall>s. meter_inv (B + k) (fst s) \<longrightarrow> gasAvailable (fst s) = L \<longrightarrow> fst (m s) \<noteq> Inl PFuel)"

lemma enough_nofuel: "nofuel m \<Longrightarrow> enough L B k m"
  by (simp add: enough_def nofuel_def)

lemma enough_rret: "enough L B k (rret x)" and enough_aerr: "enough L B k (rpanic (PAerr e))"
  and enough_other: "enough L B k (rpanic POther)"
  by (simp_all add: enough_nofuel nofuel_rret nofuel_aerr nofuel_other)

lemma enough_sum: "(\<And>x. enough L B k (a x)) \<Longrightarrow> (\<And>x. enough L B k (b x)) \<Longrightarrow>
    enough L B k (case z of Inl x \<Rightarrow> a x | Inr x \<Rightarrow> b x)"
  by (cases z) auto

lemma enough_option: "enough L B k a \<Longrightarrow> (\<And>x. enough L B k (b x)) \<Longrightarrow>
    enough L B k (case z of None \<Rightarrow> a | Some x \<Rightarrow> b x)"
  by (cases z) auto

lemma meter_inv_mono: "meter_inv b rt \<Longrightarrow> c \<le> b \<Longrightarrow> meter_inv c rt"
  by (simp add: meter_inv_def)

lemma enough_mono: "enough L B k m \<Longrightarrow> B + k \<le> C + l \<Longrightarrow> enough L C l m"
  unfolding enough_def using meter_inv_mono by blast

lemma enough_rbind:
  assumes "enough L B (k + l) f" and "meter.keeps k f" and "\<And>x. enough L B l (g x)"
  shows "enough L B (k + l) (rbind f g)"
  unfolding enough_def
proof (intro allI impI)
  fix s :: "Runtime \<times> VM" assume i: "meter_inv (B + (k + l)) (fst s)" and a: "gasAvailable (fst s) = L"
  obtain r s1 where f: "f s = (r, s1)" by (cases "f s")
  from assms(1) i a f have "r \<noteq> Inl PFuel" unfolding enough_def by (metis fst_conv)
  moreover have "meter_inv (B + l) (fst s1) \<and> gasAvailable (fst s1) = L"
  proof -
    have "B + (k + l) = (B + l) + k" by simp
    with meter.keepsD [OF assms(2), of s] i a show ?thesis unfolding meter_rel_def by (metis f snd_conv)
  qed
  ultimately show "fst (rbind f g s) \<noteq> Inl PFuel" using assms(3)
    by (cases r) (simp_all add: rbind_def f enough_def del: split_paired_All)
qed

lemma enough_rbind0: "enough L B k f \<Longrightarrow> meter.keeps 0 f \<Longrightarrow> (\<And>x. enough L B k (g x)) \<Longrightarrow> enough L B k (rbind f g)"
  using enough_rbind [of L B 0 k f g] by simp

lemma enough_op: "nofuel f \<Longrightarrow> meter.keeps 0 f \<Longrightarrow> (\<And>x. enough L B k (g x)) \<Longrightarrow> enough L B k (rbind f g)"
  by (rule enough_rbind0) (auto intro: enough_nofuel)

lemma enough_rget: "(\<And>s. enough L B k (g (f s))) \<Longrightarrow> enough L B k (rbind (rget f) g)"
  by (simp add: enough_def rbind_def rget_def del: split_paired_All)

lemma enough_paid:
  assumes "int k \<le> Total g" and "\<And>e. enough L B 0 (h (Some e))" and "enough L B k (h None)"
  shows "enough L B 0 (rbind (chargeGasSafe E g) h)"
  unfolding enough_def
proof (intro allI impI)
  fix s :: "Runtime \<times> VM" assume i: "meter_inv (B + 0) (fst s)" and a: "gasAvailable (fst s) = L"
  have c: "chargeGasInternal E g (fst s) =
    (if gasUsed (fst s) + Total g \<le> gasAvailable (fst s) then (None, (fst s)\<lparr>gasUsed := gasUsed (fst s) + Total g\<rparr>)
     else (Some (Newf (exitCode E SysErrOutOfGas)), (fst s)\<lparr>gasUsed := gasAvailable (fst s)\<rparr>))"
    by (rule chargeGasInternal_meter [OF i]) (use assms(1) in simp)
  show "fst (rbind (chargeGasSafe E g) h s) \<noteq> Inl PFuel"
  proof (cases "gasUsed (fst s) + Total g \<le> gasAvailable (fst s)")
    case True
    let ?t = "((fst s)\<lparr>gasUsed := gasUsed (fst s) + Total g\<rparr>, snd s)"
    have "meter_inv (B + k) (fst ?t)" "gasAvailable (fst ?t) = L" using i a assms(1) True by (simp_all add: meter_inv_def)
    with assms(3) have "fst (h None ?t) \<noteq> Inl PFuel" unfolding enough_def by blast
    with True c show ?thesis by (simp add: rbind_def chargeGasSafe_def)
  next
    case False
    let ?t = "((fst s)\<lparr>gasUsed := gasAvailable (fst s)\<rparr>, snd s)"
    have "meter_inv (B + 0) (fst ?t)" "gasAvailable (fst ?t) = L" using i a by (simp_all add: meter_inv_def)
    with assms(2) have "fst (h (Some (Newf (exitCode E SysErrOutOfGas))) ?t) \<noteq> Inl PFuel" unfolding enough_def by blast
    with False c show ?thesis by (simp add: rbind_def chargeGasSafe_def)
  qed
qed

lemma enough_pricelist: "enough L B k (h price0) \<Longrightarrow> enough L B k (rbind (rget (pricelist \<circ> fst)) h)"
  by (auto simp: enough_def rbind_def rget_def meter_inv_def)

definition isend_enough :: "int \<Rightarrow> nat \<Rightarrow> isend \<Rightarrow> bool" where
  "isend_enough L B S \<longleftrightarrow> (\<forall>f t m v p. enough L B 0 (S f t m v p))"

lemma enough_rt_Send:
  assumes "isend_enough L B S" and "isend_meter S"
  shows "enough L B k (rt_Send E S t m x v)"
proof -
  have S: "enough L B k (S f t m v p)" "meter.keeps 0 (S f t m v p)" for f t m v p
    using assms enough_mono [of L B 0 "S f t m v p" B k] by (simp_all add: isend_enough_def isend_meter_def)
  have after: "enough L B k (case (r :: bytes \<times> actorError option) of (ret, err) \<Rightarrow>
      (case err of Some e \<Rightarrow> if aeFatal e then rpanic (PAerr e) else rret ([], aeRetCode e)
       | None \<Rightarrow> rbind (chargeGasSafe E gasOnActorExec) (\<lambda>_. rret (ret, 0))))" for r
    by (intro enough_nofuel nofuel_basic)
  have ab: "enough L B k (Abortf E c)" for c :: sysExit
    by (intro enough_nofuel nofuel_basic)
  show ?thesis
  proof (cases x)
    case None
    then show ?thesis unfolding rt_Send_def by (intro enough_rget) (simp add: ab)
  next
    case (Some params)
    have "enough L B k (rbind (rget (Receiver \<circ> fst)) (\<lambda>from. rbind (S from t m v params) (\<lambda>(ret, err).
        case err of Some e \<Rightarrow> if aeFatal e then rpanic (PAerr e) else rret ([], aeRetCode e)
       | None \<Rightarrow> rbind (chargeGasSafe E gasOnActorExec) (\<lambda>_. rret (ret, 0)))))"
      by (intro enough_rget enough_rbind0 S after)
    then show ?thesis unfolding rt_Send_def Some by (intro enough_rget) (simp add: ab)
  qed
qed

lemma enough_Transaction:
  assumes "\<And>x. enough L B 0 (f x)" and "\<And>x. meter.keeps 0 (f x)"
  shows "enough L B k (state_Transaction E ob f)"
proof -
  have f: "enough L B k (f x)" for x using assms(1) by (rule enough_mono) simp
  have rest: "enough L B k (case (r :: bytes option \<times> rval) of (o2, captured) \<Rightarrow>
     rbind (rmod (\<lambda>rt. rt\<lparr>allowInternal := True\<rparr>)) (\<lambda>_.
     rbind (rt_Put E o2) (\<lambda>c. rbind (stateCommit E h c) (\<lambda>_. rret captured))))" for r h
    by (intro enough_nofuel nofuel_basic nofuel_ops)
  have b: "enough L B k (rbind (f x) (\<lambda>(o2, captured).
     rbind (rmod (\<lambda>rt. rt\<lparr>allowInternal := True\<rparr>)) (\<lambda>_.
     rbind (rt_Put E o2) (\<lambda>c. rbind (stateCommit E h c) (\<lambda>_. rret captured)))))" for x h
    by (rule enough_rbind0 [OF f assms(2) rest])
  have s: "enough L B k (case (z :: sterr + Actor) of Inl _ \<Rightarrow> Abortf E SysErrorIllegalActor
      | Inr act \<Rightarrow> rbind (rt_Get E (actHead act) d) (\<lambda>o1.
          rbind (rmod (\<lambda>rt. rt\<lparr>allowInternal := False\<rparr>)) (\<lambda>_. rbind (f o1) (\<lambda>(o2, captured).
     rbind (rmod (\<lambda>rt. rt\<lparr>allowInternal := True\<rparr>)) (\<lambda>_.
     rbind (rt_Put E o2) (\<lambda>c. rbind (stateCommit E (actHead act) c) (\<lambda>_. rret captured)))))))" for z d
  proof (cases z)
    case (Inl e)
    then show ?thesis by (simp add: enough_nofuel nofuel_Abortf)
  next
    case (Inr act)
    show ?thesis unfolding Inr sum.case
      by (rule enough_op [OF nofuel_store(2) keeps_meter_store(3)], rule enough_op [OF nofuel_rmod keeps_meter_rmods(2)], rule b)
  qed
  show ?thesis
  proof (cases ob)
    case None
    then show ?thesis by (simp add: state_Transaction_def enough_nofuel nofuel_Abortf)
  next
    case (Some d)
    show ?thesis unfolding state_Transaction_def Some option.case
      by (rule enough_rget, rule enough_op [OF nofuel_rtree keeps_meter_tree], rule s)
  qed
qed

lemma enough_run_prog:
  assumes "code_gas_ok E" and "isend_meter S" and "isend_enough L B S"
  shows "prog_gas_ok p d \<Longrightarrow> enough L B (allowance d) (run_prog E S p)"
proof (induction p arbitrary: d)
  case (DeleteActorP a p)
  then have p: "enough L B 0 (run_prog E S p)" using DeleteActorP.IH [of False] by (simp add: allowance_def)
  have "enough L B (76000 + 0) (run_prog E S (DeleteActorP a p))" unfolding run_prog.simps
    by (rule enough_rbind [OF enough_nofuel [OF nofuel_lookups(8)] keeps_meter_DeleteActor p])
  with DeleteActorP.prems show ?case by (simp add: allowance_def)
next
  case (StateTransactionP ob f k)
  then have f: "enough L B 0 (run_prog E S (f x))" "meter.keeps 0 (run_prog E S (f x))"
      "ends (\<lambda>(obj, r). size_ok obj) (run_prog E S (f x))" for x
    using StateTransactionP.IH(1) [of "f x" False] keeps_meter_run_prog [OF assms(1,2), of "f x" False]
      run_prog_size [of "f x" False] by (auto simp: allowance_def)
  have k: "enough L B (allowance d) (run_prog E S (k r))" for r
    using StateTransactionP.IH(2) [of "k r" d] StateTransactionP.prems by simp
  show ?case unfolding run_prog.simps
    by (rule enough_rbind0 [OF enough_Transaction [OF f(1,2)] keeps_meter_Transaction [OF f(2,3)] k])
next
  case (SendP t m x v k)
  have k: "enough L B (allowance d) (run_prog E S (k r c))" for r c
    using SendP.IH [of "k r" "k r c" d] SendP.prems by simp
  then have "enough L B (allowance d) (case rc of (r, c) \<Rightarrow> run_prog E S (k r c))" for rc by (cases rc) simp
  from enough_rbind0 [OF enough_rt_Send [OF assms(3,2)] keeps_meter_rt_Send [OF assms(2)] this]
  show ?case unfolding run_prog.simps .
qed (use assms in \<open>auto intro!: enough_op enough_rret enough_aerr enough_other nofuel_ops keeps_meter_ops\<close>)

lemma enough_shimCall: "enough L B k m \<Longrightarrow> enough L B k (shimCall E m)"
  by (auto simp: enough_def shimCall_def split: prod.splits sum.splits panic.splits) (metis fst_conv)+

lemma enough_VM_Invoke:
  assumes "code_gas_ok E" and "isend_meter S" and "isend_enough L B S"
  shows "enough L B 76000 (VM_Invoke E S act m ps)"
proof -
  have e: "enough L B 76000 (transform_export x E S ps)"
    if "exportsOf E c = Some exps" "x \<in> set exps" for x ps c exps
  proof (cases x)
    case None
    then show ?thesis by (simp add: transform_export_def enough_nofuel nofuel_other)
  next
    case (Some meth)
    have "enough L B 76000 (run_prog E S (code msg h))" if "meth ps = Inr code" for code msg h
    proof -
      have "prog_gas_ok (code msg h) True"
        using assms(1) Some that \<open>exportsOf E c = Some exps\<close> \<open>x \<in> set exps\<close> unfolding code_gas_ok_def by blast
      from enough_run_prog [OF assms this] show ?thesis by (simp add: allowance_def)
    qed
    then show ?thesis unfolding transform_export_def Some option.case
      by (cases "meth ps") (auto intro!: enough_rret enough_shimCall enough_rget)
  qed
  have i: "enough L B 76000 (Invoker_Invoke E S c m ps)" for c
    using e [of c] by (auto simp: Invoker_Invoke_def transform_def split: option.split intro: enough_nofuel nofuel_rret)
  have "fst (VM_Invoke E S act m ps s) = Inl PFuel \<Longrightarrow> fst (Invoker_Invoke E S (actCode act) m ps s) = Inl PFuel" for s
    by (auto simp: VM_Invoke_def rbind_def rret_def split: prod.splits sum.splits option.splits)
  with i [of "actCode act"] show ?thesis unfolding enough_def by blast
qed

text \<open>Entering a method or creating an account pays for one more level.\<close>

lemma OnMethodInvocation_min: "94126 \<le> Total (OnMethodInvocation price0 v m)"
  by (simp add: OnMethodInvocation_def price0_def MethodSend_def i64_def)

lemma enough_TryCreate:
  assumes "isend_meter S" and "isend_enough L (B + 18126) S"
  shows "enough L B 0 (TryCreateAccountActor E S a)"
proof -
  have S: "enough L B 18126 (S f t m v p)" "meter.keeps 0 (S f t m v p)" for f t m v p
    using assms enough_mono [of L "B + 18126" 0 "S f t m v p" B 18126] by (simp_all add: isend_enough_def isend_meter_def)
  have fin: "enough L B 18126 (case (z :: bytes \<times> actorError option) of (_, aerr) \<Rightarrow>
      (case aerr of Some e \<Rightarrow> rret (Inl e) | None \<Rightarrow> rbind (rtree (\<lambda>st. GetActor (tenv E) st addrID)) (\<lambda>r. case r of
       Inl _ \<Rightarrow> rret (Inl Fatalf) | Inr act \<Rightarrow> rret (Inr act))))" for z addrID
    by (intro enough_nofuel nofuel_basic)
  have call: "enough L B 18126 (case makeActor E a of
       Inl e \<Rightarrow> rret (Inl e)
     | Inr act \<Rightarrow>
     rbind (rtree (\<lambda>st. SetActor (tenv E) st addrID act)) (\<lambda>r. case r of
       Inl _ \<Rightarrow> rret (Inl Fatalf)
     | Inr _ \<Rightarrow> (case marshalAddress E a of
       None \<Rightarrow> rret (Inl Fatalf)
     | Some p \<Rightarrow>
     rbind (S (SystemActorAddr E) addrID (MethodsAccountConstructor E) 0 p) (\<lambda>(_, aerr). case aerr of
       Some e \<Rightarrow> rret (Inl e)
     | None \<Rightarrow>
     rbind (rtree (\<lambda>st. GetActor (tenv E) st addrID)) (\<lambda>r. case r of
       Inl _ \<Rightarrow> rret (Inl Fatalf)
     | Inr act \<Rightarrow> rret (Inr act))))))" for addrID
    by (auto split: sum.split option.split intro!: enough_op [OF nofuel_rtree keeps_meter_tree] enough_rret
        enough_rbind0 [OF S] fin)
  show ?thesis unfolding TryCreateAccountActor_def
    by (rule enough_rget, unfold PricelistByEpoch_prices option.case, rule enough_paid [where k = 18126])
      (simp add: price0_charges, simp add: enough_rret, unfold option.case,
        rule enough_op [OF nofuel_rtree keeps_meter_tree], rule enough_sum [OF enough_rret call])
qed

lemma enough_send_rest:
  assumes "code_gas_ok E" and "isend_meter S" and "isend_enough L (B + 18126) S"
  shows "enough L B 0 (send_rest E S msg act)"
proof -
  have v: "enough L B 94126 (VM_Invoke E S act m ps)" for m ps
    by (rule enough_mono [OF enough_VM_Invoke [OF assms]]) simp
  have i: "enough L B 94126 (if msgMethod msg \<noteq> 0
      then rbind (chargeGasSafe E gasOnActorExec) (\<lambda>_. VM_Invoke E S act (msgMethod msg) (msgParams msg))
      else rret ([], None))"
    by (auto intro!: enough_op [OF nofuel_chargeGasSafe keeps_meter_exec(1)] v enough_rret)
  have t: "nofuel (if bigOf (msgValue msg) = 0 then rret None
      else rtree (\<lambda>st. transfer E st (msgFrom msg) (msgTo msg) (bigOf (msgValue msg))))"
    "meter.keeps 0 (if bigOf (msgValue msg) = 0 then rret None
      else rtree (\<lambda>st. transfer E st (msgFrom msg) (msgTo msg) (bigOf (msgValue msg))))"
    by (intro nofuel_basic, intro meter.keeps_if meter.keeps_rret keeps_meter_tree)
  let ?A = "rbind (if bigOf (msgValue msg) = 0 then rret None
      else rtree (\<lambda>st. transfer E st (msgFrom msg) (msgTo msg) (bigOf (msgValue msg)))) (\<lambda>err.
         case err of
           Some _ \<Rightarrow> rret ([], Wrap err)
         | None \<Rightarrow>
           if msgMethod msg \<noteq> 0 then
             rbind (chargeGasSafe E gasOnActorExec) (\<lambda>_. VM_Invoke E S act (msgMethod msg) (msgParams msg))
           else rret ([], None))"
  have "enough L B 94126 (case err of Some _ \<Rightarrow> rret ([], Wrap err)
         | None \<Rightarrow>
           if msgMethod msg \<noteq> 0 then
             rbind (chargeGasSafe E gasOnActorExec) (\<lambda>_. VM_Invoke E S act (msgMethod msg) (msgParams msg))
           else rret ([], None))" for err
    using i by (cases err) (simp_all add: enough_nofuel nofuel_rret)
  from enough_op [OF t this] have A: "enough L B 94126 ?A" .
  have "fst (rbind ?A (\<lambda>res. rbind (chargeGasSafe E (newGasCharge ''OnMethodInvocationDone'' 0 0)) (\<lambda>_. rret res)) s) = Inl PFuel
      \<Longrightarrow> fst (?A s) = Inl PFuel" for s
    unfolding rbind_def [of ?A]
    by (cases "?A s"; cases "fst (?A s)") (auto simp: rbind_def [of "chargeGasSafe _ _"] chargeGasSafe_def rret_def split: prod.splits)
  with A have n: "enough L B 94126 (rbind ?A (\<lambda>res.
      rbind (chargeGasSafe E (newGasCharge ''OnMethodInvocationDone'' 0 0)) (\<lambda>_. rret res)))"
    unfolding enough_def by blast
  show ?thesis unfolding send_rest_def
    by (rule enough_pricelist, rule enough_paid [where k = 94126])
      (simp add: OnMethodInvocation_min, simp add: enough_nofuel nofuel_rret, unfold option.case, rule n)
qed

lemma enough_send_body:
  assumes "code_gas_ok E" and "isend_meter S" and "isend_enough L (B + 18126) S"
  shows "enough L B 0 (send_body E S msg)"
proof -
  note r = enough_send_rest [OF assms] and t = enough_TryCreate [OF assms(2,3)]
  have "enough L B 0 (rbind (TryCreateAccountActor E S (msgTo msg)) (\<lambda>r. case r of
      Inl aerr \<Rightarrow> rret ([], Wrap (Some aerr)) | Inr a \<Rightarrow> send_rest E S msg a))"
    by (rule enough_rbind0 [OF t keeps_meter_TryCreate [OF assms(2)]]) (auto split: sum.split intro: enough_rret r)
  then have "enough L B 0 (case (z :: sterr + Actor) of Inr toActor \<Rightarrow> send_rest E S msg toActor
     | Inl e \<Rightarrow>
         if isNotFound e then
           rbind (TryCreateAccountActor E S (msgTo msg)) (\<lambda>r. case r of
             Inl aerr \<Rightarrow> rret ([], Wrap (Some aerr))
           | Inr a \<Rightarrow> send_rest E S msg a)
         else rret ([], Escalate (Some OtherErr)))" for z
    by (auto split: sum.split intro: enough_rret r)
  then show ?thesis unfolding send_body_def
    by (rule enough_op [OF nofuel_chargeGasSafe keeps_meter_exec(3) enough_op [OF nofuel_rtree keeps_meter_tree]])
qed

lemma internalSend_enough:
  assumes "\<And>msg p vm. meter_inv B p \<Longrightarrow> gasAvailable p = L \<Longrightarrow> msgGasLimit msg = L \<Longrightarrow>
    fst (sendf msg (Some p) None vm) \<noteq> Inl PFuel"
  shows "isend_enough L B (internalSend sendf)"
  unfolding isend_enough_def enough_def
proof (intro allI impI)
  fix f t m v p and s :: "Runtime \<times> VM"
  assume i: "meter_inv (B + 0) (fst s)" "gasAvailable (fst s) = L"
  define msg where "msg = \<lparr>msgVersion = 0, msgTo = t, msgFrom = f, msgNonce = 0, msgValue = Some v,
    msgGasPrice = None, msgGasLimit = gasAvailable (fst s), msgMethod = m, msgParams = p\<rparr>"
  obtain res sub vm1 where r: "sendf msg (Some (fst s)) None ((snd s)\<lparr>cstate := Snapshot (cstate (snd s))\<rparr>) = (res, sub, vm1)"
    by (cases "sendf msg (Some (fst s)) None ((snd s)\<lparr>cstate := Snapshot (cstate (snd s))\<rparr>)")
  have "res \<noteq> Inl PFuel"
    using assms [of "fst s" msg "(snd s)\<lparr>cstate := Snapshot (cstate (snd s))\<rparr>"] i r by (simp add: msg_def)
  then show "fst (internalSend sendf f t m v p s) \<noteq> Inl PFuel"
    by (simp add: internalSend_def Let_def msg_def [symmetric] r split: option.split)
qed

text \<open>A message with limit \<open>L\<close> never has more than \<open>L / 18126 + 1\<close> calls on its stack.\<close>

lemma send_enough:
  assumes "code_gas_ok E"
  shows "0 \<le> msgGasLimit msg \<Longrightarrow> msgGasLimit msg < 2 ^ 62 \<Longrightarrow> (case g of None \<Rightarrow> True | Some g \<Rightarrow> 0 \<le> Total g) \<Longrightarrow>
    (case parent of None \<Rightarrow> b = 0 | Some p \<Rightarrow> meter_inv b p \<and> gasAvailable p = msgGasLimit msg) \<Longrightarrow>
    msgGasLimit msg < int (b + 18126 * n) \<Longrightarrow> fst (send E (Suc n) msg parent g vm) \<noteq> Inl PFuel"
proof (induction n arbitrary: msg parent g vm b)
  case 0
  then show ?case by (auto simp: meter_inv_def split: option.splits)
next
  case (Suc n)
  let ?L = "msgGasLimit msg" and ?S = "internalSend (send E (Suc n))"
  have S: "isend_enough ?L (b + 18126) ?S"
    by (rule internalSend_enough, rule Suc.IH [where b = "b + 18126"]) (use Suc.prems in \<open>auto simp: meter_inv_def\<close>)
  have m: "isend_meter ?S" by (rule internalSend_meter [OF send_keeps_meter [OF assms]])
  let ?b = "rbind (case g of None \<Rightarrow> rret None | Some g \<Rightarrow> chargeGasSafe E g) (\<lambda>err.
    case err of Some _ \<Rightarrow> rret ([], Wrap err) | None \<Rightarrow> send_body E ?S msg)"
  have g: "nofuel (case g of None \<Rightarrow> rret None | Some g \<Rightarrow> chargeGasSafe E g)"
      "meter.keeps 0 (case g of None \<Rightarrow> rret None | Some g \<Rightarrow> chargeGasSafe E g)"
    using Suc.prems(3) by (auto split: option.split intro: nofuel_basic meter.keeps_rret keeps_meter_free)
  have "enough ?L b 0 (case err of Some _ \<Rightarrow> rret ([], Wrap err) | None \<Rightarrow> send_body E ?S msg)" for err
    using enough_send_body [OF assms m S, of msg] by (cases err) (simp_all only: option.case enough_rret)
  then have body: "enough ?L b 0 ?b" by (rule enough_op [OF g])
  obtain o1 on gu nac where p: "(case parent of None \<Rightarrow> (msgFrom msg, msgNonce msg, 0, 0)
      | Some p \<Rightarrow> (origin p, originNonce p, gasUsed p, numActorsCreated p)) = (o1, on, gu, nac)"
    by (cases "case parent of None \<Rightarrow> (msgFrom msg, msgNonce msg, 0, 0)
      | Some p \<Rightarrow> (origin p, originNonce p, gasUsed p, numActorsCreated p)")
  obtain mr vm1 where mk: "makeRuntime E vm msg o1 on gu nac = (mr, vm1)" by fastforce
  show ?case
  proof (cases mr)
    case (Inl q)
    have "nofuel (rt_ResolveAddress E a)" for a by (rule nofuel_lookups)
    with mk Inl have "q \<noteq> PFuel"
      by (auto simp: makeRuntime_def nofuel_def Let_def split: prod.splits sum.splits option.splits) (metis fst_conv)
    then show ?thesis unfolding send.simps(2) [of E "Suc n"] Let_def p prod.case mk Inl sum.case by simp
  next
    case (Inr rt)
    note mr = makeRuntime_InrD [OF mk [unfolded Inr]]
    have "meter_inv b rt"
      using mr p Suc.prems(1,2,4) by (cases parent) (simp_all add: meter_inv_def)
    then have "fst (?b (rt, vm1)) \<noteq> Inl PFuel"
      using body [unfolded enough_def, rule_format, of "(rt, vm1)"] mr by (simp only: fst_conv add_0_right simp_thms)
    moreover obtain res rt2 vm2 where r: "?b (rt, vm1) = (res, rt2, vm2)" by (cases "?b (rt, vm1)")
    ultimately have "res \<noteq> Inl PFuel" unfolding r by simp
    then show ?thesis unfolding send.simps(2) [of E "Suc n"] Let_def p prod.case mk Inr sum.case r by simp
  qed
qed

end
