(* ===== verification/VM_Apply.thy ===== *)
theory VM_Apply
  imports VM_Fuel
begin

text \<open>
  Applying messages: properties of \<open>ApplyMessage\<close> and of the operations it is made of, from the
  lemmas on funds and on the gas meter.
\<close>

section \<open>Gas funds\<close>

lemma transferFromGasHolder_inv:
  assumes "env_ok E" and i: "tree_inv E st" and t: "transferFromGasHolder E st a gh amt = (r, st')"
  shows "r = Inl e \<Longrightarrow> same_view E st st'"
    and "r = Inr gh' \<Longrightarrow> \<exists>b act. resolves_to E st' a b \<and> view st b = Some act \<and> 0 \<le> amt \<and> amt \<le> actBalance gh \<and>
      gh' = gh\<lparr>actBalance := actBalance gh - amt\<rparr> \<and>
      view st' = (view st)(b \<mapsto> act\<lparr>actBalance := actBalance act + amt\<rparr>) \<and> tree_inv E st' \<and> same_below st st'"
proof -
  let ?f = "\<lambda>a. case deductFunds gh amt of Inl e \<Rightarrow> Inl e | Inr gh' \<Rightarrow> Inr (depositFunds a amt, gh')"
  have m: "0 \<le> amt \<Longrightarrow> MutateActor (tenv E) st a ?f = (r, st')"
    using t by (simp add: transferFromGasHolder_def)
  have pos: "0 \<le> amt \<Longrightarrow> mut_nonneg ?f"
    by (auto simp: mut_nonneg_def depositFunds_def split: sum.splits)
  show "r = Inl e \<Longrightarrow> same_view E st st'"
  proof (cases "amt < 0")
    case True
    with t same_view_refl [OF i] show ?thesis by (simp add: transferFromGasHolder_def)
  next
    case False
    assume "r = Inl e"
    with MutateActor_inv(1) [OF assms(1) i m pos] False show ?thesis by simp
  qed
  assume r: "r = Inr gh'"
  with t have a: "0 \<le> amt" by (auto simp: transferFromGasHolder_def split: if_splits)
  from MutateActor_inv(2) [OF assms(1) i m [OF a] pos [OF a] r] obtain b act act' where
    b: "resolves_to E st' a b" "view st b = Some act" "?f act = Inr (act', gh')"
      "view st' = (view st)(b \<mapsto> act')" "tree_inv E st'" "same_below st st'" by blast
  from b(3) have "amt \<le> actBalance gh" "gh' = gh\<lparr>actBalance := actBalance gh - amt\<rparr>" "act' = depositFunds act amt"
    by (auto simp: deductFunds_def split: if_splits)
  with a b show "\<exists>b act. resolves_to E st' a b \<and> view st b = Some act \<and> 0 \<le> amt \<and> amt \<le> actBalance gh \<and>
      gh' = gh\<lparr>actBalance := actBalance gh - amt\<rparr> \<and>
      view st' = (view st)(b \<mapsto> act\<lparr>actBalance := actBalance act + amt\<rparr>) \<and> tree_inv E st' \<and> same_below st st'"
    by (auto simp: depositFunds_def)
qed

lemma transferToGasHolder_inv:
  assumes "env_ok E" and i: "tree_inv E st" and t: "transferToGasHolder E st a gh amt = (r, st')"
  shows "r = Inl e \<Longrightarrow> same_view E st st'"
    and "r = Inr gh' \<Longrightarrow> \<exists>b act. resolves_to E st' a b \<and> view st b = Some act \<and> 0 \<le> amt \<and> amt \<le> actBalance act \<and>
      gh' = gh\<lparr>actBalance := actBalance gh + amt\<rparr> \<and>
      view st' = (view st)(b \<mapsto> act\<lparr>actBalance := actBalance act - amt\<rparr>) \<and> tree_inv E st' \<and> same_below st st'"
proof -
  let ?f = "\<lambda>a. case deductFunds a amt of Inl e \<Rightarrow> Inl e | Inr a' \<Rightarrow> Inr (a', depositFunds gh amt)"
  have m: "0 \<le> amt \<Longrightarrow> MutateActor (tenv E) st a ?f = (r, st')"
    using t by (simp add: transferToGasHolder_def)
  have pos: "0 \<le> amt \<Longrightarrow> mut_nonneg ?f"
    by (auto simp: mut_nonneg_def deductFunds_def)
  show "r = Inl e \<Longrightarrow> same_view E st st'"
  proof (cases "amt < 0")
    case True
    with t same_view_refl [OF i] show ?thesis by (simp add: transferToGasHolder_def)
  next
    case False
    assume "r = Inl e"
    with MutateActor_inv(1) [OF assms(1) i m pos] False show ?thesis by simp
  qed
  assume r: "r = Inr gh'"
  with t have a: "0 \<le> amt" by (auto simp: transferToGasHolder_def split: if_splits)
  from MutateActor_inv(2) [OF assms(1) i m [OF a] pos [OF a] r] obtain b act act' where
    b: "resolves_to E st' a b" "view st b = Some act" "?f act = Inr (act', gh')"
      "view st' = (view st)(b \<mapsto> act')" "tree_inv E st'" "same_below st st'" by blast
  from b(3) have "amt \<le> actBalance act" "gh' = depositFunds gh amt" "act' = act\<lparr>actBalance := actBalance act - amt\<rparr>"
    by (auto simp: deductFunds_def split: if_splits)
  with a b show "\<exists>b act. resolves_to E st' a b \<and> view st b = Some act \<and> 0 \<le> amt \<and> amt \<le> actBalance act \<and>
      gh' = gh\<lparr>actBalance := actBalance gh + amt\<rparr> \<and>
      view st' = (view st)(b \<mapsto> act\<lparr>actBalance := actBalance act - amt\<rparr>) \<and> tree_inv E st' \<and> same_below st st'"
    by (auto simp: depositFunds_def)
qed

lemma incrementNonce_inv:
  assumes "env_ok E" and i: "tree_inv E st" and t: "incrementNonce E st a = (r, st')"
  shows "r = Inl e \<Longrightarrow> same_view E st st'"
    and "r = Inr x \<Longrightarrow> \<exists>b act. resolves_to E st' a b \<and> view st b = Some act \<and>
      view st' = (view st)(b \<mapsto> act\<lparr>actNonce := actNonce act + 1\<rparr>) \<and> tree_inv E st' \<and> same_below st st'"
proof -
  note m = t [unfolded incrementNonce_def]
  have pos: "mut_nonneg (\<lambda>a. Inr (a\<lparr>actNonce := actNonce a + 1\<rparr>, ()))" by (auto simp: mut_nonneg_def)
  show "r = Inl e \<Longrightarrow> same_view E st st'" using MutateActor_inv(1) [OF assms(1) i m pos] by simp
  show "\<exists>b act. resolves_to E st' a b \<and> view st b = Some act \<and>
      view st' = (view st)(b \<mapsto> act\<lparr>actNonce := actNonce act + 1\<rparr>) \<and> tree_inv E st' \<and> same_below st st'" if "r = Inr x"
    using MutateActor_inv(2) [OF assms(1) i m pos that] by auto
qed

text \<open>A transfer from the gas holder moves funds from it into the tree.\<close>

lemma transferFromGasHolder_funds:
  assumes "env_ok E" and "tree_inv E st" and "transferFromGasHolder E st a gh amt = (r, st')" and "0 \<le> actBalance gh"
  shows "tree_inv E st' \<and> same_below st st' \<and>
    (case r of Inl _ \<Rightarrow> total_supply (view st') = total_supply (view st)
     | Inr gh' \<Rightarrow> 0 \<le> actBalance gh' \<and> total_supply (view st') + actBalance gh' = total_supply (view st) + actBalance gh)"
proof (cases r)
  case (Inl e)
  with transferFromGasHolder_inv(1) [OF assms(1-3) Inl] show ?thesis by (simp add: same_view_def)
next
  case (Inr gh')
  from transferFromGasHolder_inv(2) [OF assms(1-3) Inr] tree_inv_fin [OF assms(2)] Inr show ?thesis
    by (auto simp: supply_upd balance_def)
qed

section \<open>Settlement\<close>

lemma settle_gas_funds:
  assumes "env_ok E" and i: "tree_inv E st" and t: "settle_gas E msg gh gasU st = (r, st')" and "0 \<le> actBalance gh"
  shows "tree_inv E st' \<and> same_below st st' \<and> total_supply (view st') \<le> total_supply (view st) + actBalance gh"
proof -
  let ?refund = "NewInt (i64 (msgGasLimit msg - gasU)) * bigOf (msgGasPrice msg)"
  obtain r1 st1 where t1: "transferFromGasHolder E st (msgFrom msg) gh ?refund = (r1, st1)" by fastforce
  note f1 = transferFromGasHolder_funds [OF assms(1) i t1 assms(4)]
  show ?thesis
  proof (cases r1)
    case (Inl e)
    with t t1 f1 assms(4) show ?thesis by (auto simp: settle_gas_def)
  next
    case (Inr gh1)
    with f1 have i1: "tree_inv E st1" and g1: "0 \<le> actBalance gh1" by auto
    obtain r2 st2 where t2: "transferFromGasHolder E st1 (RewardActorAddr E) gh1 (bigOf (msgGasPrice msg) * NewInt gasU) = (r2, st2)"
      by fastforce
    note f2 = transferFromGasHolder_funds [OF assms(1) i1 t2 g1]
    have "st' = st2" using t t1 t2 Inr by (auto simp: settle_gas_def split: sum.splits if_splits)
    with f1 f2 Inr show ?thesis by (auto split: sum.splits intro: same_below_trans)
  qed
qed

lemma settle_funds:
  assumes "env_ok E" and i0: "tree_inv E st0" and i: "tree_inv E st" and b: "same_below (Snapshot st0) st"
    and le: "total_supply (view st) \<le> total_supply (view st0)" and gh: "0 \<le> actBalance gh"
    and s: "settle E msg gh ret err rt st = (r, st')"
  shows "tree_inv E st' \<and> same_below (Snapshot st0) st' \<and> total_supply (view st') \<le> total_supply (view st0) + actBalance gh"
proof -
  have "st' = st \<or> (\<exists>g r2 st1. (st1 = st \<or> st1 = Revert st) \<and> settle_gas E msg gh g st1 = (r2, st'))"
    using s unfolding settle_def Let_def by (auto split: if_splits prod.splits sum.splits)
  then show ?thesis
  proof
    assume "st' = st"
    then show ?thesis using i b le gh by simp
  next
    assume "\<exists>g r2 st1. (st1 = st \<or> st1 = Revert st) \<and> settle_gas E msg gh g st1 = (r2, st')"
    then obtain g r2 st1 where g: "st1 = st \<or> st1 = Revert st" "settle_gas E msg gh g st1 = (r2, st')" by blast
    from g(1) Revert_inv [OF i0 i b] Snapshot_inv [OF i0] i b le
    have "tree_inv E st1" "same_below (Snapshot st0) st1" "total_supply (view st1) \<le> total_supply (view st0)"
      by (auto simp: same_below_def)
    with settle_gas_funds [OF assms(1) _ g(2) gh] show ?thesis by (auto intro: same_below_trans)
  qed
qed

lemma ApplyMessage_send_funds:
  assumes "env_ok E" and i: "tree_inv E (cstate vm)" and gh: "0 \<le> actBalance gh"
    and a: "ApplyMessage_send E fuel vm msg g gh = (r, vm')"
  shows "tree_inv E (cstate vm') \<and> same_below (cstate vm) (cstate vm') \<and>
    total_supply (view (cstate vm')) \<le> total_supply (view (cstate vm)) + actBalance gh"
proof -
  let ?st = "cstate vm"
  obtain res ort vm1 where s: "send E fuel msg None (Some g) (vm\<lparr>cstate := Snapshot ?st\<rparr>) = (res, ort, vm1)"
    by (cases "send E fuel msg None (Some g) (vm\<lparr>cstate := Snapshot ?st\<rparr>)")
  note sn = Snapshot_inv [OF i]
  have "funds_le E (Snapshot ?st) (cstate vm1)"
    using send_keeps_funds [OF assms(1), of fuel, unfolded send_funds_def, rule_format, of "vm\<lparr>cstate := Snapshot ?st\<rparr>" msg None "Some g"]
      sn(1) s by simp
  then have f: "tree_inv E (cstate vm1)" "same_below (Snapshot ?st) (cstate vm1)"
      "total_supply (view (cstate vm1)) \<le> total_supply (view ?st)" by (simp_all add: funds_le_def sn(2))
  define p where "p = (case (res, ort) of (Inl p, _) \<Rightarrow> (Inl (ApplyPanic p), cstate vm1)
    | (Inr (ret, actorErr), Some rt) \<Rightarrow> settle E msg gh ret actorErr rt (cstate vm1)
    | (Inr _, None) \<Rightarrow> (Inl (ApplyPanic POther), cstate vm1))"
  have p: "tree_inv E (snd p) \<and> same_below (Snapshot ?st) (snd p) \<and>
      total_supply (view (snd p)) \<le> total_supply (view ?st) + actBalance gh"
  proof (cases "\<exists>ret err rt. res = Inr (ret, err) \<and> ort = Some rt")
    case True
    then obtain ret err rt where "res = Inr (ret, err)" "ort = Some rt" by blast
    then show ?thesis using settle_funds [OF assms(1) i f(1,2,3) gh] by (cases p) (simp add: p_def)
  next
    case False
    then show ?thesis using f gh by (auto simp: p_def split: sum.splits option.splits)
  qed
  from ClearSnapshot_inv [OF i, of "snd p"] p obtain st2 where
    c: "ClearSnapshot (snd p) = Some st2" "tree_inv E st2" "view st2 = view (snd p)" "same_below ?st st2" by blast
  then have "vm' = vm1\<lparr>cstate := st2\<rparr>"
    using a unfolding p_def by (auto simp: ApplyMessage_send_def Let_def s split: prod.splits)
  with c p show ?thesis by simp
qed

lemma ApplyMessage_funds:
  assumes "env_ok E" and i: "tree_inv E (cstate vm)" and a: "ApplyMessage E fuel vm msg len = (r, vm')"
  shows "tree_inv E (cstate vm') \<and> same_below (cstate vm) (cstate vm') \<and>
    total_supply (view (cstate vm')) \<le> total_supply (view (cstate vm))"
proof -
  let ?st = "cstate vm" and ?cost = "NewInt (msgGasLimit msg) * bigOf (msgGasPrice msg)"
  obtain rg st1 where g: "GetActor (tenv E) ?st (msgFrom msg) = (rg, st1)" by fastforce
  note s1 = GetActor_inv(1) [OF assms(1) i g]
  have i1: "tree_inv E st1" using s1 by (simp add: same_view_def)
  obtain rh st2 where h: "transferToGasHolder E st1 (msgFrom msg) zeroActor ?cost = (rh, st2)" by fastforce
  note s2 = transferToGasHolder_inv [OF assms(1) i1 h]
  obtain rn st3 where n: "incrementNonce E st2 (msgFrom msg) = (rn, st3)" by fastforce
  have keep: ?thesis if "same_view E ?st (cstate vm')" using that by (simp add: same_view_def)
  show ?thesis
  proof (cases "cstate vm' = ?st \<or> cstate vm' = st1 \<or> (\<exists>e. rh = Inl e \<and> cstate vm' = st2)")
    case True
    then show ?thesis using keep same_view_refl [OF i] s1 s2(1) same_view_trans by metis
  next
    case False
    with a g h n obtain gh where rh: "rh = Inr gh" by (auto simp: ApplyMessage_def Let_def split: sum.splits if_splits)
    from s2(2) [OF rh] obtain b act where b: "view st1 b = Some act" "0 \<le> ?cost" "gh = zeroActor\<lparr>actBalance := ?cost\<rparr>"
      "view st2 = (view st1)(b \<mapsto> act\<lparr>actBalance := actBalance act - ?cost\<rparr>)" "tree_inv E st2" "same_below st1 st2"
      by (auto simp: zeroActor_def)
    have v2: "total_supply (view st2) = total_supply (view ?st) - ?cost"
      using b s1 by (simp add: supply_upd tree_inv_fin [OF i] balance_def same_view_def)
    note s3 = incrementNonce_inv [OF assms(1) b(5) n]
    have f3: "tree_inv E st3" "same_below ?st st3" "total_supply (view st3) = total_supply (view st2)"
      using s3 s1 b(6) tree_inv_fin [OF b(5)]
      by (cases rn; auto simp: same_view_def supply_upd balance_def intro: same_below_trans)+
    show ?thesis
    proof (cases rn)
      case (Inl e)
      then have "cstate vm' = st3" using a g h n rh False by (auto simp: ApplyMessage_def Let_def split: sum.splits if_splits)
      with f3 v2 b(2) show ?thesis by simp
    next
      case (Inr u)
      then have "ApplyMessage_send E fuel (vm\<lparr>cstate := st3\<rparr>) msg (OnChainMessage price0 len) gh = (r, vm')"
        using a g h n rh False by (auto simp: ApplyMessage_def Let_def split: sum.splits if_splits)
      from ApplyMessage_send_funds [OF assms(1) _ _ this] f3 v2 b(2,3) show ?thesis
        by (auto intro: same_below_trans)
    qed
  qed
qed

section \<open>What an address resolves to is stable\<close>

lemma ClearSnapshot_view:
  assumes "ClearSnapshot st = Some st'"
  shows "view st' = view st"
proof -
  from assms obtain ls' where m: "mergeLastLayer (layers st) = Some ls'" "st' = st\<lparr>layers := ls'\<rparr>"
    by (auto simp: ClearSnapshot_def)
  then obtain l l0 ls where "layers st = l # l0 # ls" by (cases "layers st" rule: remdups_adj.cases) auto
  with m lview_merge [of l l0 ls ls' "root st"] show ?thesis by (simp add: view_def)
qed

lemma resolves_to_fun: "resolves_to E st a b \<Longrightarrow> resolves_to E st a c \<Longrightarrow> b = c"
  by (auto simp: resolves_to_def split: if_splits)

lemma GetActor_resolves:
  assumes "tree_inv E st" and "resolves_to E st a b" and "GetActor (tenv E) st a = (r, st')"
  shows "resolves_to E st' a b"
proof (cases "a = address_Undef")
  case True
  with assms(2,3) show ?thesis by (simp add: GetActor_def)
next
  case False
  with assms(3) have "GetActorID (tenv E) st b = (r, st')"
    by (simp add: GetActor_def resolves_to_LookupID [OF assms(2)])
  from GetActorID_inv(3) [OF assms(1) this] assms(2) show ?thesis by (simp add: resolves_to_def)
qed

lemma MutateActor_resolves:
  assumes "env_ok E" and "tree_inv E st" and "resolves_to E st a b" and m: "MutateActor (tenv E) st a f = (r, st')"
  shows "resolves_to E st' a b"
proof -
  obtain rg st1 where g: "GetActor (tenv E) st a = (rg, st1)" by fastforce
  note r1 = GetActor_resolves [OF assms(2,3) g]
  have "st' = st1 \<or> (\<exists>act'. st' = st1\<lparr>layers := snaps_setActor (layers st1) b act'\<rparr>)"
    using m g SetActor_resolved [OF r1] by (auto simp: MutateActor_def split: sum.splits)
  with r1 show ?thesis by auto
qed

lemma transferFromGasHolder_resolved:
  assumes "env_ok E" and "tree_inv E st" and "resolves_to E st a b"
    and t: "transferFromGasHolder E st a gh amt = (Inr gh', st')"
  shows "\<exists>act. view st b = Some act \<and> 0 \<le> amt \<and> gh' = gh\<lparr>actBalance := actBalance gh - amt\<rparr> \<and>
    view st' = (view st)(b \<mapsto> act\<lparr>actBalance := actBalance act + amt\<rparr>) \<and> tree_inv E st' \<and> same_below st st'"
proof -
  from transferFromGasHolder_inv(2) [OF assms(1,2) t refl] obtain c act where
    c: "resolves_to E st' a c" "view st c = Some act" "0 \<le> amt" "gh' = gh\<lparr>actBalance := actBalance gh - amt\<rparr>"
      "view st' = (view st)(c \<mapsto> act\<lparr>actBalance := actBalance act + amt\<rparr>)" "tree_inv E st'" "same_below st st'" by blast
  have "resolves_to E st' a b"
    using MutateActor_resolves [OF assms(1-3)] t c(3) by (auto simp: transferFromGasHolder_def split: if_splits)
  with c(1) have "b = c" using resolves_to_fun by blast
  with c show ?thesis by auto
qed

text \<open>The settlement pays the unused gas back to the sender and the used gas to the reward actor.\<close>

lemma settle_gas_paid:
  assumes "env_ok E" and i: "tree_inv E st" and f: "resolves_to E st (msgFrom msg) f"
    and rw: "Protocol (tenv E) (RewardActorAddr E) = ProtoID" and ne: "f \<noteq> RewardActorAddr E"
    and s: "settle_gas E msg gh gasU st = (Inr u, st')"
  defines "price \<equiv> bigOf (msgGasPrice msg)"
  shows "\<exists>fa ra. view st f = Some fa \<and> view st (RewardActorAddr E) = Some ra \<and>
    view st' = (view st)(f \<mapsto> fa\<lparr>actBalance := actBalance fa + NewInt (i64 (msgGasLimit msg - gasU)) * price\<rparr>,
      RewardActorAddr E \<mapsto> ra\<lparr>actBalance := actBalance ra + price * NewInt gasU\<rparr>)"
proof -
  obtain gh1 st1 gh2 where
    t1: "transferFromGasHolder E st (msgFrom msg) gh (NewInt (i64 (msgGasLimit msg - gasU)) * price) = (Inr gh1, st1)" and
    t2: "transferFromGasHolder E st1 (RewardActorAddr E) gh1 (price * NewInt gasU) = (Inr gh2, st')"
    using s by (auto simp: settle_gas_def price_def Let_def split: prod.splits sum.splits if_splits)
  from transferFromGasHolder_resolved [OF assms(1) i f t1] obtain fa where
    fa: "view st f = Some fa" "tree_inv E st1"
      "view st1 = (view st)(f \<mapsto> fa\<lparr>actBalance := actBalance fa + NewInt (i64 (msgGasLimit msg - gasU)) * price\<rparr>)" by blast
  from transferFromGasHolder_resolved [OF assms(1) fa(2) resolves_to_id [OF rw] t2] fa ne show ?thesis by auto
qed

lemma settle_failed:
  assumes "env_ok E" and i0: "tree_inv E st0" and i: "tree_inv E st" and b: "same_below (Snapshot st0) st"
    and f: "resolves_to E st0 (msgFrom msg) f"
    and rw: "Protocol (tenv E) (RewardActorAddr E) = ProtoID" and ne: "f \<noteq> RewardActorAddr E"
    and s: "settle E msg gh ret err rt st = (Inr ar, st')" and e: "arExitCode ar \<noteq> 0"
  defines "price \<equiv> bigOf (msgGasPrice msg)"
  shows "\<exists>fa ra. view st0 f = Some fa \<and> view st0 (RewardActorAddr E) = Some ra \<and>
    view st' = (view st0)(f \<mapsto> fa\<lparr>actBalance := actBalance fa + NewInt (i64 (msgGasLimit msg - arGasUsed ar)) * price\<rparr>,
      RewardActorAddr E \<mapsto> ra\<lparr>actBalance := actBalance ra + price * NewInt (arGasUsed ar)\<rparr>)"
proof -
  have g: "settle_gas E msg gh (arGasUsed ar) (Snapshot st0) = (Inr (), st')"
    using s e Revert_inv [OF i0 i b] unfolding settle_def Let_def
    by (auto split: if_splits prod.splits sum.splits)
  have "resolves_to E (Snapshot st0) (msgFrom msg) f"
    using f by (simp add: resolves_to_def Snapshot_def addLayer_def newStateSnapLayer_def)
  from settle_gas_paid [OF assms(1) Snapshot_inv(1) [OF i0] this rw ne g] show ?thesis
    by (simp add: price_def Snapshot_inv(2) [OF i0])
qed

lemma ApplyMessage_send_failed:
  assumes "env_ok E" and i: "tree_inv E (cstate vm)"
    and f: "resolves_to E (cstate vm) (msgFrom msg) f"
    and rw: "Protocol (tenv E) (RewardActorAddr E) = ProtoID" and ne: "f \<noteq> RewardActorAddr E"
    and a: "ApplyMessage_send E fuel vm msg g gh = (Inr ar, vm')" and e: "arExitCode ar \<noteq> 0"
  defines "price \<equiv> bigOf (msgGasPrice msg)"
  shows "\<exists>fa ra. view (cstate vm) f = Some fa \<and> view (cstate vm) (RewardActorAddr E) = Some ra \<and>
    view (cstate vm') = (view (cstate vm))
      (f \<mapsto> fa\<lparr>actBalance := actBalance fa + NewInt (i64 (msgGasLimit msg - arGasUsed ar)) * price\<rparr>,
       RewardActorAddr E \<mapsto> ra\<lparr>actBalance := actBalance ra + price * NewInt (arGasUsed ar)\<rparr>)"
proof -
  let ?st = "cstate vm"
  obtain res ort vm1 where s: "send E fuel msg None (Some g) (vm\<lparr>cstate := Snapshot ?st\<rparr>) = (res, ort, vm1)"
    by (cases "send E fuel msg None (Some g) (vm\<lparr>cstate := Snapshot ?st\<rparr>)")
  note sn = Snapshot_inv [OF i]
  have "funds_le E (Snapshot ?st) (cstate vm1)"
    using send_keeps_funds [OF assms(1), of fuel, unfolded send_funds_def, rule_format, of "vm\<lparr>cstate := Snapshot ?st\<rparr>" msg None "Some g"]
      sn(1) s by simp
  then have fl: "tree_inv E (cstate vm1)" "same_below (Snapshot ?st) (cstate vm1)"
      "total_supply (view (cstate vm1)) \<le> total_supply (view ?st)" by (simp_all add: funds_le_def sn(2))
  obtain ret err rt st2 where st2: "settle E msg gh ret err rt (cstate vm1) = (Inr ar, st2)"
      "ClearSnapshot st2 = Some (cstate vm')"
    using a by (auto simp: ApplyMessage_send_def s Let_def split: sum.splits option.splits prod.splits)
  from settle_failed [OF assms(1) i fl(1,2) f rw ne st2(1) e] obtain fa ra where
    v: "view ?st f = Some fa" "view ?st (RewardActorAddr E) = Some ra"
      "view st2 = (view ?st)(f \<mapsto> fa\<lparr>actBalance := actBalance fa + NewInt (i64 (msgGasLimit msg - arGasUsed ar)) * price\<rparr>,
       RewardActorAddr E \<mapsto> ra\<lparr>actBalance := actBalance ra + price * NewInt (arGasUsed ar)\<rparr>)"
    unfolding price_def by blast
  with ClearSnapshot_view [OF st2(2)] show ?thesis by auto
qed

section \<open>Gas of a message\<close>

text \<open>A failed send returns no value.\<close>

definition err_empty :: "bytes \<times> actorError option \<Rightarrow> bool" where
  "err_empty r \<longleftrightarrow> snd r \<noteq> None \<longrightarrow> fst r = []"

lemma ends_option: "ends Q a \<Longrightarrow> (\<And>x. ends Q (b x)) \<Longrightarrow> ends Q (case z of None \<Rightarrow> a | Some x \<Rightarrow> b x)"
  by (cases z) auto

lemma ends_VM_Invoke: "ends err_empty (VM_Invoke E S act m ps)"
  unfolding VM_Invoke_def
  by (rule ends_rbind) (auto simp: err_empty_def split: prod.split option.split intro: ends_rret)

lemma ends_send_rest: "ends err_empty (send_rest E S msg act)"
proof -
  have k: "ends err_empty (rbind m (\<lambda>res. rbind (chargeGasSafe E g) (\<lambda>_. rret res)))" if "ends err_empty m" for m g
    using that by (auto simp: ends_def rbind_def chargeGasSafe_def rret_def split: prod.splits sum.splits) (metis fst_conv)
  show ?thesis unfolding send_rest_def
    by (intro ends_rbind ends_option k) (auto simp: err_empty_def intro!: ends_rret ends_rbind ends_VM_Invoke)
qed

lemma ends_send_body: "ends err_empty (send_body E S msg)"
  unfolding send_body_def
  by (intro ends_rbind) (auto simp: err_empty_def split: sum.split intro!: ends_rret ends_rbind ends_send_rest)

lemma send_err_empty: "fst (send E n msg parent g vm) = Inr r \<Longrightarrow> err_empty r"
proof (cases n)
  case (Suc k)
  let ?b = "rbind (case g of None \<Rightarrow> rret None | Some g \<Rightarrow> chargeGasSafe E g) (\<lambda>err.
    case err of Some _ \<Rightarrow> rret ([], Wrap err) | None \<Rightarrow> send_body E (internalSend (send E k)) msg)"
  have b: "ends err_empty ?b"
    by (intro ends_rbind ends_option ends_send_body) (simp add: ends_rret err_empty_def)
  assume s: "fst (send E n msg parent g vm) = Inr r"
  obtain o1 on gu nac where p: "(case parent of None \<Rightarrow> (msgFrom msg, msgNonce msg, 0, 0)
      | Some p \<Rightarrow> (origin p, originNonce p, gasUsed p, numActorsCreated p)) = (o1, on, gu, nac)"
    by (cases "case parent of None \<Rightarrow> (msgFrom msg, msgNonce msg, 0, 0)
      | Some p \<Rightarrow> (origin p, originNonce p, gasUsed p, numActorsCreated p)")
  obtain mr vm1 where mk: "makeRuntime E vm msg o1 on gu nac = (mr, vm1)" by fastforce
  show ?thesis
  proof (cases mr)
    case (Inl q)
    with s show ?thesis unfolding Suc send.simps(2) Let_def p prod.case mk Inl sum.case by simp
  next
    case (Inr rt)
    obtain res rt2 vm2 where rr: "?b (rt, vm1) = (res, rt2, vm2)" by (cases "?b (rt, vm1)")
    with s have "fst (?b (rt, vm1)) = Inr r" unfolding Suc send.simps(2) Let_def p prod.case mk Inr sum.case by simp
    with b show ?thesis unfolding ends_def by blast
  qed
qed simp

lemma chargeGasInternal_bound:
  assumes "0 \<le> gasUsed rt" and "gasUsed rt \<le> gasAvailable rt" and "gasAvailable rt < 2 ^ 62"
  shows "gasUsed (snd (chargeGasInternal E g rt)) \<le> gasAvailable rt"
proof (cases "gasAvailable rt - Total g < 2 ^ 63")
  case True
  then have "i64 (gasAvailable rt - Total g) = gasAvailable rt - Total g"
    using assms Total_in_i64 [of g] by (intro i64_id) (simp add: in_i64_def)
  moreover have "i64 (gasUsed rt + Total g) = gasUsed rt + Total g" if "gasUsed rt + Total g \<le> gasAvailable rt"
    using assms Total_in_i64 [of g] that by (intro i64_id) (simp add: in_i64_def)
  ultimately show ?thesis using assms by (auto simp: chargeGasInternal_def Let_def)
next
  case False
  then have "i64 (gasAvailable rt - Total g) = gasAvailable rt - Total g - 2 ^ 64"
    using assms Total_in_i64 [of g] by (intro i64_wrap) (simp_all add: in_i64_def)
  then have "gasUsed rt > i64 (gasAvailable rt - Total g)"
    using assms Total_in_i64 [of g] by (simp add: in_i64_def)
  then show ?thesis by (simp add: chargeGasInternal_def Let_def)
qed

text \<open>With the gas within its limit, refund and reward add up to what was withheld.\<close>

lemma settle_gas_math:
  assumes "0 \<le> gasU" and "gasU \<le> msgGasLimit msg" and "msgGasLimit msg < 2 ^ 62"
    and "actBalance gh = NewInt (msgGasLimit msg) * bigOf (msgGasPrice msg)"
  shows "fst (settle_gas E msg gh gasU st) \<noteq> Inl ErrGasMath"
proof
  assume "fst (settle_gas E msg gh gasU st) = Inl ErrGasMath"
  moreover have i: "i64 (msgGasLimit msg - gasU) = msgGasLimit msg - gasU"
    using assms by (intro i64_id) (simp add: in_i64_def)
  moreover have n: "NewInt gasU = gasU" "NewInt (msgGasLimit msg - gasU) = msgGasLimit msg - gasU" "NewInt (msgGasLimit msg) = msgGasLimit msg"
    using assms by (simp_all add: NewInt_def u64_def)
  ultimately obtain gh1 gh2 st1 st2 where
    t1: "transferFromGasHolder E st (msgFrom msg) gh ((msgGasLimit msg - gasU) * bigOf (msgGasPrice msg)) = (Inr gh1, st1)" and
    t2: "transferFromGasHolder E st1 (RewardActorAddr E) gh1 (bigOf (msgGasPrice msg) * gasU) = (Inr gh2, st2)" and
    "actBalance gh2 \<noteq> 0"
    by (auto simp: settle_gas_def Let_def split: prod.splits sum.splits if_splits)
  moreover have h: "transferFromGasHolder E s a g amt = (Inr g', s') \<Longrightarrow> actBalance g' = actBalance g - amt" for s a g amt g' s'
    by (auto simp: transferFromGasHolder_def MutateActor_def deductFunds_def split: if_splits prod.splits sum.splits)
  ultimately show False using h [OF t1] h [OF t2] assms(4) n(3) by (simp add: algebra_simps)
qed

lemma settle_gas_errs: "fst (settle_gas E msg gh g st) = Inl e \<Longrightarrow> e \<in> {ErrRefundGas, ErrGasReward, ErrGasMath}"
  by (auto simp: settle_gas_def Let_def split: prod.splits sum.splits if_splits)

lemma settle_no_fuel: "fst (settle E msg gh ret err rt st) \<noteq> Inl (ApplyPanic p)"
proof -
  have "fst (settle_gas E msg gh g st1) \<noteq> Inl (ApplyPanic p)" for g st1 using settle_gas_errs by blast
  moreover have "fst (case x of (Inl e, st2) \<Rightarrow> (Inl e, st2) | (Inr _, st2) \<Rightarrow> (Inr y, st2)) = Inl e \<longleftrightarrow> fst x = Inl e"
    for x :: "(applyErr + unit) \<times> StateTree" and y :: ApplyRet and e
    by (auto split: prod.split sum.split)
  ultimately show ?thesis
    by (cases "chargeGasInternal E (OnChainReturnValue (pricelist rt) (int (length ret))) rt") (simp add: settle_def Let_def)
qed

lemma settle_bounds:
  assumes "meter_inv b rt" and "gasAvailable rt = msgGasLimit msg" and "err_empty (ret, err)"
    and gh: "actBalance gh = NewInt (msgGasLimit msg) * bigOf (msgGasPrice msg)"
    and s: "settle E msg gh ret err rt st = (r, st')"
  shows "case r of Inl e \<Rightarrow> e \<in> {ErrFatalSend, ErrRefundGas, ErrGasReward}
    | Inr ar \<Rightarrow> 0 \<le> arGasUsed ar \<and> arGasUsed ar \<le> msgGasLimit msg"
proof -
  define p where "p = (if ret \<noteq> [] then chargeGasInternal E (OnChainReturnValue (pricelist rt) (int (length ret))) rt else (err, rt))"
  define gasU where "gasU = max 0 (gasUsed (snd p))"
  have m: "0 \<le> gasUsed rt" "gasUsed rt \<le> gasAvailable rt" "gasAvailable rt < 2 ^ 62"
    using assms(1) by (auto simp: meter_inv_def)
  have g: "0 \<le> gasU" "gasU \<le> msgGasLimit msg" "msgGasLimit msg < 2 ^ 62"
    using m assms(2) chargeGasInternal_bound [OF m] by (auto simp: gasU_def p_def)
  have "e \<in> {ErrRefundGas, ErrGasReward}" if "fst (settle_gas E msg gh gasU st1) = Inl e" for e st1
    using settle_gas_math [OF g gh, of E st1] settle_gas_errs [OF that] that by auto
  note errs = this
  show ?thesis
  proof (cases "IsFatal err")
    case True
    with s have "r = Inl ErrFatalSend" by (simp add: settle_def)
    then show ?thesis by simp
  next
    case False
    let ?st1 = "if RetCode (fst p) \<noteq> 0 then Revert st else st"
    have ne: "\<not> (err \<noteq> None \<and> ret \<noteq> [])" using assms(3) by (auto simp: err_empty_def)
    have "settle E msg gh ret err rt st = (case settle_gas E msg gh gasU ?st1 of
        (Inl e, st2) \<Rightarrow> (Inl e, st2)
      | (Inr _, st2) \<Rightarrow> (Inr \<lparr>arExitCode = RetCode (fst p), arReturn = if ret \<noteq> [] \<and> fst p \<noteq> None then [] else ret,
          arGasUsed = gasU, arActorErr = fst p, arPenalty = 0\<rparr>, st2))"
      using False ne by (simp only: settle_def Let_def p_def [symmetric] split_beta gasU_def if_False)
    then show ?thesis using s g errs [of ?st1] by (cases "settle_gas E msg gh gasU ?st1"; cases "fst (settle_gas E msg gh gasU ?st1)") auto
  qed
qed

lemma OnChainMessage_nonneg: "0 \<le> len \<Longrightarrow> len < 2 ^ 40 \<Longrightarrow> 0 \<le> Total (OnChainMessage price0 len)"
proof -
  assume a: "0 \<le> len" "len < 2 ^ 40"
  have "i64 len = len" "i64 (36 + len) = 36 + len" "i64 ((36 + len) * 1000) = (36 + len) * 1000"
    "i64 (137137 + (36 + len) * 1000) = 137137 + (36 + len) * 1000"
    using a by (auto intro!: i64_id simp: in_i64_def)
  then show ?thesis using a by (simp add: OnChainMessage_def price0_def i64_id in_i64_def)
qed

section \<open>The whole of ApplyMessage\<close>

lemma MutateActor_resolved:
  assumes "env_ok E" and "tree_inv E st" and "resolves_to E st a b"
    and m: "MutateActor (tenv E) st a f = (Inr x, st')" and "mut_nonneg f"
  shows "\<exists>act act'. view st b = Some act \<and> f act = Inr (act', x) \<and> view st' = (view st)(b \<mapsto> act') \<and>
    tree_inv E st' \<and> resolves_to E st' a b"
proof -
  from MutateActor_inv(2) [OF assms(1,2) m assms(5) refl] obtain c act act' where
    c: "resolves_to E st' a c" "view st c = Some act" "f act = Inr (act', x)" "view st' = (view st)(c \<mapsto> act')" "tree_inv E st'"
    by blast
  have r: "resolves_to E st' a b" by (rule MutateActor_resolves [OF assms(1-3) m])
  with c(1) have "b = c" using resolves_to_fun by blast
  with c r show ?thesis by blast
qed

text \<open>
  Either a message is turned down before it changes anything, or gas is withheld from its
  sender, whose nonce grows by one, and the message is sent.
\<close>

lemma ApplyMessage_cases:
  assumes "env_ok E" and i: "tree_inv E (cstate vm)" and a: "ApplyMessage E fuel vm msg len = (r, vm')"
  defines "cost \<equiv> NewInt (msgGasLimit msg) * bigOf (msgGasPrice msg)"
  obtains (turned_down) "view (cstate vm') = view (cstate vm)"
      "(\<exists>ar. r = Inr ar \<and> arGasUsed ar = 0 \<and> 0 < msgGasLimit msg) \<or>
       (\<exists>e. r = Inl e \<and> e \<in> {ErrNoGasLimit, ErrNegativeGasLimit, ErrNoGasPrice, ErrNoValue, ErrFromLookup, ErrWithdrawGas})"
  | (nonce) "r = Inl ErrIncrementNonce"
  | (sent) f act st3 where "0 < msgGasLimit msg" "view (cstate vm) f = Some act" "actCode act = AccountActorCodeID E"
      "actNonce act = msgNonce msg" "tree_inv E st3" "resolves_to E st3 (msgFrom msg) f"
      "view st3 = (view (cstate vm))(f \<mapsto> act\<lparr>actNonce := actNonce act + 1, actBalance := actBalance act - cost\<rparr>)"
      "ApplyMessage_send E fuel (vm\<lparr>cstate := st3\<rparr>) msg (OnChainMessage price0 len) (zeroActor\<lparr>actBalance := cost\<rparr>) = (r, vm')"
proof -
  let ?st = "cstate vm"
  obtain rg st1 where g: "GetActor (tenv E) ?st (msgFrom msg) = (rg, st1)" by fastforce
  note s1 = GetActor_inv [OF assms(1) i g]
  have i1: "tree_inv E st1" and v1: "view st1 = view ?st" using s1(1) by (simp_all add: same_view_def)
  obtain rh st2 where h: "transferToGasHolder E st1 (msgFrom msg) zeroActor cost = (rh, st2)" by fastforce
  note s2 = transferToGasHolder_inv [OF assms(1) i1 h]
  obtain rn st3 where n: "incrementNonce E st2 (msgFrom msg) = (rn, st3)" by fastforce
  show ?thesis
  proof (cases "\<exists>act gh. rg = Inr act \<and> rh = Inr gh \<and> msgNonce msg = actNonce act \<and> actCode act = AccountActorCodeID E \<and>
      cost \<le> actBalance act \<and> checkMessage msg = Inr () \<and> Total (OnChainMessage price0 len) \<le> msgGasLimit msg")
    case False
    have "view (cstate vm') = view ?st"
      using a g h n False v1 s2(1) unfolding ApplyMessage_def Let_def cost_def [symmetric]
      by (auto simp: same_view_def split: sum.splits if_splits)
    moreover have "(\<exists>ar. r = Inr ar \<and> arGasUsed ar = 0 \<and> 0 < msgGasLimit msg) \<or>
        (\<exists>e. r = Inl e \<and> e \<in> {ErrNoGasLimit, ErrNegativeGasLimit, ErrNoGasPrice, ErrNoValue, ErrFromLookup, ErrWithdrawGas})"
      using a g h n False unfolding ApplyMessage_def Let_def cost_def [symmetric]
      by (auto simp: rejected_def checkMessage_def split: sum.splits if_splits)
    ultimately show ?thesis by (rule turned_down)
  next
    case True
    then obtain act gh where t: "rg = Inr act" "rh = Inr gh" "msgNonce msg = actNonce act" "actCode act = AccountActorCodeID E"
      "cost \<le> actBalance act" "checkMessage msg = Inr ()" "Total (OnChainMessage price0 len) \<le> msgGasLimit msg" by blast
    from s1(2) [OF t(1)] obtain f where f: "resolves_to E st1 (msgFrom msg) f" "view ?st f = Some act" by blast
    from s2(2) [OF t(2)] have nn: "0 \<le> cost" "gh = zeroActor\<lparr>actBalance := cost\<rparr>" by (auto simp: zeroActor_def)
    let ?f = "\<lambda>a. case deductFunds a cost of Inl e \<Rightarrow> Inl e | Inr a' \<Rightarrow> Inr (a', depositFunds zeroActor cost)"
    have pos: "mut_nonneg ?f" by (auto simp: mut_nonneg_def deductFunds_def)
    have "MutateActor (tenv E) st1 (msgFrom msg) ?f = (Inr gh, st2)"
      using h nn(1) t(2) by (simp add: transferToGasHolder_def)
    from MutateActor_resolved [OF assms(1) i1 f(1) this pos] f(2) v1 t(5)
    have m2: "view st2 = (view ?st)(f \<mapsto> act\<lparr>actBalance := actBalance act - cost\<rparr>)" "tree_inv E st2" "resolves_to E st2 (msgFrom msg) f"
      by (auto simp: deductFunds_def split: if_splits)
    have go: "(r, vm') = (case rn of Inl _ \<Rightarrow> (Inl ErrIncrementNonce, vm\<lparr>cstate := st3\<rparr>)
        | Inr _ \<Rightarrow> ApplyMessage_send E fuel (vm\<lparr>cstate := st3\<rparr>) msg (OnChainMessage price0 len) gh)"
      using a g h n t unfolding ApplyMessage_def Let_def cost_def [symmetric] by (auto split: sum.splits)
    show ?thesis
    proof (cases rn)
      case (Inl e)
      with go show ?thesis by (intro nonce) simp
    next
      case (Inr u)
      have posn: "mut_nonneg (\<lambda>a. Inr (a\<lparr>actNonce := actNonce a + 1\<rparr>, ()))" by (auto simp: mut_nonneg_def)
      from MutateActor_resolved [OF assms(1) m2(2,3) n [unfolded incrementNonce_def Inr] posn] m2(1)
      have "view st3 = (view ?st)(f \<mapsto> act\<lparr>actNonce := actNonce act + 1, actBalance := actBalance act - cost\<rparr>)"
        "tree_inv E st3" "resolves_to E st3 (msgFrom msg) f" by auto
      moreover have "0 < msgGasLimit msg" using t(6) by (auto simp: checkMessage_def split: if_splits)
      ultimately show ?thesis using sent [of f act st3] f(2) t go Inr nn(2) by simp
    qed
  qed
qed

lemma ApplyMessage_send_bounds:
  assumes "code_gas_ok E" and "0 < msgGasLimit msg" and "msgGasLimit msg < 2 ^ 62" and "0 \<le> Total g"
    and gh: "actBalance gh = NewInt (msgGasLimit msg) * bigOf (msgGasPrice msg)"
    and a: "ApplyMessage_send E fuel vm msg g gh = (r, vm')"
  shows "case r of Inl e \<Rightarrow> e \<noteq> ErrGasMath \<and> e \<noteq> ErrReturnWithError
    | Inr ar \<Rightarrow> 0 \<le> arGasUsed ar \<and> arGasUsed ar \<le> msgGasLimit msg"
proof -
  let ?vm = "vm\<lparr>cstate := Snapshot (cstate vm)\<rparr>"
  obtain res ort vm1 where s: "send E fuel msg None (Some g) ?vm = (res, ort, vm1)"
    by (cases "send E fuel msg None (Some g) ?vm")
  show ?thesis
  proof (cases "\<exists>ret err rt. res = Inr (ret, err) \<and> ort = Some rt")
    case False
    then have "r = Inl (ApplyPanic POther) \<or> (\<exists>p. r = Inl (ApplyPanic p))"
      using a by (auto simp: ApplyMessage_send_def Let_def s split: sum.splits option.splits prod.splits)
    then show ?thesis by auto
  next
    case True
    then obtain ret err rt where t: "res = Inr (ret, err)" "ort = Some rt" by blast
    have "meter_inv 0 rt \<and> gasAvailable rt = msgGasLimit msg"
      using send_keeps_meter [OF assms(1), of fuel, unfolded send_meter_def, rule_format, of msg None "Some g" ?vm rt 0]
        s t assms(2-4) by simp
    moreover have "err_empty (ret, err)" using send_err_empty [of E fuel msg None "Some g" ?vm "(ret, err)"] s t by simp
    moreover obtain r1 st1 where st1: "settle E msg gh ret err rt (cstate vm1) = (r1, st1)" by fastforce
    ultimately have "case r1 of Inl e \<Rightarrow> e \<in> {ErrFatalSend, ErrRefundGas, ErrGasReward}
        | Inr ar \<Rightarrow> 0 \<le> arGasUsed ar \<and> arGasUsed ar \<le> msgGasLimit msg"
      using settle_bounds [of 0 rt msg ret err gh E "cstate vm1" r1 st1] gh by blast
    moreover have "r = r1 \<or> r = Inl (ApplyPanic POther)"
      using a by (auto simp: ApplyMessage_send_def Let_def s t st1 split: option.splits)
    ultimately show ?thesis by (auto split: sum.splits)
  qed
qed

section \<open>A concrete machine for the witnesses\<close>

definition wit_vm_env :: vm_env where
  "wit_vm_env =
     \<lparr>tenv = wit_tree_env, exitCode = (\<lambda>c. case c of SysErrInsufficientFunds \<Rightarrow> 6 | SysErrOutOfGas \<Rightarrow> 7 | _ \<Rightarrow> 9),
      exportsOf = [''acc'' \<mapsto> [None, Some (\<lambda>ps. if length ps < 100
          then Inr (\<lambda>msg h. ValidateAcceptAnyP (StateCreateP (Some ps) (Done None RNil))) else Inl ()),
        Some (\<lambda>ps. Inr (\<lambda>msg h. ValidateAcceptAnyP (SendP ''09'' 0 (Some []) 1 (\<lambda>r c. Done None RNil))))]],
      isBuiltinActor = (\<lambda>c. True), isSingletonActor = (\<lambda>c. False), AccountActorCodeID = ''acc'',
      SystemActorAddr = ''00'', RewardActorAddr = ''02'', BurntFundsActorAddr = ''099'',
      StorageMarketActorAddr = ''05'', StoragePowerActorAddr = ''04'', MethodsAccountConstructor = 1,
      EmptyObjectCid = ''h'', blockHash = (\<lambda>b. ''c'' @ b), blockNotFound = False, putFails = (\<lambda>b. False),
      marshalAddress = Some, hashActorAddress = Some, decodeAccountState = Some,
      decodeMarketState = (\<lambda>b. None), decodePowerState = (\<lambda>b. None),
      randomness = (\<lambda>p e n. None), vestedFunds = (\<lambda>e. Some 0), sysUnder = (\<lambda>st bs c. ([], None)),
      proofType0 = StackedDrgWindow512MiBV1\<rparr>"

definition wit_vm :: VM where
  "wit_vm = \<lparr>cstate = \<lparr>root = [''01'' \<mapsto> wit_actor 0, ''02'' \<mapsto> (wit_actor 5)\<lparr>actCode := ''rew''\<rparr>,
       ''05'' \<mapsto> wit_actor 3000000, ''09'' \<mapsto> wit_actor 7], layers = newStateSnaps\<rparr>,
     blocks = Map.empty, blockHeight = 10\<rparr>"

lemma wit_env_ok: "env_ok wit_vm_env"
  by (auto simp: env_ok_def wit_vm_env_def wit_tree_env_def)

lemma wit_code_gas_ok: "code_gas_ok wit_vm_env"
  unfolding code_gas_ok_def
proof (intro conjI allI impI)
  fix c exps f ps code msg h
  assume "exportsOf wit_vm_env c = Some exps" "Some f \<in> set exps" "f ps = Inr code"
  then show "prog_gas_ok (code msg h) True"
    by (auto simp: wit_vm_env_def size_ok_def split: if_splits)
qed (simp add: wit_vm_env_def)

lemma wit_vm_view: "view (cstate wit_vm) = [''01'' \<mapsto> wit_actor 0, ''02'' \<mapsto> (wit_actor 5)\<lparr>actCode := ''rew''\<rparr>,
    ''05'' \<mapsto> wit_actor 3000000, ''09'' \<mapsto> wit_actor 7]"
  by (simp add: view_def wit_vm_def newStateSnaps_def addLayer_def newStateSnapLayer_def fun_eq_iff)

lemma wit_tree_inv: "tree_inv wit_vm_env (cstate wit_vm)"
proof -
  have "nonneg (view (cstate wit_vm))" unfolding wit_vm_view by (auto simp: nonneg_def wit_actor_def)
  moreover have "layers (cstate wit_vm) = [newStateSnapLayer]" by (simp add: wit_vm_def newStateSnaps_def addLayer_def)
  ultimately show ?thesis
    by (simp add: tree_inv_def tree_ok_def views_conv) (simp add: wit_vm_env_def wit_tree_env_def newStateSnapLayer_def)
qed

section \<open>Properties\<close>

text \<open>
  C1. Applying a message never creates funds: whatever the message and the code of the actors
  do, succeed, fail, run out of gas, abort with a fatal error or panic, the sum of all balances
  afterwards is at most the sum before, no balance is negative, and the invariant of the state
  tree is kept, with nothing below the current layer changed.
\<close>

theorem ApplyMessage_never_mints:
  assumes "env_ok E" and "tree_inv E (cstate vm)"
  shows "let vm' = snd (ApplyMessage E fuel vm msg len) in
    total_supply (view (cstate vm')) \<le> total_supply (view (cstate vm)) \<and> nonneg (view (cstate vm')) \<and>
    tree_inv E (cstate vm') \<and> same_below (cstate vm) (cstate vm')"
proof -
  obtain r vm' where a: "ApplyMessage E fuel vm msg len = (r, vm')" by fastforce
  from ApplyMessage_funds [OF assms a] show ?thesis using tree_inv_nonneg by (auto simp: a)
qed

theorem ApplyMessage_never_mints_witness:
  "total_supply (view (cstate (snd (ApplyMessage wit_vm_env 3 wit_vm (wit_msg ''05'' ''09'' 0 5 1 2000000 0) 100))))
     \<le> total_supply (view (cstate wit_vm))"
  using ApplyMessage_never_mints [OF wit_env_ok wit_tree_inv, of 3 "wit_msg ''05'' ''09'' 0 5 1 2000000 0" 100]
  by (simp only: Let_def simp_thms)

text \<open>
  C2. A message that ends with a non-zero exit code either left every actor as it was and used
  no gas, or had exactly these effects: its sender's nonce grew by one and its balance fell by
  the gas used times the price, and the reward actor received that amount. Everything the
  message and the calls it made did is reverted.
\<close>

theorem ApplyMessage_failed_effect:
  assumes "env_ok E" and "tree_inv E (cstate vm)" and "code_gas_ok E"
    and "0 \<le> len" and "len < 2 ^ 40" and "msgGasLimit msg < 2 ^ 62"
    and "Protocol (tenv E) (RewardActorAddr E) = ProtoID"
    and "\<And>act. view (cstate vm) (RewardActorAddr E) = Some act \<Longrightarrow> actCode act \<noteq> AccountActorCodeID E"
    and "ApplyMessage E fuel vm msg len = (Inr ar, vm')" and "arExitCode ar \<noteq> 0"
  shows "(view (cstate vm') = view (cstate vm) \<and> arGasUsed ar = 0) \<or>
    (\<exists>f act rew. (Protocol (tenv E) (msgFrom msg) = ProtoID \<longrightarrow> f = msgFrom msg) \<and>
       view (cstate vm) f = Some act \<and> actNonce act = msgNonce msg \<and>
       view (cstate vm) (RewardActorAddr E) = Some rew \<and> f \<noteq> RewardActorAddr E \<and>
       view (cstate vm') = (view (cstate vm))
         (f \<mapsto> act\<lparr>actNonce := actNonce act + 1, actBalance := actBalance act - arGasUsed ar * bigOf (msgGasPrice msg)\<rparr>,
          RewardActorAddr E \<mapsto> rew\<lparr>actBalance := actBalance rew + arGasUsed ar * bigOf (msgGasPrice msg)\<rparr>))"
  using assms(1,2,9)
proof (cases rule: ApplyMessage_cases)
  case turned_down
  then show ?thesis by auto
next
  case (sent f act st3)
  let ?cost = "NewInt (msgGasLimit msg) * bigOf (msgGasPrice msg)" and ?gh = "zeroActor\<lparr>actBalance := NewInt (msgGasLimit msg) * bigOf (msgGasPrice msg)\<rparr>"
  have ne: "f \<noteq> RewardActorAddr E" using sent(2,3) assms(8) by auto
  have g: "0 \<le> arGasUsed ar" "arGasUsed ar \<le> msgGasLimit msg"
    using ApplyMessage_send_bounds [OF assms(3) sent(1) assms(6) OnChainMessage_nonneg [OF assms(4,5)] _ sent(8)] by simp_all
  then have n: "NewInt (msgGasLimit msg) = msgGasLimit msg" "NewInt (arGasUsed ar) = arGasUsed ar"
      "NewInt (i64 (msgGasLimit msg - arGasUsed ar)) = msgGasLimit msg - arGasUsed ar"
    using assms(6) sent(1) by (simp_all add: NewInt_def u64_def i64_id in_i64_def)
  from ApplyMessage_send_failed [OF assms(1) _ _ assms(7) ne sent(8) assms(10)] sent(5,6) obtain fa ra where
    v: "view st3 f = Some fa" "view st3 (RewardActorAddr E) = Some ra"
      "view (cstate vm') = (view st3)(f \<mapsto> fa\<lparr>actBalance := actBalance fa + (msgGasLimit msg - arGasUsed ar) * bigOf (msgGasPrice msg)\<rparr>,
         RewardActorAddr E \<mapsto> ra\<lparr>actBalance := actBalance ra + bigOf (msgGasPrice msg) * arGasUsed ar\<rparr>)"
    unfolding n by auto
  from v(1,2) sent(7) ne have "fa = act\<lparr>actNonce := actNonce act + 1, actBalance := actBalance act - ?cost\<rparr>"
      "view (cstate vm) (RewardActorAddr E) = Some ra" by auto
  moreover have "Protocol (tenv E) (msgFrom msg) = ProtoID \<Longrightarrow> f = msgFrom msg"
    using sent(6) by (simp add: resolves_to_def)
  ultimately show ?thesis using v(3) sent(2,4,7) ne
    by (intro disjI2 exI [of _ f] exI [of _ act] exI [of _ ra]) (simp add: n algebra_simps fun_upd_twist)
qed simp

text \<open>
  The run of the witness: a transfer of more than the sender has, evaluated.
\<close>

definition wit_fail_msg :: Message where
  "wit_fail_msg = wit_msg ''05'' ''09'' 0 9999999 1 2000000 0"

lemma wit_fail_limit [simp]: "msgGasLimit wit_fail_msg = 2000000"
  by (simp add: wit_fail_msg_def wit_msg_def)

lemma wit_fail_run:
  "map_sum id (\<lambda>ar. (arExitCode ar, arGasUsed ar)) (fst (ApplyMessage wit_vm_env 3 wit_vm wit_fail_msg 100)) = Inr (6, 814991)"
  by code_simp

theorem ApplyMessage_failed_effect_witness:
  "\<exists>ar vm'. ApplyMessage wit_vm_env 3 wit_vm wit_fail_msg 100 = (Inr ar, vm') \<and> arExitCode ar = 6 \<and>
    view (cstate vm') ''05'' = Some ((wit_actor 2185009)\<lparr>actNonce := 1\<rparr>) \<and>
    view (cstate vm') ''09'' = Some (wit_actor 7)"
proof -
  obtain r vm' where a: "ApplyMessage wit_vm_env 3 wit_vm wit_fail_msg 100 = (r, vm')" by fastforce
  from wit_fail_run obtain ar where ar: "r = Inr ar" "arExitCode ar = 6" "arGasUsed ar = 814991"
    by (cases r) (auto simp: a)
  have m: "msgGasLimit wit_fail_msg = 2000000" "msgGasPrice wit_fail_msg = Some 1" "msgFrom wit_fail_msg = ''05''"
    by (simp_all add: wit_fail_msg_def wit_msg_def)
  have rw: "Protocol (tenv wit_vm_env) ''02'' = ProtoID" "RewardActorAddr wit_vm_env = ''02''"
      "AccountActorCodeID wit_vm_env = ''acc''" "Protocol (tenv wit_vm_env) ''05'' = ProtoID"
    by (simp_all add: wit_vm_env_def wit_tree_env_def)
  from ApplyMessage_failed_effect [OF wit_env_ok wit_tree_inv wit_code_gas_ok, of 100 wit_fail_msg 3 ar vm'] a ar m rw
  obtain act where f: "view (cstate wit_vm) ''05'' = Some act"
     "view (cstate vm') ''05'' = Some (act\<lparr>actNonce := actNonce act + 1, actBalance := actBalance act - 814991\<rparr>)"
     "view (cstate vm') ''09'' = view (cstate wit_vm) ''09''"
    by (auto simp: wit_vm_view bigOf_def)
  from f(1) have "act = wit_actor 3000000" by (simp add: wit_vm_view)
  with f(2,3) a ar show ?thesis by (simp add: wit_vm_view) (simp add: wit_actor_def)
qed

text \<open>
  C9. The gas a receipt reports is between 0 and the limit of the message, and the two internal
  consistency errors of \<open>ApplyMessage\<close> never occur: refund and reward always add up to the gas
  withheld from the sender, and a failed send never carries a return value.
\<close>

theorem ApplyMessage_gas_accounting:
  assumes "env_ok E" and "tree_inv E (cstate vm)" and "code_gas_ok E"
    and "0 \<le> len" and "len < 2 ^ 40" and "msgGasLimit msg < 2 ^ 62"
  shows "case fst (ApplyMessage E fuel vm msg len) of
      Inr ar \<Rightarrow> 0 \<le> arGasUsed ar \<and> arGasUsed ar \<le> msgGasLimit msg
    | Inl e \<Rightarrow> e \<noteq> ErrGasMath \<and> e \<noteq> ErrReturnWithError"
proof -
  obtain r vm' where a: "ApplyMessage E fuel vm msg len = (r, vm')" by fastforce
  from assms(1,2) a show ?thesis
  proof (cases rule: ApplyMessage_cases)
    case turned_down
    then show ?thesis by (auto simp: a)
  next
    case nonce
    then show ?thesis by (simp add: a)
  next
    case (sent f act st3)
    from ApplyMessage_send_bounds [OF assms(3) sent(1) assms(6) OnChainMessage_nonneg [OF assms(4,5)] _ sent(8)]
    show ?thesis by (auto simp: a split: sum.splits)
  qed
qed

theorem ApplyMessage_gas_accounting_witness:
  "case fst (ApplyMessage wit_vm_env 3 wit_vm wit_fail_msg 100) of
     Inr ar \<Rightarrow> 0 \<le> arGasUsed ar \<and> arGasUsed ar \<le> 2000000 | Inl e \<Rightarrow> e \<noteq> ErrGasMath \<and> e \<noteq> ErrReturnWithError"
  using ApplyMessage_gas_accounting [OF wit_env_ok wit_tree_inv wit_code_gas_ok, of 100 wit_fail_msg 3]
  by (simp split: sum.splits)

text \<open>
  C8. Applying a message ends: gas bounds the depth of the calls a message makes, so that with
  one level of the call stack for every 18126 gas of its limit, and two more, the execution never
  runs out of levels, for all actor code that charges no negative amounts of gas (\<open>code_gas_ok\<close>).
\<close>

theorem ApplyMessage_terminates:
  assumes "code_gas_ok E" and "0 \<le> len" and "len < 2 ^ 40" and "msgGasLimit msg < 2 ^ 62"
    and "msgGasLimit msg < 18126 * int n"
  shows "fst (ApplyMessage E (Suc n) vm msg len) \<noteq> Inl (ApplyPanic PFuel)"
proof -
  let ?g = "OnChainMessage price0 len"
  have s: "fst (ApplyMessage_send E (Suc n) vm1 msg ?g gh) \<noteq> Inl (ApplyPanic PFuel)" if lim: "0 < msgGasLimit msg" for vm1 gh
  proof -
    let ?vm = "vm1\<lparr>cstate := Snapshot (cstate vm1)\<rparr>"
    obtain res ort vm2 where r: "send E (Suc n) msg None (Some ?g) ?vm = (res, ort, vm2)"
      by (cases "send E (Suc n) msg None (Some ?g) ?vm")
    have ne: "res \<noteq> Inl PFuel"
      using send_enough [OF assms(1), where msg = msg and g = "Some ?g" and parent = None and b = 0 and n = n and vm = ?vm] lim assms(4,5) OnChainMessage_nonneg [OF assms(2,3)] r
      by simp
    show ?thesis using ne settle_no_fuel [of E msg gh]
      by (auto simp: ApplyMessage_send_def Let_def r simp del: send.simps split: sum.splits option.splits prod.splits)
        (metis fst_conv)+
  qed
  show ?thesis
    using s unfolding ApplyMessage_def Let_def
    by (auto simp: checkMessage_def simp del: send.simps split: sum.splits if_splits prod.splits)
qed

theorem ApplyMessage_terminates_witness:
  "fst (ApplyMessage wit_vm_env (Suc 111) wit_vm wit_fail_msg 100) \<noteq> Inl (ApplyPanic PFuel)"
  using ApplyMessage_terminates [OF wit_code_gas_ok, of 100 wit_fail_msg 111 wit_vm]
  by simp

text \<open>
  C29. A transfer between two ID addresses succeeds exactly when they are the same, or when the
  amount is not negative, both actors exist and the sender has it; it then moves the amount and
  nothing else. Every failure moves nothing. The sum of all balances is the same in all cases.
\<close>

theorem transfer_functional:
  assumes "env_ok E" and "tree_inv E st" and "Protocol (tenv E) f = ProtoID" and "Protocol (tenv E) t = ProtoID"
  shows "let (r, st') = transfer E st f t amt; v = view st in
    (r = None \<longleftrightarrow> f = t \<or> 0 \<le> amt \<and> amt \<le> balance v f \<and> v f \<noteq> None \<and> v t \<noteq> None) \<and>
    view st' = (if r = None \<and> f \<noteq> t then moved v f t amt else v) \<and>
    total_supply (view st') = total_supply v"
proof -
  obtain r st' where tr: "transfer E st f t amt = (r, st')" by fastforce
  have s: "total_supply (view st') = total_supply (view st)" using transfer_funds [OF assms(1,2)] tr by (metis snd_conv)
  show ?thesis
  proof (cases "f = t")
    case True
    with tr show ?thesis by (simp add: transfer_def)
  next
    case False
    then have "transferID E st f t amt = (r, st')" using tr assms(3,4) by (simp add: transfer_def)
    note sp = transferID_spec [OF assms this] and tr2 = this
    have "r = None" if c: "0 \<le> amt" "amt \<le> balance (view st) f" "view st f \<noteq> None" "view st t \<noteq> None"
    proof -
      obtain rf st1 where g1: "GetActor (tenv E) st f = (rf, st1)" by fastforce
      note s1 = GetActor_idI [OF assms(1,2,3) g1]
      have i1: "tree_inv E st1" and v1: "view st1 = view st" using s1(1) by (simp_all add: same_view_def)
      obtain rt1 st2 where g2: "GetActor (tenv E) st1 t = (rt1, st2)" by fastforce
      note s2 = GetActor_idI(2) [OF assms(1) i1 assms(4) g2]
      show ?thesis using tr2 False c g1 g2 s1(2) s2 v1 assms(3,4)
        by (auto simp: transferID_def deductFunds_def SetActor_def balance_def)
    qed
    with sp s False show ?thesis unfolding tr Let_def prod.case by (auto simp: same_view_def)
  qed
qed

theorem transfer_functional_witness:
  "balance (view (snd (transfer wit_vm_env (cstate wit_vm) ''05'' ''09'' 20))) ''09'' = 27"
proof -
  have p: "Protocol (tenv wit_vm_env) ''05'' = ProtoID" "Protocol (tenv wit_vm_env) ''09'' = ProtoID"
    by (simp_all add: wit_vm_env_def wit_tree_env_def)
  from transfer_functional [OF wit_env_ok wit_tree_inv p, of 20] show ?thesis
    by (auto simp: Let_def wit_vm_view balance_def moved_def split: prod.splits) (simp_all add: wit_actor_def)
qed

text \<open>
  C31. What happens before anything is executed, for a sender given by any address. A malformed
  message is an error of the caller. A gas limit below the cost of the message on chain is turned
  down with a penalty for its inclusion; so are a sender whose address no actor is found for, or
  which is not an account (sender invalid), and a nonce that is not the sender's or a balance below
  the gas limit times the price (sender state invalid), each with its exit code. The undefined
  address and any other failure to resolve the address (\<open>resolved\<close>: an ID address, a cached one, or
  what the init actor answers) are an error of \<open>ApplyMessage\<close>. In all these
  cases no actor changes.
\<close>

theorem ApplyMessage_rejects:
  fixes msg :: Message and len :: int
  assumes "env_ok E" and "tree_inv E (cstate vm)"
  defines "penalty \<equiv> bigOf (msgGasPrice msg) * NewInt (Total (OnChainMessage price0 len))"
    and "rej \<equiv> (\<lambda>c p. Inr (rejected (exitCode E c) (Some (Newf (exitCode E c))) p))"
  shows "let (r, vm') = ApplyMessage E fuel vm msg len; kept = (view (cstate vm') = view (cstate vm)) in
    case checkMessage msg of
      Inl e \<Rightarrow> r = Inl e \<and> vm' = vm
    | Inr _ \<Rightarrow>
        if msgGasLimit msg < Total (OnChainMessage price0 len)
        then r = Inr (rejected (exitCode E SysErrOutOfGas) None penalty) \<and> vm' = vm
        else if msgFrom msg = address_Undef then r = Inl ErrFromLookup \<and> kept
        else (case resolved (tenv E) (cstate vm) (msgFrom msg) of
          Inl e \<Rightarrow> r = (if isNotFound e then rej SysErrSenderInvalid penalty else Inl ErrFromLookup) \<and> kept
        | Inr iaddr \<Rightarrow>
            (case view (cstate vm) iaddr of
               None \<Rightarrow> r = rej SysErrSenderInvalid penalty \<and> kept
             | Some act \<Rightarrow>
                 (actCode act \<noteq> AccountActorCodeID E \<longrightarrow> r = rej SysErrSenderInvalid penalty \<and> kept) \<and>
                 (actCode act = AccountActorCodeID E \<and>
                    (msgNonce msg \<noteq> actNonce act \<or>
                     actBalance act < NewInt (msgGasLimit msg) * bigOf (msgGasPrice msg)) \<longrightarrow>
                    r = rej SysErrSenderStateInvalid penalty \<and> kept)))"
proof -
  obtain rg st1 where g: "GetActor (tenv E) (cstate vm) (msgFrom msg) = (rg, st1)" by fastforce
  have v: "view st1 = view (cstate vm)" using GetActor_inv(1) [OF assms(1,2) g] by (simp add: same_view_def)
  note rg = GetActor_result [OF assms(1,2) g]
  show ?thesis
    using g rg v unfolding ApplyMessage_def Let_def penalty_def rej_def
    by (auto simp: isNotFound_def split: option.splits prod.splits sum.splits)
qed

theorem ApplyMessage_rejects_witness:
  "fst (ApplyMessage wit_vm_env 3 wit_vm (wit_msg ''05'' ''09'' 4 5 1 2000000 0) 100) =
     Inr (rejected 9 (Some (Newf 9)) 273137) \<and>
   fst (ApplyMessage wit_vm_env 3 wit_vm (wit_msg ''f9'' ''05'' 0 5 1 2000000 0) 100) =
     Inr (rejected 9 (Some (Newf 9)) 273137)"
proof -
  let ?m = "wit_msg ''05'' ''09'' 4 5 1 2000000 0" and ?k = "wit_msg ''f9'' ''05'' 0 5 1 2000000 0"
  have p: "AccountActorCodeID wit_vm_env = ''acc''" "exitCode wit_vm_env SysErrSenderStateInvalid = 9"
    by (simp_all add: wit_vm_env_def wit_tree_env_def wit_msg_def)
  have rl: "resolveAddress (layers (cstate wit_vm)) a = None" for a
    by (simp add: wit_vm_def newStateSnaps_def addLayer_def newStateSnapLayer_def)
  have l: "resolved (tenv wit_vm_env) (cstate wit_vm) ''05'' = Inr ''05''"
    "resolved (tenv wit_vm_env) (cstate wit_vm) ''f9'' = Inr ''09''"
    by (simp_all add: resolved_def wit_vm_view rl wit_vm_env_def wit_tree_env_def)
  have c: "checkMessage ?m = Inr ()" "checkMessage ?k = Inr ()" "Total (OnChainMessage price0 100) = 273137"
      "msgGasLimit ?m = 2000000" "msgFrom ?m = ''05''" "msgNonce ?m = 4" "msgGasPrice ?m = Some 1"
      "msgGasLimit ?k = 2000000" "msgFrom ?k = ''f9''" "msgNonce ?k = 0" "msgGasPrice ?k = Some 1"
    by (simp_all add: checkMessage_def wit_msg_def OnChainMessage_def price0_def i64_def)
  note rejects = ApplyMessage_rejects [OF wit_env_ok wit_tree_inv, where fuel = 3 and len = 100]
  have "fst (ApplyMessage wit_vm_env 3 wit_vm ?m 100) = Inr (rejected 9 (Some (Newf 9)) 273137)"
    using rejects [where msg = ?m] c p l
    by (auto simp: wit_vm_view Let_def bigOf_def split: prod.splits) (simp_all add: wit_actor_def NewInt_def u64_def)
  moreover have "fst (ApplyMessage wit_vm_env 3 wit_vm ?k 100) = Inr (rejected 9 (Some (Newf 9)) 273137)"
    using rejects [where msg = ?k] c p l
    by (auto simp: wit_vm_view Let_def bigOf_def split: prod.splits) (simp_all add: wit_actor_def NewInt_def u64_def)
  ultimately show ?thesis by (rule conjI)
qed

end
