(* ===== verification/VM_Faults.thy ===== *)
theory VM_Faults
  imports VM_Apply Cbor_Types
begin

text \<open>
  Consensus faults: \<open>VerifyConsensusFault\<close> and \<open>VerifyBlockSig\<close> of \<open>chain/vm/syscalls.go\<close> with the
  signature checks of \<open>lib/sigs/sigs.go\<close>. Reading a miner's worker address from its state is third
  party code and a parameter, as are the registered signature schemes. \<open>Cid\<close> panics on a header
  that does not serialise.
\<close>

section \<open>Signatures of blocks\<close>

record fault_env =
  feCbor :: cbor_env
  feHash :: "bytes \<Rightarrow> cerr + cid"
  minerWorker :: "(cid \<rightharpoonup> bytes) \<Rightarrow> cid \<Rightarrow> string + address"
  sigSchemes :: "SigType \<rightharpoonup> (bytes \<Rightarrow> address \<Rightarrow> bytes \<Rightarrow> string + unit)"

datatype fault_err = ErrDecodeFirst cerr | ErrDecodeSecond cerr | ErrSameBlocks | ErrMiners | ErrHeightOrder
  | ErrDecodeExtra cerr | ErrNoFault | ErrFirstSig fault_err | ErrSecondSig fault_err
  | ErrMinerActor sterr | ErrMinerState string | ErrWorkerKey actorError
  | ErrNoSignature | ErrSigningBytes cerr | ErrVerify string | PanicCid

definition sigs_Verify :: "vm_env \<Rightarrow> fault_env \<Rightarrow> Signature option \<Rightarrow> address \<Rightarrow> bytes \<Rightarrow> string + unit" where
  "sigs_Verify E F osig addr msg =
     (case osig of None \<Rightarrow> Inl ''signature is nil''
      | Some sig \<Rightarrow>
          if Protocol (tenv E) addr = ProtoID
          then Inl ''must resolve ID addresses before using them to verify a signature''
          else case sigSchemes F (sigType sig) of
            None \<Rightarrow> Inl ''cannot verify signature of unsupported type''
          | Some verify \<Rightarrow> verify (sigData sig) addr msg)"

text \<open>The header is marked as validated when the check succeeds.\<close>

definition CheckBlockSignature ::
  "vm_env \<Rightarrow> fault_env \<Rightarrow> BlockHeader \<Rightarrow> address \<Rightarrow> (fault_err + unit) \<times> BlockHeader" where
  "CheckBlockSignature E F blk worker =
     (if IsValidated blk then (Inr (), blk)
      else if bhBlockSig blk = None then (Inl ErrNoSignature, blk)
      else case SigningBytes (feCbor F) blk of Inl e \<Rightarrow> (Inl (ErrSigningBytes e), blk)
      | Inr sigb \<Rightarrow>
          (case sigs_Verify E F (bhBlockSig blk) worker sigb of Inl e \<Rightarrow> (Inl (ErrVerify e), blk)
           | Inr _ \<Rightarrow> (Inr (), SetValidated blk)))"

definition VerifyBlockSig ::
  "vm_env \<Rightarrow> fault_env \<Rightarrow> (cid \<rightharpoonup> bytes) \<Rightarrow> StateTree \<Rightarrow> BlockHeader \<Rightarrow> (fault_err + unit) \<times> StateTree" where
  "VerifyBlockSig E F bs st blk =
     (case GetActor (tenv E) st (bhMiner blk) of (Inl e, st1) \<Rightarrow> (Inl (ErrMinerActor e), st1)
      | (Inr act, st1) \<Rightarrow>
          (case minerWorker F bs (actHead act) of Inl e \<Rightarrow> (Inl (ErrMinerState e), st1)
           | Inr worker \<Rightarrow>
               (case ResolveToKeyAddr E bs st1 worker of (Inl e, st2) \<Rightarrow> (Inl (ErrWorkerKey e), st2)
                | (Inr waddr, st2) \<Rightarrow> (fst (CheckBlockSignature E F blk waddr), st2))))"

section \<open>Faults\<close>

datatype fault_type = ConsensusFaultDoubleForkMining | ConsensusFaultParentGrinding | ConsensusFaultTimeOffsetMining

record ConsensusFault =
  cfTarget :: address
  cfEpoch :: epoch
  cfType :: fault_type

text \<open>The fault two blocks show without a third one: checks (a) and (b), of which the later wins.\<close>

definition pairFault :: "BlockHeader \<Rightarrow> BlockHeader \<Rightarrow> ConsensusFault option" where
  "pairFault blockA blockB =
     (if CidArrsEqual (bhParents blockA) (bhParents blockB) \<and> bhHeight blockA \<noteq> bhHeight blockB
      then Some \<lparr>cfTarget = bhMiner blockA, cfEpoch = bhHeight blockB, cfType = ConsensusFaultTimeOffsetMining\<rparr>
      else if bhHeight blockA = bhHeight blockB
      then Some \<lparr>cfTarget = bhMiner blockA, cfEpoch = bhHeight blockB, cfType = ConsensusFaultDoubleForkMining\<rparr>
      else None)"

text \<open>Check (c), with the CIDs of the first and of the extra block.\<close>

definition grinds :: "BlockHeader \<Rightarrow> cid \<Rightarrow> BlockHeader \<Rightarrow> BlockHeader \<Rightarrow> cid \<Rightarrow> bool" where
  "grinds blockA cidA blockB blockC cidC \<longleftrightarrow>
     CidArrsEqual (bhParents blockA) (bhParents blockC) \<and> bhHeight blockA = bhHeight blockC \<and>
     CidArrsContains (bhParents blockB) cidC \<and> \<not> CidArrsContains (bhParents blockB) cidA"

definition extraFault ::
  "fault_env \<Rightarrow> BlockHeader \<Rightarrow> cid \<Rightarrow> BlockHeader \<Rightarrow> bytes \<Rightarrow> ConsensusFault option \<Rightarrow> fault_err + ConsensusFault option" where
  "extraFault F blockA cidA blockB extra found =
     (if extra = [] then Inr found
      else case DecodeBlock (feCbor F) extra of Inl e \<Rightarrow> Inl (ErrDecodeExtra e)
      | Inr blockC \<Rightarrow>
          if CidArrsEqual (bhParents blockA) (bhParents blockC) \<and> bhHeight blockA = bhHeight blockC
          then (case Header_Cid (feCbor F) (feHash F) blockC of None \<Rightarrow> Inl PanicCid
            | Some cidC \<Rightarrow>
                Inr (if grinds blockA cidA blockB blockC cidC
                     then Some \<lparr>cfTarget = bhMiner blockA, cfEpoch = bhHeight blockB, cfType = ConsensusFaultParentGrinding\<rparr>
                     else found))
          else Inr found)"

definition VerifyConsensusFault ::
  "vm_env \<Rightarrow> fault_env \<Rightarrow> (cid \<rightharpoonup> bytes) \<Rightarrow> StateTree \<Rightarrow> bytes \<Rightarrow> bytes \<Rightarrow> bytes \<Rightarrow>
     (fault_err + ConsensusFault) \<times> StateTree" where
  "VerifyConsensusFault E F bs st a b extra =
     (case DecodeBlock (feCbor F) a of Inl e \<Rightarrow> (Inl (ErrDecodeFirst e), st)
      | Inr blockA \<Rightarrow>
     (case DecodeBlock (feCbor F) b of Inl e \<Rightarrow> (Inl (ErrDecodeSecond e), st)
      | Inr blockB \<Rightarrow>
     (case (Header_Cid (feCbor F) (feHash F) blockA, Header_Cid (feCbor F) (feHash F) blockB) of
        (Some cidA, Some cidB) \<Rightarrow>
          if cidA = cidB then (Inl ErrSameBlocks, st)
          else if bhMiner blockA \<noteq> bhMiner blockB then (Inl ErrMiners, st)
          else if bhHeight blockB < bhHeight blockA then (Inl ErrHeightOrder, st)
          else (case extraFault F blockA cidA blockB extra (pairFault blockA blockB) of
              Inl e \<Rightarrow> (Inl e, st)
            | Inr None \<Rightarrow> (Inl ErrNoFault, st)
            | Inr (Some consensusFault) \<Rightarrow>
                (case VerifyBlockSig E F bs st blockA of (Inl e, st1) \<Rightarrow> (Inl (ErrFirstSig e), st1)
                 | (Inr _, st1) \<Rightarrow>
                     (case VerifyBlockSig E F bs st1 blockB of (Inl e, st2) \<Rightarrow> (Inl (ErrSecondSig e), st2)
                      | (Inr _, st2) \<Rightarrow> (Inr consensusFault, st2))))
      | _ \<Rightarrow> (Inl PanicCid, st))))"

section \<open>Lemmas\<close>

lemma dbind_Inr: "dbind d f bs = Inr (x, r) \<longleftrightarrow> (\<exists>y r1. d bs = Inr (y, r1) \<and> f y r1 = Inr (x, r))"
  by (auto simp: dbind_def split: sum.splits)

text \<open>A header that was just decoded is not marked as validated.\<close>

lemma DecodeBlock_unvalidated: "DecodeBlock E a = Inr blk \<Longrightarrow> \<not> IsValidated blk"
proof -
  assume "DecodeBlock E a = Inr blk"
  then obtain t1 r1 t2 r2 r3 r0 where "BlockHeader_fields1 E zeroBlockHeader r0 = Inr (t1, r1)"
      "BlockHeader_fields2 E t1 r1 = Inr (t2, r2)" "BlockHeader_fields3 E t2 r2 = Inr (blk, r3)"
    by (auto simp: DecodeBlock_def decode_def BlockHeader_UnmarshalCBOR_def dbind_Inr split: sum.splits)
  then have "bhValidated t1 = bhValidated zeroBlockHeader" "bhValidated t2 = bhValidated t1" "bhValidated blk = bhValidated t2"
    by (auto simp: BlockHeader_fields1_def BlockHeader_fields2_def BlockHeader_fields3_def dbind_Inr dret_def)
  then show ?thesis by (simp add: IsValidated_def zeroBlockHeader_def)
qed

text \<open>
  A block is signed by its miner: the worker address in the miner's state resolves to a key for
  which a registered scheme accepts the block's signature of its signing bytes. The tree may have
  cached lookups since, which do not change its views.
\<close>

definition signed_by_miner :: "vm_env \<Rightarrow> fault_env \<Rightarrow> (cid \<rightharpoonup> bytes) \<Rightarrow> StateTree \<Rightarrow> BlockHeader \<Rightarrow> bool" where
  "signed_by_miner E F bs st blk \<longleftrightarrow>
     (\<exists>t1 t2 act worker waddr sig sigb verify.
        tree_ok (tenv E) t1 \<and> views t1 = views st \<and> tree_ok (tenv E) t2 \<and> views t2 = views st \<and>
        fst (GetActor (tenv E) t1 (bhMiner blk)) = Inr act \<and> minerWorker F bs (actHead act) = Inr worker \<and>
        fst (ResolveToKeyAddr E bs t2 worker) = Inr waddr \<and> bhBlockSig blk = Some sig \<and>
        SigningBytes (feCbor F) blk = Inr sigb \<and> Protocol (tenv E) waddr \<noteq> ProtoID \<and>
        sigSchemes F (sigType sig) = Some verify \<and> verify (sigData sig) waddr sigb = Inr ())"

lemma ResolveToKeyAddr_views:
  "tree_ok (tenv E) st \<Longrightarrow> views (snd (ResolveToKeyAddr E bs st a)) = views st \<and> tree_ok (tenv E) (snd (ResolveToKeyAddr E bs st a))"
  using GetActor_views [of "tenv E" st a]
  by (auto simp: ResolveToKeyAddr_def split: prod.splits sum.splits option.splits)

lemma CheckBlockSignature_ok:
  assumes "fst (CheckBlockSignature E F blk w) = Inr u" "\<not> IsValidated blk"
  shows "\<exists>sig sigb verify. bhBlockSig blk = Some sig \<and> SigningBytes (feCbor F) blk = Inr sigb \<and> Protocol (tenv E) w \<noteq> ProtoID \<and>
    sigSchemes F (sigType sig) = Some verify \<and> verify (sigData sig) w sigb = Inr ()"
  using assms by (auto simp: CheckBlockSignature_def sigs_Verify_def split: if_splits sum.splits option.splits)

lemma VerifyBlockSig_ok:
  assumes "VerifyBlockSig E F bs st blk = (Inr u, st')" "\<not> IsValidated blk" "tree_ok (tenv E) st"
  shows "signed_by_miner E F bs st blk \<and> tree_ok (tenv E) st' \<and> views st' = views st"
proof -
  obtain act st1 worker waddr where v: "GetActor (tenv E) st (bhMiner blk) = (Inr act, st1)"
      "minerWorker F bs (actHead act) = Inr worker" "ResolveToKeyAddr E bs st1 worker = (Inr waddr, st')"
      "fst (CheckBlockSignature E F blk waddr) = Inr u"
    using assms(1) by (auto simp: VerifyBlockSig_def split: prod.splits sum.splits)
  have t1: "tree_ok (tenv E) st1" "views st1 = views st" using GetActor_views [OF assms(3), of "bhMiner blk"] v(1) by simp_all
  have t2: "tree_ok (tenv E) st'" "views st' = views st" using ResolveToKeyAddr_views [OF t1(1), of bs worker] v(3) t1(2) by simp_all
  obtain sig sigb verify where c: "bhBlockSig blk = Some sig" "SigningBytes (feCbor F) blk = Inr sigb"
      "Protocol (tenv E) waddr \<noteq> ProtoID" "sigSchemes F (sigType sig) = Some verify" "verify (sigData sig) waddr sigb = Inr ()"
    using CheckBlockSignature_ok [OF v(4) assms(2)] by (elim exE conjE)
  have g: "fst (GetActor (tenv E) st (bhMiner blk)) = Inr act" "fst (ResolveToKeyAddr E bs st1 worker) = Inr waddr"
    using v(1,3) by simp_all
  have "signed_by_miner E F bs st blk" unfolding signed_by_miner_def
    by (rule exI [of _ st], rule exI [of _ st1], rule exI [of _ act], rule exI [of _ worker], rule exI [of _ waddr],
        rule exI [of _ sig], rule exI [of _ sigb], rule exI [of _ verify]) (intro conjI assms(3) refl t1 g v(2) c)
  with t2 show ?thesis by simp
qed

lemma signed_views: "views st1 = views st \<Longrightarrow> signed_by_miner E F bs st1 blk = signed_by_miner E F bs st blk"
  by (simp add: signed_by_miner_def)

lemma extraFault_cases:
  assumes "extraFault F A ca B extra (pairFault A B) = Inr (Some f)"
  shows "cfTarget f = bhMiner A \<and> cfEpoch f = bhHeight B \<and>
    (case cfType f of
       ConsensusFaultDoubleForkMining \<Rightarrow> bhHeight A = bhHeight B
     | ConsensusFaultTimeOffsetMining \<Rightarrow> bhHeight A \<noteq> bhHeight B \<and> CidArrsEqual (bhParents A) (bhParents B)
     | ConsensusFaultParentGrinding \<Rightarrow> \<exists>Cb cc. DecodeBlock (feCbor F) extra = Inr Cb \<and>
         Header_Cid (feCbor F) (feHash F) Cb = Some cc \<and> grinds A ca B Cb cc)"
  using assms by (auto simp: extraFault_def pairFault_def split: if_splits sum.splits option.splits)

section \<open>Properties\<close>

text \<open>
  C17. A fault is reported only against the miner of two different blocks that carry the miner's
  valid signatures, the first not above the second: two blocks of one height, two blocks on the
  same parents at different heights, or a second block whose parents include a sibling of the
  first and leave the first out. The state is not changed.
\<close>

theorem VerifyConsensusFault_sound:
  assumes "tree_ok (tenv E) st" and "VerifyConsensusFault E F bs st a b extra = (Inr f, st')"
  shows "\<exists>A B ca cb. DecodeBlock (feCbor F) a = Inr A \<and> DecodeBlock (feCbor F) b = Inr B \<and>
    Header_Cid (feCbor F) (feHash F) A = Some ca \<and> Header_Cid (feCbor F) (feHash F) B = Some cb \<and> ca \<noteq> cb \<and>
    cfTarget f = bhMiner A \<and> bhMiner B = bhMiner A \<and> bhHeight A \<le> bhHeight B \<and> cfEpoch f = bhHeight B \<and>
    signed_by_miner E F bs st A \<and> signed_by_miner E F bs st B \<and>
    (case cfType f of
       ConsensusFaultDoubleForkMining \<Rightarrow> bhHeight A = bhHeight B
     | ConsensusFaultTimeOffsetMining \<Rightarrow> bhHeight A \<noteq> bhHeight B \<and> CidArrsEqual (bhParents A) (bhParents B)
     | ConsensusFaultParentGrinding \<Rightarrow> \<exists>Cb cc. DecodeBlock (feCbor F) extra = Inr Cb \<and>
         Header_Cid (feCbor F) (feHash F) Cb = Some cc \<and> grinds A ca B Cb cc) \<and>
    views st' = views st"
proof -
  obtain A B ca cb st1 where v: "DecodeBlock (feCbor F) a = Inr A" "DecodeBlock (feCbor F) b = Inr B"
      "Header_Cid (feCbor F) (feHash F) A = Some ca" "Header_Cid (feCbor F) (feHash F) B = Some cb" "ca \<noteq> cb"
      "bhMiner B = bhMiner A" "bhHeight A \<le> bhHeight B" "extraFault F A ca B extra (pairFault A B) = Inr (Some f)"
      "VerifyBlockSig E F bs st A = (Inr (), st1)" "VerifyBlockSig E F bs st1 B = (Inr (), st')"
    using assms(2) by (auto simp: VerifyConsensusFault_def split: sum.splits option.splits if_splits prod.splits)
  note A = VerifyBlockSig_ok [OF v(9) DecodeBlock_unvalidated [OF v(1)] assms(1)]
  note B = VerifyBlockSig_ok [OF v(10) DecodeBlock_unvalidated [OF v(2)]]
  have "signed_by_miner E F bs st B" "views st' = views st" using A B signed_views [of st1 st] by auto
  with A extraFault_cases [OF v(8)] v(1-7) show ?thesis
    by (elim conjE) (rule exI [of _ A], rule exI [of _ B], rule exI [of _ ca], rule exI [of _ cb], intro conjI; assumption)
qed

text \<open>Two blocks of one miner at height 5 that differ in their parent weight.\<close>

definition wit_fault :: fault_env where
  "wit_fault = \<lparr>feCbor = wit_cbor_env, feHash = Inr, minerWorker = (\<lambda>bs h. Inr ''f9''),
     sigSchemes = (\<lambda>t. Some (\<lambda>sig addr msg. Inr ()))\<rparr>"

definition wit_signed :: "bigint \<Rightarrow> BlockHeader" where
  "wit_signed w = wit_block ''05'' ''1'' [''p''] 5 w\<lparr>bhBlockSig := Some \<lparr>sigType = SigTypeBLS, sigData = ''s''\<rparr>\<rparr>"

lemma wit_signed_codec:
  "\<exists>d. Header_Serialize wit_cbor_env (wit_signed w) = Inr d \<and> DecodeBlock wit_cbor_env d = Inr (wit_signed w)"
proof -
  obtain L where L: "wit_cbor_env = lib L" using lib_cases [OF wit_cbor_laws] .
  have "BlockHeader_valid wit_cbor_env (wit_signed w)"
    by (simp add: BlockHeader_valid_def wit_signed_def wit_block_def wit_cbor_env_def Ticket_valid_def in_i64_def)
  then have "reads (BlockHeader_UnmarshalCBOR wit_cbor_env) (Header_Serialize wit_cbor_env (wit_signed w)) (wit_signed w)"
    using header_codec.roundtrip by (simp add: L Header_Serialize_def)
  from decode_reads [OF this] show ?thesis by (auto simp: DecodeBlock_def dest: spec [of _ "[]"])
qed

lemma wit_VerifyBlockSig:
  assumes "tree_ok wit_tree_env st" "view st ''05'' = Some act"
  shows "\<exists>st'. VerifyBlockSig wit_vm_env wit_fault bs st (wit_signed w) = (Inr (), st') \<and>
    tree_ok wit_tree_env st' \<and> views st' = views st"
proof -
  have "fst (GetActor wit_tree_env st ''05'') = Inr act"
    using GetActorID_spec(1) [OF assms(1), of "''05''"] assms(2) by (simp add: GetActor_id [OF wit_id_addr(1)])
  then obtain st1 where g: "GetActor wit_tree_env st ''05'' = (Inr act, st1)"
    by (cases "GetActor wit_tree_env st ''05''") simp
  have T: "tenv wit_vm_env = wit_tree_env" by (simp add: wit_vm_env_def)
  have r: "ResolveToKeyAddr wit_vm_env bs st1 ''f9'' = (Inr ''f9'', st1)"
    by (simp add: ResolveToKeyAddr_def T) (simp add: wit_tree_env_def)
  obtain d where d: "SigningBytes wit_cbor_env (wit_signed w) = Inr d"
    by (auto simp: SigningBytes_def Header_Serialize_def BlockHeader_MarshalCBOR_def w_ptr_def lengthBuf_def
      wit_cbor_env_def wit_signed_def wit_block_def wit_blob_def wit_num_def Ticket_MarshalCBOR_def
      ElectionProof_MarshalCBOR_def w_bytes_def w_slice_def w_int_def wit_int_def w_uint_def)
  have "Protocol wit_tree_env ''f9'' = ProtoBLS" by (simp add: wit_tree_env_def)
  then have "fst (CheckBlockSignature wit_vm_env wit_fault (wit_signed w) ''f9'') = Inr ()"
    using d by (simp add: CheckBlockSignature_def sigs_Verify_def T wit_fault_def)
      (simp add: wit_signed_def T)
  moreover have "bhMiner (wit_signed w) = ''05''" by (simp add: wit_signed_def wit_block_def)
  ultimately have "VerifyBlockSig wit_vm_env wit_fault bs st (wit_signed w) = (Inr (), st1)"
    using g r by (simp add: VerifyBlockSig_def T wit_fault_def)
  then show ?thesis using GetActor_views [OF assms(1), of "''05''"] g by simp
qed

theorem VerifyConsensusFault_sound_witness:
  "\<exists>a b f st'. VerifyConsensusFault wit_vm_env wit_fault Map.empty wit_tree a b [] = (Inr f, st') \<and>
     cfTarget f = ''05'' \<and> cfEpoch f = 5 \<and> signed_by_miner wit_vm_env wit_fault Map.empty wit_tree (wit_signed 7)"
proof -
  obtain a where a: "Header_Serialize wit_cbor_env (wit_signed 7) = Inr a" "DecodeBlock wit_cbor_env a = Inr (wit_signed 7)"
    using wit_signed_codec by blast
  obtain b where b: "Header_Serialize wit_cbor_env (wit_signed 8) = Inr b" "DecodeBlock wit_cbor_env b = Inr (wit_signed 8)"
    using wit_signed_codec by blast
  have ne: "a \<noteq> b" using a(2) b(2) by (auto simp: wit_signed_def wit_block_def)
  have F: "feCbor wit_fault = wit_cbor_env" "feHash wit_fault = Inr" by (simp_all add: wit_fault_def)
  have c: "Header_Cid wit_cbor_env Inr (wit_signed 7) = Some a" "Header_Cid wit_cbor_env Inr (wit_signed 8) = Some b"
    using a(1) b(1) by (simp_all add: Header_Cid_def Header_ToStorageBlock_def)
  have f: "bhMiner (wit_signed w) = ''05''" "bhHeight (wit_signed w) = 5" for w by (simp_all add: wit_signed_def wit_block_def)
  have v: "view wit_tree ''05'' = Some (wit_actor 100)" by (simp add: wit_view) (simp add: wit_tree_def)
  obtain st1 where s1: "VerifyBlockSig wit_vm_env wit_fault Map.empty wit_tree (wit_signed 7) = (Inr (), st1)"
      "tree_ok wit_tree_env st1" "views st1 = views wit_tree"
    using wit_VerifyBlockSig [OF wit_tree_ok v] by blast
  have "view st1 = view wit_tree"
    using s1(2,3) wit_tree_ok by (cases "layers st1"; cases "layers wit_tree") (auto simp: views_def view_def tree_ok_def)
  then obtain st2 where s2: "VerifyBlockSig wit_vm_env wit_fault Map.empty st1 (wit_signed 8) = (Inr (), st2)"
    using wit_VerifyBlockSig [OF s1(2)] v by (metis (no_types))
  have r: "VerifyConsensusFault wit_vm_env wit_fault Map.empty wit_tree a b [] =
      (Inr \<lparr>cfTarget = ''05'', cfEpoch = 5, cfType = ConsensusFaultDoubleForkMining\<rparr>, st2)"
    by (simp add: VerifyConsensusFault_def F a(2) b(2) c ne f extraFault_def pairFault_def s1(1) s2)
  have "tree_ok (tenv wit_vm_env) wit_tree" using wit_tree_ok by (simp add: wit_vm_env_def)
  from VerifyConsensusFault_sound [OF this r] have "signed_by_miner wit_vm_env wit_fault Map.empty wit_tree (wit_signed 7)"
    using a(2) F by auto
  with r show ?thesis by (intro exI conjI) (assumption | simp)+
qed

end
