(* ===== verification/Sync_Manager.thy ===== *)
theory Sync_Manager
  imports Tipset_Key
begin

text \<open>
  The sync scheduler: \<open>chain/sync_manager.go\<close>.

  \<^item> A bucket is a heap object compared by address in \<open>removeBucket\<close>; its address is the field
    \<open>bkAddr\<close>, and the manager counts the addresses it has given out. A bucket set is the list of
    its buckets.
  \<^item> The values of a Go map are ranged over in an arbitrary order, so a loop over a map takes the
    list of its values in the order of the iteration as an argument.
  \<^item> A nil dereference or \<open>make\<close> with a negative capacity is a panic, the result \<open>None\<close>.
  \<^item> The goroutines are the step relation \<open>sm_step\<close> on the manager, the scheduler loop, the workers
    and the caller of \<open>SetPeerHead\<close> that holds the lock. The channels are unbuffered: a send and
    its receive are one step.
\<close>

section \<open>Buckets\<close>

record syncTargetBucket =
  bkAddr :: nat
  tips :: "TipSet list"
  bkCount :: int

type_synonym syncBucketSet = "syncTargetBucket list"

fun sameChainAs_loop :: "hash_env \<Rightarrow> TipSet \<Rightarrow> TipSet list \<Rightarrow> bool" where
  "sameChainAs_loop E ts [] = False"
| "sameChainAs_loop E ts (t # rest) =
     (if TipSet_Equals E ts t then True
      else if Key ts = Parents t then True
      else if Parents ts = Key t then True
      else sameChainAs_loop E ts rest)"

definition sameChainAs :: "hash_env \<Rightarrow> syncTargetBucket \<Rightarrow> TipSet \<Rightarrow> bool" where
  "sameChainAs E stb ts = sameChainAs_loop E ts (tips stb)"

definition stb_add :: "hash_env \<Rightarrow> syncTargetBucket \<Rightarrow> TipSet \<Rightarrow> syncTargetBucket" where
  "stb_add E stb ts =
     (let stb = stb\<lparr>bkCount := i64 (bkCount stb + 1)\<rparr>
      in if list_ex (\<lambda>t. TipSet_Equals E t ts) (tips stb) then stb
         else stb\<lparr>tips := tips stb @ [ts]\<rparr>)"

definition newSyncTargetBucket :: "hash_env \<Rightarrow> nat \<Rightarrow> TipSet list \<Rightarrow> syncTargetBucket" where
  "newSyncTargetBucket E a tipsets = foldl (stb_add E) \<lparr>bkAddr = a, tips = [], bkCount = 0\<rparr> tipsets"

definition heavier :: "TipSet \<Rightarrow> TipSet \<Rightarrow> bool" where
  "heavier ts best \<longleftrightarrow> ParentWeight ts > ParentWeight best"

fun heaviestTipSet :: "syncTargetBucket option \<Rightarrow> TipSet option" where
  "heaviestTipSet None = None"
| "heaviestTipSet (Some stb) = best_loop heavier None (tips stb)"

section \<open>Bucket sets\<close>

definition RelatedToAny :: "hash_env \<Rightarrow> syncBucketSet \<Rightarrow> TipSet \<Rightarrow> bool" where
  "RelatedToAny E sbs ts = list_ex (\<lambda>b. sameChainAs E b ts) sbs"

text \<open>The argument \<open>a\<close> is the address of the bucket \<open>Insert\<close> allocates when it needs one.\<close>

fun Insert :: "hash_env \<Rightarrow> nat \<Rightarrow> syncBucketSet \<Rightarrow> TipSet \<Rightarrow> syncBucketSet" where
  "Insert E a [] ts = [newSyncTargetBucket E a [ts]]"
| "Insert E a (b # bs) ts =
     (if sameChainAs E b ts then stb_add E b ts # bs else b # Insert E a bs ts)"

definition removeBucket :: "syncBucketSet \<Rightarrow> syncTargetBucket option \<Rightarrow> syncBucketSet option" where
  "removeBucket sbs toremove =
     (if int (length sbs) - 1 < 0 then None
      else Some (filter (\<lambda>b. Some (bkAddr b) \<noteq> map_option bkAddr toremove) sbs))"

fun Pop_loop ::
  "(syncTargetBucket \<times> TipSet option) option \<Rightarrow> syncBucketSet
     \<Rightarrow> (syncTargetBucket \<times> TipSet option) option option" where
  "Pop_loop best [] = Some best"
| "Pop_loop None (b # bs) = Pop_loop (Some (b, heaviestTipSet (Some b))) bs"
| "Pop_loop (Some (bestBuck, bestTs)) (b # bs) =
     (case (bestTs, heaviestTipSet (Some b)) of
        (Some t, Some hts) \<Rightarrow>
          Pop_loop (if ParentWeight t < ParentWeight hts then Some (b, Some hts)
                    else Some (bestBuck, Some t)) bs
      | _ \<Rightarrow> None)"

definition Pop :: "syncBucketSet \<Rightarrow> (syncTargetBucket option \<times> syncBucketSet) option" where
  "Pop sbs =
     (case Pop_loop None sbs of
        None \<Rightarrow> None
      | Some best \<Rightarrow>
          (case removeBucket sbs (map_option fst best) of
             None \<Rightarrow> None
           | Some sbs' \<Rightarrow> Some (map_option fst best, sbs')))"

fun PopRelated_loop :: "hash_env \<Rightarrow> syncBucketSet \<Rightarrow> TipSet \<Rightarrow> syncTargetBucket option" where
  "PopRelated_loop E [] ts = None"
| "PopRelated_loop E (b # bs) ts = (if sameChainAs E b ts then Some b else PopRelated_loop E bs ts)"

definition PopRelated ::
  "hash_env \<Rightarrow> syncBucketSet \<Rightarrow> TipSet \<Rightarrow> (syncTargetBucket option \<times> syncBucketSet) option" where
  "PopRelated E sbs ts =
     (case PopRelated_loop E sbs ts of
        None \<Rightarrow> Some (None, sbs)
      | Some b \<Rightarrow> map_option (\<lambda>sbs'. (Some b, sbs')) (removeBucket sbs (Some b)))"

fun Heaviest_loop :: "TipSet option \<Rightarrow> syncBucketSet \<Rightarrow> TipSet option option" where
  "Heaviest_loop bestTs [] = Some bestTs"
| "Heaviest_loop None (b # bs) = Heaviest_loop (heaviestTipSet (Some b)) bs"
| "Heaviest_loop (Some best) (b # bs) =
     (case heaviestTipSet (Some b) of
        None \<Rightarrow> None
      | Some bhts \<Rightarrow>
          Heaviest_loop (Some (if ParentWeight bhts > ParentWeight best then bhts else best)) bs)"

definition Heaviest :: "syncBucketSet \<Rightarrow> TipSet option option" where
  "Heaviest sbs = Heaviest_loop None sbs"

definition Empty :: "syncBucketSet \<Rightarrow> bool" where
  "Empty sbs \<longleftrightarrow> length sbs = 0"

section \<open>The manager\<close>

datatype bootstrap = BSStateInit | BSStateSelected | BSStateScheduled | BSStateComplete

record 'p SyncManager =
  peerHeads :: "'p \<rightharpoonup> TipSet"
  bootstrapState :: bootstrap
  bspThresh :: int
  activeSyncs :: "TipSetKey \<rightharpoonup> TipSet"
  syncQueue :: syncBucketSet
  activeSyncTips :: syncBucketSet
  nextSyncTarget :: "syncTargetBucket option"
  workerChan :: bool
  heapNext :: nat

record syncResult =
  resTs :: TipSet
  resSuccess :: bool

definition syncWorkerCount :: nat where
  "syncWorkerCount = 3"

definition NewSyncManager :: "'p SyncManager" where
  "NewSyncManager =
     \<lparr>peerHeads = Map.empty, bootstrapState = BSStateInit, bspThresh = 1, activeSyncs = Map.empty,
      syncQueue = [], activeSyncTips = [], nextSyncTarget = None, workerChan = False, heapNext = 0\<rparr>"

definition syncedPeerCount :: "TipSet list \<Rightarrow> int" where
  "syncedPeerCount heads = int (length (filter (\<lambda>ts. tsHeight ts > 0) heads))"

definition IsBootstrapped :: "'p SyncManager \<Rightarrow> bool" where
  "IsBootstrapped sm \<longleftrightarrow> bootstrapState sm = BSStateComplete"

fun Insert_all :: "hash_env \<Rightarrow> nat \<Rightarrow> syncBucketSet \<Rightarrow> TipSet list \<Rightarrow> syncBucketSet" where
  "Insert_all E a sbs [] = sbs"
| "Insert_all E a sbs (ts # rest) = Insert_all E (Suc a) (Insert E a sbs ts) rest"

definition selectSyncTarget :: "hash_env \<Rightarrow> TipSet list \<Rightarrow> TipSet option option" where
  "selectSyncTarget E heads =
     Heaviest (Insert_all E 0 [] (sort_slice (\<lambda>a b. tsHeight a < tsHeight b) heads))"

text \<open>
  The second component is what the caller sends on \<open>incomingTipSets\<close>, if anything. \<open>heads\<close> are
  the peer heads, the new one included, in the order of the iterations.
\<close>

definition SetPeerHead ::
  "hash_env \<Rightarrow> TipSet list \<Rightarrow> 'p SyncManager \<Rightarrow> 'p \<Rightarrow> TipSet
     \<Rightarrow> ('p SyncManager \<times> TipSet option option) option" where
  "SetPeerHead E heads sm p ts =
     (let sm = sm\<lparr>peerHeads := (peerHeads sm)(p \<mapsto> ts)\<rparr>
      in if bootstrapState sm = BSStateInit
         then if syncedPeerCount heads \<ge> bspThresh sm
              then case selectSyncTarget E heads of
                     None \<Rightarrow> None
                   | Some target \<Rightarrow> Some (sm\<lparr>bootstrapState := BSStateSelected\<rparr>, Some target)
              else Some (sm, None)
         else Some (sm, Some (Some ts)))"

fun active_loop :: "hash_env \<Rightarrow> TipSet \<Rightarrow> bool \<Rightarrow> TipSet list \<Rightarrow> bool" where
  "active_loop E ts related [] = related"
| "active_loop E ts related (acts # rest) =
     (if TipSet_Equals E ts acts then related
      else active_loop E ts (if Parents ts = Key acts then True else related) rest)"

text \<open>
  The second component is the tipset the scheduler goes on to send to a worker itself, during
  bootstrap. \<open>acts\<close> are the active syncs in the order of the iteration.
\<close>

definition scheduleIncoming ::
  "hash_env \<Rightarrow> TipSet list \<Rightarrow> 'p SyncManager \<Rightarrow> TipSet \<Rightarrow> ('p SyncManager \<times> TipSet option) option" where
  "scheduleIncoming E acts sm ts =
     (if bootstrapState sm = BSStateSelected
      then Some (sm\<lparr>bootstrapState := BSStateScheduled\<rparr>, Some ts)
      else
        let relatedToActiveSync = active_loop E ts False acts;
            relatedToActiveSync =
              (if \<not> relatedToActiveSync \<and> RelatedToAny E (activeSyncTips sm) ts then True
               else relatedToActiveSync);
            a = heapNext sm
        in if relatedToActiveSync
           then Some (sm\<lparr>activeSyncTips := Insert E a (activeSyncTips sm) ts, heapNext := Suc a\<rparr>, None)
           else if bootstrapState sm = BSStateScheduled
           then Some (sm\<lparr>syncQueue := Insert E a (syncQueue sm) ts, heapNext := Suc a\<rparr>, None)
           else
             (case nextSyncTarget sm of
                Some b \<Rightarrow>
                  if sameChainAs E b ts then Some (sm\<lparr>nextSyncTarget := Some (stb_add E b ts)\<rparr>, None)
                  else Some (sm\<lparr>syncQueue := Insert E a (syncQueue sm) ts, heapNext := Suc a\<rparr>, None)
              | None \<Rightarrow>
                  (case Pop (Insert E a (syncQueue sm) ts) of
                     None \<Rightarrow> None
                   | Some (next, q) \<Rightarrow>
                       Some (sm\<lparr>syncQueue := q, heapNext := Suc a, nextSyncTarget := next,
                                workerChan := True\<rparr>, None))))"

text \<open>The end of \<open>scheduleProcessResult\<close>, reached unless a related bucket was scheduled.\<close>

definition process_next :: "'p SyncManager \<Rightarrow> 'p SyncManager option" where
  "process_next sm =
     (if nextSyncTarget sm = None \<and> \<not> Empty (syncQueue sm)
      then case Pop (syncQueue sm) of
             None \<Rightarrow> None
           | Some (None, q) \<Rightarrow> Some (sm\<lparr>syncQueue := q\<rparr>)
           | Some (Some nxt, q) \<Rightarrow>
               Some (sm\<lparr>syncQueue := q, nextSyncTarget := Some nxt, workerChan := True\<rparr>)
      else Some sm)"

definition scheduleProcessResult :: "hash_env \<Rightarrow> 'p SyncManager \<Rightarrow> syncResult \<Rightarrow> 'p SyncManager option" where
  "scheduleProcessResult E sm res =
     (let sm = (if resSuccess res \<and> bootstrapState sm \<noteq> BSStateComplete
                then sm\<lparr>bootstrapState := BSStateComplete\<rparr> else sm);
          sm = sm\<lparr>activeSyncs := (activeSyncs sm)(Key (resTs res) := None)\<rparr>
      in case PopRelated E (activeSyncTips sm) (resTs res) of
           None \<Rightarrow> None
         | Some (relbucket, atips) \<Rightarrow>
             (let sm = sm\<lparr>activeSyncTips := atips\<rparr>
              in case relbucket of
                   Some b \<Rightarrow>
                     if resSuccess res
                     then if nextSyncTarget sm = None
                          then Some (sm\<lparr>nextSyncTarget := Some b, workerChan := True\<rparr>)
                          else Some (sm\<lparr>syncQueue := syncQueue sm @ [b]\<rparr>)
                     else process_next sm
                 | None \<Rightarrow> process_next sm))"

definition scheduleWorkSent :: "'p SyncManager \<Rightarrow> 'p SyncManager option" where
  "scheduleWorkSent sm =
     (case heaviestTipSet (nextSyncTarget sm) of
        None \<Rightarrow> None
      | Some hts \<Rightarrow>
          (let sm = sm\<lparr>activeSyncs := (activeSyncs sm)(Key hts \<mapsto> hts)\<rparr>
           in if \<not> Empty (syncQueue sm)
              then map_option (\<lambda>(next, q). sm\<lparr>syncQueue := q, nextSyncTarget := next\<rparr>) (Pop (syncQueue sm))
              else Some (sm\<lparr>nextSyncTarget := None, workerChan := False\<rparr>)))"

section \<open>The goroutines\<close>

text \<open>
  A worker waits for a target, runs \<open>doSync\<close> on it, or waits to hand its result to the scheduler.
  The scheduler waits in its \<open>select\<close>, is blocked in the send of the bootstrap target, has stopped,
  or has panicked.
\<close>

datatype worker = WIdle | WSync TipSet | WReport TipSet bool

datatype sched = SWait | SSend TipSet | SStop | SPanic

record 'p sys =
  sysSM :: "'p SyncManager"
  sysSched :: sched
  sysWorkers :: "worker list"
  sysPending :: "TipSet option option"

definition sys_init :: "'p sys" where
  "sys_init = \<lparr>sysSM = NewSyncManager, sysSched = SWait,
     sysWorkers = replicate syncWorkerCount WIdle, sysPending = None\<rparr>"

definition after_peer :: "'p sys \<Rightarrow> ('p SyncManager \<times> TipSet option option) option \<Rightarrow> 'p sys" where
  "after_peer s r = (case r of None \<Rightarrow> s\<lparr>sysSched := SPanic\<rparr>
     | Some (sm, msg) \<Rightarrow> s\<lparr>sysSM := sm, sysPending := msg\<rparr>)"

definition after_incoming :: "'p sys \<Rightarrow> ('p SyncManager \<times> TipSet option) option \<Rightarrow> 'p sys" where
  "after_incoming s r = (case r of None \<Rightarrow> s\<lparr>sysSched := SPanic\<rparr>
     | Some (sm, target) \<Rightarrow> s\<lparr>sysSM := sm, sysPending := None,
         sysSched := (case target of None \<Rightarrow> SWait | Some ts \<Rightarrow> SSend ts)\<rparr>)"

definition after_worker :: "'p sys \<Rightarrow> nat \<Rightarrow> worker \<Rightarrow> 'p SyncManager option \<Rightarrow> 'p sys" where
  "after_worker s i w r = (case r of None \<Rightarrow> s\<lparr>sysSched := SPanic\<rparr>
     | Some sm \<Rightarrow> s\<lparr>sysSM := sm, sysWorkers := (sysWorkers s)[i := w]\<rparr>)"

text \<open>The steps between the scheduler and its workers, and all steps: heads of peers come in too,
  and the manager may be stopped.\<close>

inductive sm_internal :: "hash_env \<Rightarrow> 'p sys \<Rightarrow> 'p sys \<Rightarrow> bool" for E where
  target: "sysSched s = SSend ts \<Longrightarrow> i < length (sysWorkers s) \<Longrightarrow> sysWorkers s ! i = WIdle \<Longrightarrow>
     sm_internal E s (s\<lparr>sysSched := SWait, sysWorkers := (sysWorkers s)[i := WSync ts]\<rparr>)"
| work: "sysSched s = SWait \<Longrightarrow> workerChan (sysSM s) \<Longrightarrow> i < length (sysWorkers s) \<Longrightarrow> sysWorkers s ! i = WIdle \<Longrightarrow>
     sm_internal E s (after_worker s i (WSync (the (heaviestTipSet (nextSyncTarget (sysSM s))))) (scheduleWorkSent (sysSM s)))"
| synced: "i < length (sysWorkers s) \<Longrightarrow> sysWorkers s ! i = WSync ts \<Longrightarrow>
     sm_internal E s (s\<lparr>sysWorkers := (sysWorkers s)[i := WReport ts ok]\<rparr>)"
| result: "sysSched s = SWait \<Longrightarrow> i < length (sysWorkers s) \<Longrightarrow> sysWorkers s ! i = WReport ts ok \<Longrightarrow>
     sm_internal E s (after_worker s i WIdle (scheduleProcessResult E (sysSM s) \<lparr>resTs = ts, resSuccess = ok\<rparr>))"

inductive sm_step :: "hash_env \<Rightarrow> 'p sys \<Rightarrow> 'p sys \<Rightarrow> bool" for E where
  internal: "sm_internal E s s' \<Longrightarrow> sm_step E s s'"
| peer: "sysPending s = None \<Longrightarrow> iteration ((peerHeads (sysSM s))(p \<mapsto> ts)) heads \<Longrightarrow>
     sm_step E s (after_peer s (SetPeerHead E heads (sysSM s) p ts))"
| incoming: "sysSched s = SWait \<Longrightarrow> sysPending s = Some msg \<Longrightarrow> iteration (activeSyncs (sysSM s)) acts \<Longrightarrow>
     sm_step E s (after_incoming s (case msg of None \<Rightarrow> None | Some ts \<Rightarrow> scheduleIncoming E acts (sysSM s) ts))"
| stop: "sysSched s = SWait \<Longrightarrow> sm_step E s (s\<lparr>sysSched := SStop\<rparr>)"

inductive_cases sm_internalE: "sm_internal E s s'"
inductive_cases sm_stepE: "sm_step E s s'"

definition reachable :: "hash_env \<Rightarrow> 'p sys \<Rightarrow> bool" where
  "reachable E s \<longleftrightarrow> (sm_step E)\<^sup>*\<^sup>* sys_init s"

section \<open>Lemmas on buckets\<close>

interpretation weight: strict_weak UNIV "\<lambda>x y. ParentWeight x < ParentWeight y"
  by (rule strict_weak_key)

definition buckets_ok :: "nat \<Rightarrow> syncBucketSet \<Rightarrow> bool" where
  "buckets_ok n sbs \<longleftrightarrow>
     (\<forall>b \<in> set sbs. tips b \<noteq> [] \<and> bkAddr b < n) \<and> distinct (map bkAddr sbs)"

lemma buckets_ok_simps [simp]:
  "buckets_ok n []"
  "buckets_ok n (b # sbs) \<longleftrightarrow> tips b \<noteq> [] \<and> bkAddr b < n \<and> bkAddr b \<notin> bkAddr ` set sbs \<and> buckets_ok n sbs"
  by (auto simp: buckets_ok_def)

lemma buckets_ok_append:
  "buckets_ok n (xs @ ys) \<longleftrightarrow> buckets_ok n xs \<and> buckets_ok n ys \<and> bkAddr ` set xs \<inter> bkAddr ` set ys = {}"
  by (auto simp: buckets_ok_def)

lemma buckets_ok_mset: "mset xs = mset ys \<Longrightarrow> buckets_ok n xs \<longleftrightarrow> buckets_ok n ys"
  unfolding buckets_ok_def by (metis mset_eq_imp_distinct_iff mset_map set_mset_mset)

lemma buckets_ok_mono: "buckets_ok n sbs \<Longrightarrow> n \<le> m \<Longrightarrow> buckets_ok m sbs"
  by (fastforce simp: buckets_ok_def)

lemma sameChainAs_loop_iff:
  "sameChainAs_loop E ts xs \<longleftrightarrow>
     (\<exists>t \<in> set xs. TipSet_Equals E ts t \<or> Key ts = Parents t \<or> Parents ts = Key t)"
  by (induction xs) auto

lemma stb_add_simps [simp]:
  "bkAddr (stb_add E b ts) = bkAddr b" "tips (stb_add E b ts) \<noteq> []"
  "set (tips b) \<subseteq> set (tips (stb_add E b ts))" "set (tips (stb_add E b ts)) \<subseteq> insert ts (set (tips b))"
  by (auto simp: stb_add_def Let_def list_ex_iff)

lemma newSyncTargetBucket_one [simp]:
  "newSyncTargetBucket E a [ts] = \<lparr>bkAddr = a, tips = [ts], bkCount = 1\<rparr>"
  by (simp add: newSyncTargetBucket_def stb_add_def i64_def)

lemma Insert_addrs: "bkAddr ` set (Insert E a sbs ts) \<subseteq> insert a (bkAddr ` set sbs)"
  by (induction sbs) auto

lemma Insert_not_Nil [simp]: "Insert E a sbs ts \<noteq> []"
  by (cases sbs) auto

lemma buckets_ok_Insert: "buckets_ok a sbs \<Longrightarrow> buckets_ok (Suc a) (Insert E a sbs ts)"
proof (induction sbs)
  case (Cons b sbs)
  then show ?case using Insert_addrs [of E a sbs ts] buckets_ok_mono [of a sbs "Suc a"] by auto
qed simp

lemma heaviest_Some: "tips b \<noteq> [] \<Longrightarrow> \<exists>ts. heaviestTipSet (Some b) = Some ts"
  by (metis best_loop_None_iff heaviestTipSet.simps(2) not_None_eq)

lemma heaviest_best:
  assumes "heaviestTipSet (Some b) = Some ts"
  shows "ts \<in> set (tips b)" and "t \<in> set (tips b) \<Longrightarrow> ParentWeight t \<le> ParentWeight ts"
proof -
  have h: "heavier = (\<lambda>x b. ParentWeight b < ParentWeight x)" by (intro ext) (simp add: heavier_def)
  have r: "best_loop (\<lambda>x b. ParentWeight b < ParentWeight x) None (tips b) = Some ts"
    using assms by (simp add: h)
  show "ts \<in> set (tips b)" using best_loop_in [OF r] by simp
  show "t \<in> set (tips b) \<Longrightarrow> ParentWeight t \<le> ParentWeight ts"
    using weight.best_loop_best [OF r] by (simp add: not_less)
qed

text \<open>What \<open>Pop\<close> and \<open>Heaviest\<close> compare the buckets by.\<close>

definition bucket_weight :: "syncTargetBucket \<Rightarrow> int" where
  "bucket_weight b = ParentWeight (the (heaviestTipSet (Some b)))"

lemma bucket_weight_max: "tips b \<noteq> [] \<Longrightarrow> bucket_weight b = Max (ParentWeight ` set (tips b))"
  unfolding bucket_weight_def
  by (rule Max_eqI [symmetric]) (use heaviest_Some [of b] heaviest_best [of b] in auto)

lemma Pop_loop_Some:
  assumes "\<forall>b \<in> set sbs. tips b \<noteq> []" and "tips b0 \<noteq> []"
  shows "\<exists>b. Pop_loop (Some (b0, heaviestTipSet (Some b0))) sbs = Some (Some (b, heaviestTipSet (Some b))) \<and>
     b \<in> insert b0 (set sbs) \<and> (\<forall>c \<in> insert b0 (set sbs). bucket_weight c \<le> bucket_weight b)"
  using assms
proof (induction sbs arbitrary: b0)
  case (Cons c sbs)
  obtain t h where th: "heaviestTipSet (Some b0) = Some t" "heaviestTipSet (Some c) = Some h"
    using Cons.prems heaviest_Some by (metis list.set_intros(1))
  define d where "d = (if ParentWeight t < ParentWeight h then c else b0)"
  have d: "tips d \<noteq> []" using Cons.prems by (simp add: d_def)
  have pl: "Pop_loop (Some (b0, heaviestTipSet (Some b0))) (c # sbs) = Pop_loop (Some (d, heaviestTipSet (Some d))) sbs"
    using th by (simp add: d_def del: heaviestTipSet.simps)
  have w: "bucket_weight b0 \<le> bucket_weight d" "bucket_weight c \<le> bucket_weight d" "d \<in> {b0, c}"
    using th by (simp_all add: d_def bucket_weight_def del: heaviestTipSet.simps)
  have "\<forall>b \<in> set sbs. tips b \<noteq> []" using Cons.prems(1) by simp
  from Cons.IH [OF this d] obtain b where
    b: "Pop_loop (Some (d, heaviestTipSet (Some d))) sbs = Some (Some (b, heaviestTipSet (Some b)))"
       "b \<in> insert d (set sbs)" "\<forall>c \<in> insert d (set sbs). bucket_weight c \<le> bucket_weight b"
    by blast
  have "bucket_weight d \<le> bucket_weight b" using b(3) by simp
  then have "\<forall>e \<in> insert b0 (set (c # sbs)). bucket_weight e \<le> bucket_weight b"
    using w(1,2) b(3) by auto
  moreover have "b \<in> insert b0 (set (c # sbs))" using b(2) w(3) by auto
  ultimately show ?case using pl b(1) by (metis (no_types, lifting))
qed simp

lemma remove_bucket_filter:
  "distinct (map bkAddr sbs) \<Longrightarrow> b \<in> set sbs \<Longrightarrow>
     mset sbs = add_mset b (mset (filter (\<lambda>c. bkAddr c \<noteq> bkAddr b) sbs))"
proof (induction sbs)
  case (Cons c sbs)
  show ?case
  proof (cases "c = b")
    case True
    with Cons.prems have "filter (\<lambda>c. bkAddr c \<noteq> bkAddr b) sbs = sbs" by (auto simp: filter_id_conv image_iff)
    with True show ?thesis by simp
  next
    case False
    with Cons.prems have "bkAddr c \<noteq> bkAddr b" by auto
    with False Cons show ?thesis by simp
  qed
qed simp

lemma Pop_ok:
  assumes "buckets_ok n sbs" and "sbs \<noteq> []"
  obtains b q where "Pop sbs = Some (Some b, q)" "mset sbs = add_mset b (mset q)"
    "\<And>c. c \<in> set sbs \<Longrightarrow> bucket_weight c \<le> bucket_weight b"
proof -
  obtain b0 rest where sbs: "sbs = b0 # rest" using assms(2) by (cases sbs) auto
  with assms(1) have "\<forall>b \<in> set rest. tips b \<noteq> []" "tips b0 \<noteq> []" by (auto simp: buckets_ok_def)
  from Pop_loop_Some [OF this] obtain b where
    b: "Pop_loop None sbs = Some (Some (b, heaviestTipSet (Some b)))" "b \<in> set sbs"
       "\<forall>c \<in> set sbs. bucket_weight c \<le> bucket_weight b"
    unfolding sbs by (auto simp del: heaviestTipSet.simps)
  have "removeBucket sbs (Some b) = Some (filter (\<lambda>c. bkAddr c \<noteq> bkAddr b) sbs)"
    using assms(2) by (simp add: removeBucket_def)
  then have "Pop sbs = Some (Some b, filter (\<lambda>c. bkAddr c \<noteq> bkAddr b) sbs)"
    using b(1) by (simp add: Pop_def)
  moreover have "distinct (map bkAddr sbs)" using assms(1) by (simp add: buckets_ok_def)
  ultimately show thesis using that remove_bucket_filter [OF _ b(2)] b(3) by blast
qed

lemma PopRelated_loop_Some: "PopRelated_loop E sbs ts = Some b \<Longrightarrow> b \<in> set sbs \<and> sameChainAs E b ts"
  by (induction sbs) (auto split: if_splits)

lemma PopRelated_loop_None: "PopRelated_loop E sbs ts = None \<longleftrightarrow> \<not> RelatedToAny E sbs ts"
  by (induction sbs) (auto simp: RelatedToAny_def)

lemma PopRelated_ok:
  assumes "buckets_ok n sbs"
  shows "PopRelated E sbs ts = Some (None, sbs) \<and> \<not> RelatedToAny E sbs ts \<or>
    (\<exists>b q. PopRelated E sbs ts = Some (Some b, q) \<and> mset sbs = add_mset b (mset q) \<and> sameChainAs E b ts)"
proof (cases "PopRelated_loop E sbs ts")
  case None
  then show ?thesis using PopRelated_loop_None [of E sbs ts] by (simp add: PopRelated_def)
next
  case (Some b)
  note b = PopRelated_loop_Some [OF Some]
  then have "sbs \<noteq> []" by auto
  moreover have "distinct (map bkAddr sbs)" using assms by (simp add: buckets_ok_def)
  ultimately show ?thesis
    using Some b remove_bucket_filter [of sbs b] by (simp add: PopRelated_def removeBucket_def)
qed

lemma buckets_ok_Insert_ctx:
  assumes "buckets_ok a (xs @ sbs @ ys)"
  shows "buckets_ok (Suc a) (xs @ Insert E a sbs ts @ ys)"
proof -
  let ?I = "Insert E a sbs ts"
  have new: "a \<notin> bkAddr ` set xs" "a \<notin> bkAddr ` set ys" using assms by (auto simp: buckets_ok_def)
  have ok: "buckets_ok a xs" "buckets_ok a sbs" "buckets_ok a ys"
    and dj: "bkAddr ` set sbs \<inter> bkAddr ` set ys = {}" "bkAddr ` set xs \<inter> (bkAddr ` set sbs \<union> bkAddr ` set ys) = {}"
    using assms by (simp_all add: buckets_ok_append image_Un)
  have sub: "I \<inter> X = {}" if "I \<subseteq> insert a S" "a \<notin> X" "S \<inter> X = {}" for I S X :: "nat set" using that by blast
  have dj': "bkAddr ` set ?I \<inter> bkAddr ` set ys = {}" "bkAddr ` set ?I \<inter> bkAddr ` set xs = {}"
    by (rule sub [OF Insert_addrs]; use dj new in \<open>simp add: Int_commute Int_Un_distrib\<close>)+
  have "buckets_ok (Suc a) xs" "buckets_ok (Suc a) ys" by (rule buckets_ok_mono [OF _ le_SucI [OF order_refl]], fact ok)+
  with buckets_ok_Insert [OF ok(2)] dj dj' show ?thesis
    by (simp add: buckets_ok_append image_Un Int_Un_distrib Int_commute)
qed

section \<open>Choosing the bootstrap target\<close>

definition all_tips :: "syncBucketSet \<Rightarrow> TipSet set" where
  "all_tips sbs = (\<Union>b \<in> set sbs. set (tips b))"

lemma all_tips_simps [simp]: "all_tips [] = {}" "all_tips (b # sbs) = set (tips b) \<union> all_tips sbs"
  by (auto simp: all_tips_def)

lemma Insert_tips_sub: "all_tips (Insert E a sbs ts) \<subseteq> insert ts (all_tips sbs)"
  by (induction sbs) (auto dest: subsetD [OF stb_add_simps(4)])

lemma stb_add_has: "\<exists>t \<in> set (tips (stb_add E b ts)). TipSet_Equals E t ts"
  by (auto simp: stb_add_def Let_def list_ex_iff)

lemma Insert_tips_has:
  "all_tips sbs \<subseteq> all_tips (Insert E a sbs ts)" "\<exists>t \<in> all_tips (Insert E a sbs ts). TipSet_Equals E t ts"
  by (induction sbs) (auto simp: stb_add_has bex_Un dest: subsetD [OF stb_add_simps(3)])

lemma Insert_all_tips_mono: "all_tips sbs \<subseteq> all_tips (Insert_all E a sbs tss)"
  by (induction tss arbitrary: sbs a) (auto dest: subsetD [OF Insert_tips_has(1)])

lemma Insert_all_tips_sub: "all_tips (Insert_all E a sbs tss) \<subseteq> set tss \<union> all_tips sbs"
proof (induction tss arbitrary: sbs a)
  case (Cons t tss)
  show ?case using Cons [of "Suc a" "Insert E a sbs t"] Insert_tips_sub [of E a sbs t] by auto
qed simp

lemma Insert_all_tips_has:
  "ts \<in> set tss \<Longrightarrow> \<exists>t \<in> all_tips (Insert_all E a sbs tss). TipSet_Equals E t ts"
proof (induction tss arbitrary: sbs a)
  case (Cons t tss)
  show ?case
  proof (cases "ts = t")
    case True
    then show ?thesis using Insert_tips_has(2) [of E a sbs t]
        Insert_all_tips_mono [of "Insert E a sbs t" E "Suc a" tss] by auto
  next
    case False
    then show ?thesis using Cons by simp
  qed
qed simp

lemma Insert_all_ok: "buckets_ok a sbs \<Longrightarrow> buckets_ok (a + length tss) (Insert_all E a sbs tss)"
proof (induction tss arbitrary: sbs a)
  case (Cons t tss)
  from Cons.IH [OF buckets_ok_Insert [OF Cons.prems]] show ?case by simp
qed simp

lemma Insert_all_not_Nil: "tss \<noteq> [] \<or> sbs \<noteq> [] \<Longrightarrow> Insert_all E a sbs tss \<noteq> []"
  by (induction tss arbitrary: sbs a) auto

lemma Heaviest_loop_Some:
  assumes "\<forall>b \<in> set sbs. tips b \<noteq> []"
  shows "\<exists>ts. Heaviest_loop (Some t0) sbs = Some (Some ts) \<and> ts \<in> insert t0 (all_tips sbs) \<and>
     (\<forall>t \<in> insert t0 (all_tips sbs). ParentWeight t \<le> ParentWeight ts)"
  using assms
proof (induction sbs arbitrary: t0)
  case (Cons b sbs)
  obtain h where h: "heaviestTipSet (Some b) = Some h" using Cons.prems heaviest_Some by auto
  define t1 where "t1 = (if ParentWeight h > ParentWeight t0 then h else t0)"
  have pl: "Heaviest_loop (Some t0) (b # sbs) = Heaviest_loop (Some t1) sbs"
    using h by (simp add: t1_def del: heaviestTipSet.simps)
  have t1: "t1 \<in> insert t0 (set (tips b))" "\<forall>t \<in> insert t0 (set (tips b)). ParentWeight t \<le> ParentWeight t1"
    using heaviest_best [OF h] by (force simp: t1_def)+
  have "\<forall>b \<in> set sbs. tips b \<noteq> []" using Cons.prems by simp
  from Cons.IH [OF this, of t1] obtain ts where
    ts: "Heaviest_loop (Some t1) sbs = Some (Some ts)" "ts \<in> insert t1 (all_tips sbs)"
        "\<forall>t \<in> insert t1 (all_tips sbs). ParentWeight t \<le> ParentWeight ts" by blast
  have "ParentWeight t1 \<le> ParentWeight ts" using ts(3) by simp
  then have "\<forall>t \<in> insert t0 (all_tips (b # sbs)). ParentWeight t \<le> ParentWeight ts"
    using t1(2) ts(3) by fastforce
  moreover have "ts \<in> insert t0 (all_tips (b # sbs))" using ts(2) t1(1) by auto
  ultimately show ?case using pl ts(1) by (metis (no_types, lifting))
qed simp

lemma Heaviest_ok:
  assumes "buckets_ok n sbs" and "sbs \<noteq> []"
  obtains ts where "Heaviest sbs = Some (Some ts)" "ts \<in> all_tips sbs"
    "\<And>t. t \<in> all_tips sbs \<Longrightarrow> ParentWeight t \<le> ParentWeight ts"
proof -
  obtain b rest where sbs: "sbs = b # rest" using assms(2) by (cases sbs) auto
  with assms(1) have ne: "tips b \<noteq> []" "\<forall>b \<in> set rest. tips b \<noteq> []" by (auto simp: buckets_ok_def)
  obtain h where h: "heaviestTipSet (Some b) = Some h" using heaviest_Some [OF ne(1)] by blast
  from Heaviest_loop_Some [OF ne(2), of h] obtain ts where
    ts: "Heaviest_loop (Some h) rest = Some (Some ts)" "ts \<in> insert h (all_tips rest)"
        "\<forall>t \<in> insert h (all_tips rest). ParentWeight t \<le> ParentWeight ts" by blast
  have "Heaviest sbs = Some (Some ts)"
    using h ts(1) by (simp add: Heaviest_def sbs del: heaviestTipSet.simps)
  moreover have "ts \<in> all_tips sbs" using ts(2) heaviest_best(1) [OF h] by (auto simp: sbs)
  moreover have "ParentWeight h \<le> ParentWeight ts" using ts(3) by simp
  then have "ParentWeight t \<le> ParentWeight ts" if "t \<in> all_tips sbs" for t
    using that ts(3) heaviest_best(2) [OF h, of t] by (auto simp: sbs)
  ultimately show thesis using that by blast
qed

lemma selectSyncTarget_ok:
  assumes "heads \<noteq> []"
  obtains ts where "selectSyncTarget E heads = Some (Some ts)" "ts \<in> set heads"
    "\<And>h. h \<in> set heads \<Longrightarrow> \<exists>t \<in> set heads. TipSet_Equals E t h \<and> ParentWeight t \<le> ParentWeight ts"
proof -
  define tss where "tss = sort_slice (\<lambda>a b. tsHeight a < tsHeight b) heads"
  define sbs where "sbs = Insert_all E 0 [] tss"
  have ok: "buckets_ok (0 + length tss) sbs" unfolding sbs_def by (rule Insert_all_ok) simp
  have ne: "sbs \<noteq> []" unfolding sbs_def
    by (rule Insert_all_not_Nil) (use assms in \<open>simp add: tss_def\<close>)
  have sub: "all_tips sbs \<subseteq> set heads"
    using Insert_all_tips_sub [of E 0 "[]" tss] by (simp add: sbs_def tss_def)
  obtain ts where ts: "Heaviest sbs = Some (Some ts)" "ts \<in> all_tips sbs"
    "\<And>t. t \<in> all_tips sbs \<Longrightarrow> ParentWeight t \<le> ParentWeight ts" by (rule Heaviest_ok [OF ok ne]) blast
  show thesis
  proof (rule that)
    show "selectSyncTarget E heads = Some (Some ts)"
      using ts(1) by (simp add: selectSyncTarget_def sbs_def tss_def)
    show "ts \<in> set heads" using ts(2) sub by blast
    fix h assume "h \<in> set heads"
    then have "h \<in> set tss" by (simp add: tss_def)
    from Insert_all_tips_has [OF this, of E 0 "[]"] obtain t where "t \<in> all_tips sbs" "TipSet_Equals E t h"
      by (auto simp: sbs_def)
    with ts(3) sub show "\<exists>t \<in> set heads. TipSet_Equals E t h \<and> ParentWeight t \<le> ParentWeight ts" by blast
  qed
qed

end
