(* ===== verification/Sync_Inv.thy ===== *)
theory Sync_Inv
  imports Sync_Manager
begin

text \<open>
  The invariant of the sync scheduler and its consequences: the scheduler never panics, never
  blocks for good, and after bootstrap never leaves a worker idle while a target waits. Also the
  behaviour that holds it up for good during bootstrap.
\<close>

section \<open>Invariant\<close>

definition all_buckets :: "'p SyncManager \<Rightarrow> syncBucketSet" where
  "all_buckets sm = syncQueue sm @ activeSyncTips sm @
     (case nextSyncTarget sm of None \<Rightarrow> [] | Some b \<Rightarrow> [b])"

definition sm_ok :: "'p SyncManager \<Rightarrow> bool" where
  "sm_ok sm \<longleftrightarrow> buckets_ok (heapNext sm) (all_buckets sm) \<and>
     (workerChan sm \<longleftrightarrow> nextSyncTarget sm \<noteq> None) \<and> 0 < bspThresh sm \<and>
     (bootstrapState sm = BSStateComplete \<longrightarrow> syncQueue sm \<noteq> [] \<longrightarrow> nextSyncTarget sm \<noteq> None) \<and>
     finite (dom (activeSyncs sm))"

definition sm_quiet :: "'p SyncManager \<Rightarrow> bool" where
  "sm_quiet sm \<longleftrightarrow> nextSyncTarget sm = None \<and> syncQueue sm = [] \<and> activeSyncTips sm = [] \<and>
     activeSyncs sm = Map.empty"

definition works_on :: "worker \<Rightarrow> TipSet \<Rightarrow> bool" where
  "works_on w ts \<longleftrightarrow> w = WSync ts \<or> (\<exists>ok. w = WReport ts ok)"

definition busy :: "worker list \<Rightarrow> TipSet \<Rightarrow> bool" where
  "busy ws ts \<longleftrightarrow> (\<exists>w \<in> set ws. works_on w ts)"

definition sys_ok :: "'p sys \<Rightarrow> bool" where
  "sys_ok s \<longleftrightarrow> sm_ok (sysSM s) \<and> sysSched s \<noteq> SPanic \<and> length (sysWorkers s) = syncWorkerCount \<and>
     sysPending s \<noteq> Some None \<and>
     (bootstrapState (sysSM s) = BSStateInit \<longrightarrow> sysPending s = None) \<and>
     (bootstrapState (sysSM s) = BSStateSelected \<longrightarrow> sysPending s \<noteq> None) \<and>
     (\<forall>ts. sysSched s = SSend ts \<longrightarrow> bootstrapState (sysSM s) = BSStateScheduled) \<and>
     (bootstrapState (sysSM s) \<in> {BSStateInit, BSStateSelected} \<or> (\<exists>ts. sysSched s = SSend ts) \<longrightarrow>
        sm_quiet (sysSM s) \<and> set (sysWorkers s) \<subseteq> {WIdle}) \<and>
     (\<forall>k ts. activeSyncs (sysSM s) k = Some ts \<longrightarrow> Key ts = k \<and> busy (sysWorkers s) ts)"

lemmas sm_ok_defs = sm_ok_def all_buckets_def

section \<open>Every operation keeps it\<close>

lemma SetPeerHead_ok:
  assumes ok: "sm_ok sm" and it: "iteration ((peerHeads sm)(p \<mapsto> ts)) heads"
  shows "\<exists>sm' msg. SetPeerHead E heads sm p ts = Some (sm', msg) \<and> sm_ok sm' \<and> msg \<noteq> Some None \<and>
    activeSyncs sm' = activeSyncs sm \<and> sm_quiet sm' = sm_quiet sm \<and>
    (bootstrapState sm = BSStateInit \<and> (bootstrapState sm' = BSStateInit \<and> msg = None \<or>
       bootstrapState sm' = BSStateSelected \<and> msg \<noteq> None) \<or>
     bootstrapState sm \<noteq> BSStateInit \<and> bootstrapState sm' = bootstrapState sm \<and> msg \<noteq> None)"
proof -
  have ne: "heads \<noteq> []"
    using it by (auto simp: iteration_def)
  obtain t where t: "selectSyncTarget E heads = Some (Some t)" by (rule selectSyncTarget_ok [OF ne]) blast
  show ?thesis
    using ok by (cases "bootstrapState sm = BSStateInit"; cases "syncedPeerCount heads \<ge> bspThresh sm")
      (simp_all add: SetPeerHead_def t sm_ok_defs sm_quiet_def)
qed

lemma Pop_queue_ok:
  assumes "buckets_ok n (sbs @ xs)" and "sbs \<noteq> []"
  obtains b q where "Pop sbs = Some (Some b, q)" "buckets_ok n (q @ xs @ [b])"
    "mset sbs = add_mset b (mset q)" "\<And>c. c \<in> set sbs \<Longrightarrow> bucket_weight c \<le> bucket_weight b"
proof -
  have "buckets_ok n sbs" using assms(1) by (simp add: buckets_ok_append)
  from Pop_ok [OF this assms(2)] obtain b q where
    b: "Pop sbs = Some (Some b, q)" "mset sbs = add_mset b (mset q)"
      "\<And>c. c \<in> set sbs \<Longrightarrow> bucket_weight c \<le> bucket_weight b" by blast
  have "mset (q @ xs @ [b]) = mset (sbs @ xs)" using b(2) by simp
  with assms(1) have "buckets_ok n (q @ xs @ [b])" using buckets_ok_mset by blast
  with b show thesis using that by blast
qed

lemma scheduleIncoming_ok:
  assumes ok: "sm_ok sm" and st: "bootstrapState sm \<noteq> BSStateSelected"
  shows "\<exists>sm'. scheduleIncoming E acts sm ts = Some (sm', None) \<and> sm_ok sm' \<and>
    activeSyncs sm' = activeSyncs sm \<and> bootstrapState sm' = bootstrapState sm"
proof -
  let ?a = "heapNext sm"
  let ?rel = "active_loop E ts False acts \<or> RelatedToAny E (activeSyncTips sm) ts"
  let ?nx = "case nextSyncTarget sm of None \<Rightarrow> [] | Some b \<Rightarrow> [b]"
  have b: "buckets_ok ?a (syncQueue sm @ activeSyncTips sm @ ?nx)" using ok by (simp add: sm_ok_defs)
  have bt: "buckets_ok (Suc ?a) (syncQueue sm @ Insert E ?a (activeSyncTips sm) ts @ ?nx)"
    by (rule buckets_ok_Insert_ctx [OF b])
  have bq: "buckets_ok (Suc ?a) (Insert E ?a (syncQueue sm) ts @ activeSyncTips sm @ ?nx)"
    using buckets_ok_Insert_ctx [of ?a "[]" "syncQueue sm" "activeSyncTips sm @ ?nx"] b by simp
  consider (rel) ?rel | (boot) "\<not> ?rel" "bootstrapState sm = BSStateScheduled"
    | (same) n where "\<not> ?rel" "bootstrapState sm \<noteq> BSStateScheduled" "nextSyncTarget sm = Some n" "sameChainAs E n ts"
    | (other) n where "\<not> ?rel" "bootstrapState sm \<noteq> BSStateScheduled" "nextSyncTarget sm = Some n" "\<not> sameChainAs E n ts"
    | (fresh) "\<not> ?rel" "bootstrapState sm \<noteq> BSStateScheduled" "nextSyncTarget sm = None"
    by (cases "nextSyncTarget sm") auto
  then show ?thesis
  proof cases
    case rel
    then show ?thesis using ok st bt
      by (cases "active_loop E ts False acts") (simp_all add: scheduleIncoming_def sm_ok_defs Let_def)
  next
    case boot
    then show ?thesis using ok st bq by (simp add: scheduleIncoming_def sm_ok_defs Let_def)
  next
    case same
    then show ?thesis using ok st b by (simp add: scheduleIncoming_def sm_ok_defs Let_def buckets_ok_append)
  next
    case other
    then show ?thesis using ok st bq by (simp add: scheduleIncoming_def sm_ok_defs Let_def)
  next
    case fresh
    then have "buckets_ok (Suc ?a) (Insert E ?a (syncQueue sm) ts @ activeSyncTips sm)" using bq by simp
    then obtain n q where
      "Pop (Insert E ?a (syncQueue sm) ts) = Some (Some n, q)" "buckets_ok (Suc ?a) (q @ activeSyncTips sm @ [n])"
      by (rule Pop_queue_ok) auto
    with fresh show ?thesis using ok st by (simp add: scheduleIncoming_def sm_ok_defs Let_def)
  qed
qed

lemma process_next_ok:
  assumes "buckets_ok (heapNext sm) (all_buckets sm)" and "workerChan sm \<longleftrightarrow> nextSyncTarget sm \<noteq> None"
    and "0 < bspThresh sm" and "finite (dom (activeSyncs sm))"
  shows "\<exists>sm'. process_next sm = Some sm' \<and> sm_ok sm' \<and> activeSyncs sm' = activeSyncs sm \<and>
    bootstrapState sm' = bootstrapState sm \<and> length (all_buckets sm') = length (all_buckets sm)"
proof (cases "nextSyncTarget sm = None \<and> syncQueue sm \<noteq> []")
  case True
  then have "buckets_ok (heapNext sm) (syncQueue sm @ activeSyncTips sm)" "syncQueue sm \<noteq> []"
    using assms(1) by (simp_all add: all_buckets_def)
  then obtain n q where "Pop (syncQueue sm) = Some (Some n, q)"
    "buckets_ok (heapNext sm) (q @ activeSyncTips sm @ [n])"
    "mset (syncQueue sm) = add_mset n (mset q)" by (rule Pop_queue_ok) auto
  moreover from this(3) have "length (syncQueue sm) = Suc (length q)" by (metis size_add_mset size_mset)
  ultimately show ?thesis using True assms by (simp add: process_next_def Empty_def sm_ok_defs)
next
  case False
  then have "process_next sm = Some sm" by (auto simp: process_next_def Empty_def)
  moreover have "syncQueue sm \<noteq> [] \<Longrightarrow> nextSyncTarget sm \<noteq> None" using False by simp
  ultimately show ?thesis using assms by (simp add: sm_ok_def)
qed

lemma scheduleProcessResult_ok:
  assumes ok: "sm_ok sm"
  shows "\<exists>sm'. scheduleProcessResult E sm res = Some sm' \<and> sm_ok sm' \<and>
    activeSyncs sm' = (activeSyncs sm)(Key (resTs res) := None) \<and>
    bootstrapState sm' = (if resSuccess res then BSStateComplete else bootstrapState sm) \<and>
    length (all_buckets sm') \<le> length (all_buckets sm)"
proof -
  let ?nx = "case nextSyncTarget sm of None \<Rightarrow> [] | Some b \<Rightarrow> [b]"
  define sm1 where "sm1 = (if resSuccess res \<and> bootstrapState sm \<noteq> BSStateComplete
    then sm\<lparr>bootstrapState := BSStateComplete\<rparr> else sm)\<lparr>activeSyncs := (activeSyncs sm)(Key (resTs res) := None)\<rparr>"
  have f [simp]: "bootstrapState sm1 = (if resSuccess res then BSStateComplete else bootstrapState sm)"
    "activeSyncs sm1 = (activeSyncs sm)(Key (resTs res) := None)" "nextSyncTarget sm1 = nextSyncTarget sm"
    "syncQueue sm1 = syncQueue sm" "activeSyncTips sm1 = activeSyncTips sm" "workerChan sm1 = workerChan sm"
    "heapNext sm1 = heapNext sm" "bspThresh sm1 = bspThresh sm"
    by (auto simp: sm1_def)
  have def: "scheduleProcessResult E sm res = (case PopRelated E (activeSyncTips sm) (resTs res) of
      None \<Rightarrow> None
    | Some (relbucket, atips) \<Rightarrow>
        (case relbucket of
           Some b \<Rightarrow> if resSuccess res
             then if nextSyncTarget sm = None
                  then Some (sm1\<lparr>activeSyncTips := atips, nextSyncTarget := Some b, workerChan := True\<rparr>)
                  else Some (sm1\<lparr>activeSyncTips := atips, syncQueue := syncQueue sm @ [b]\<rparr>)
             else process_next (sm1\<lparr>activeSyncTips := atips\<rparr>)
         | None \<Rightarrow> process_next (sm1\<lparr>activeSyncTips := atips\<rparr>)))"
    by (auto simp: scheduleProcessResult_def sm1_def Let_def split: option.splits cong: if_cong)
  have b: "buckets_ok (heapNext sm) (syncQueue sm @ activeSyncTips sm @ ?nx)" using ok by (simp add: sm_ok_defs)
  have pn: "\<exists>sm'. process_next (sm1\<lparr>activeSyncTips := q\<rparr>) = Some sm' \<and> sm_ok sm' \<and> activeSyncs sm' = activeSyncs sm1 \<and>
      bootstrapState sm' = bootstrapState sm1 \<and> length (all_buckets sm') \<le> length (all_buckets sm)"
    if q: "buckets_ok (heapNext sm) (syncQueue sm @ q @ ?nx)" and len: "length q \<le> length (activeSyncTips sm)" for q
  proof -
    have "\<exists>sm'. process_next (sm1\<lparr>activeSyncTips := q\<rparr>) = Some sm' \<and> sm_ok sm' \<and>
        activeSyncs sm' = activeSyncs (sm1\<lparr>activeSyncTips := q\<rparr>) \<and>
        bootstrapState sm' = bootstrapState (sm1\<lparr>activeSyncTips := q\<rparr>) \<and>
        length (all_buckets sm') = length (all_buckets (sm1\<lparr>activeSyncTips := q\<rparr>))"
      by (rule process_next_ok) (use ok q in \<open>simp_all add: sm_ok_defs\<close>)
    then show ?thesis using len by (auto simp: all_buckets_def)
  qed
  from b have "buckets_ok (heapNext sm) (activeSyncTips sm)" by (simp add: buckets_ok_append)
  from PopRelated_ok [OF this, of E "resTs res"] show ?thesis
  proof (elim disjE exE conjE)
    assume n: "PopRelated E (activeSyncTips sm) (resTs res) = Some (None, activeSyncTips sm)"
    from n pn [OF b] show ?thesis by (simp add: def)
  next
    fix r q
    assume n: "PopRelated E (activeSyncTips sm) (resTs res) = Some (Some r, q)"
      and q: "mset (activeSyncTips sm) = add_mset r (mset q)"
    from q have len: "length (activeSyncTips sm) = Suc (length q)" by (metis size_add_mset size_mset)
    have b': "buckets_ok (heapNext sm) ((syncQueue sm @ [r]) @ q @ ?nx)"
      using b by (rule iffD1 [OF buckets_ok_mset, rotated]) (simp add: q)
    then have q_ok: "buckets_ok (heapNext sm) (syncQueue sm @ q @ ?nx)"
      by (auto simp: buckets_ok_append image_Un)
    have nx: "buckets_ok (heapNext sm) (syncQueue sm @ q @ [r])" if "nextSyncTarget sm = None"
      using b' by (rule iffD1 [OF buckets_ok_mset, rotated]) (simp add: that)
    from n b' nx len pn [OF q_ok] show ?thesis using ok
      by (cases "resSuccess res"; cases "nextSyncTarget sm") (simp_all add: def sm_ok_defs)
  qed
qed

lemma scheduleWorkSent_ok:
  assumes ok: "sm_ok sm" and w: "workerChan sm"
  obtains sm' b ts where "nextSyncTarget sm = Some b" "heaviestTipSet (Some b) = Some ts"
    "scheduleWorkSent sm = Some sm'" "sm_ok sm'"
    "activeSyncs sm' = (activeSyncs sm)(Key ts \<mapsto> ts)" "bootstrapState sm' = bootstrapState sm"
    "length (all_buckets sm) = Suc (length (all_buckets sm'))"
proof -
  obtain b where b: "nextSyncTarget sm = Some b" using ok w by (auto simp: sm_ok_def)
  have bo: "buckets_ok (heapNext sm) (syncQueue sm @ activeSyncTips sm @ [b])" using ok b by (simp add: sm_ok_defs)
  then have "tips b \<noteq> []" by (simp add: buckets_ok_append)
  then obtain ts where ts: "heaviestTipSet (Some b) = Some ts" using heaviest_Some by blast
  have bq: "buckets_ok (heapNext sm) (syncQueue sm @ activeSyncTips sm)" using bo by (auto simp: buckets_ok_append image_Un)
  show thesis
  proof (cases "syncQueue sm = []")
    case True
    let ?sm = "sm\<lparr>activeSyncs := (activeSyncs sm)(Key ts \<mapsto> ts), nextSyncTarget := None, workerChan := False\<rparr>"
    have "scheduleWorkSent sm = Some ?sm"
      using True by (simp add: scheduleWorkSent_def b ts Empty_def del: heaviestTipSet.simps)
    moreover have "sm_ok ?sm" using ok bq True by (simp add: sm_ok_defs)
    ultimately show thesis using True b by (intro that [of b ts ?sm, OF b ts]) (simp_all add: all_buckets_def)
  next
    case False
    obtain n q where n: "Pop (syncQueue sm) = Some (Some n, q)"
      "buckets_ok (heapNext sm) (q @ activeSyncTips sm @ [n])" "mset (syncQueue sm) = add_mset n (mset q)"
      by (rule Pop_queue_ok [OF bq False])
    let ?sm = "sm\<lparr>activeSyncs := (activeSyncs sm)(Key ts \<mapsto> ts), syncQueue := q, nextSyncTarget := Some n\<rparr>"
    have "scheduleWorkSent sm = Some ?sm"
      using False by (simp add: scheduleWorkSent_def b ts n Empty_def del: heaviestTipSet.simps)
    moreover have "sm_ok ?sm" using ok n b by (simp add: sm_ok_defs)
    moreover from n(3) have "length (syncQueue sm) = Suc (length q)" by (metis size_add_mset size_mset)
    ultimately show thesis using b by (intro that [of b ts ?sm, OF b ts]) (simp_all add: all_buckets_def)
  qed
qed

section \<open>Steps\<close>

lemma busy_update:
  "busy ws ts \<Longrightarrow> i < length ws \<Longrightarrow> works_on (ws ! i) ts \<longrightarrow> works_on v ts \<Longrightarrow> busy (ws[i := v]) ts"
  unfolding busy_def
  by (metis in_set_conv_nth length_list_update nth_list_update_eq nth_list_update_neq)

lemma busy_new: "i < length ws \<Longrightarrow> busy (ws[i := WSync ts]) ts"
  by (auto simp: busy_def works_on_def intro!: bexI [of _ "WSync ts"] set_update_memI)

lemma sm_internal_ok:
  assumes "sm_internal E s s'" and ok: "sys_ok s"
  shows "sys_ok s' \<and> (sysSched s \<noteq> SStop \<longrightarrow> sysSched s' \<noteq> SStop)"
  using assms(1)
proof cases
  case (target ts i)
  have "sm_quiet (sysSM s)" using ok target by (auto simp: sys_ok_def)
  then show ?thesis using ok target by (auto simp: sys_ok_def sm_quiet_def)
next
  case (work i)
  have sm: "sm_ok (sysSM s)" using ok by (simp add: sys_ok_def)
  obtain sm' b ts where sm': "nextSyncTarget (sysSM s) = Some b" "heaviestTipSet (Some b) = Some ts"
    "scheduleWorkSent (sysSM s) = Some sm'" "sm_ok sm'" "activeSyncs sm' = (activeSyncs (sysSM s))(Key ts \<mapsto> ts)"
    "bootstrapState sm' = bootstrapState (sysSM s)" by (rule scheduleWorkSent_ok [OF sm work(3)])
  have nq: "\<not> sm_quiet (sysSM s)" using sm'(1) by (simp add: sm_quiet_def)
  have new: "busy ((sysWorkers s)[i := WSync ts]) ts" by (rule busy_new [OF work(4)])
  have old: "busy (sysWorkers s) t \<Longrightarrow> busy ((sysWorkers s)[i := WSync ts]) t" for t
    by (rule busy_update [OF _ work(4)]) (simp_all add: work(5) works_on_def)
  show ?thesis
    using ok nq sm' work new old
    by (auto simp: after_worker_def sys_ok_def simp del: heaviestTipSet.simps)
next
  case (synced i ts ok')
  have old: "busy (sysWorkers s) t \<Longrightarrow> busy ((sysWorkers s)[i := WReport ts ok']) t" for t
    by (rule busy_update [OF _ synced(2)]) (simp_all add: synced(3) works_on_def)
  have "\<not> set (sysWorkers s) \<subseteq> {WIdle}" using synced nth_mem by fastforce
  then show ?thesis using ok synced old by (auto simp: sys_ok_def)
next
  case (result i ts ok')
  have sm: "sm_ok (sysSM s)" using ok by (simp add: sys_ok_def)
  obtain sm' where sm': "scheduleProcessResult E (sysSM s) \<lparr>resTs = ts, resSuccess = ok'\<rparr> = Some sm'" "sm_ok sm'"
    "activeSyncs sm' = (activeSyncs (sysSM s))(Key ts := None)"
    "bootstrapState sm' = (if ok' then BSStateComplete else bootstrapState (sysSM s))"
    using scheduleProcessResult_ok [OF sm, of E "\<lparr>resTs = ts, resSuccess = ok'\<rparr>"] by auto
  have old: "busy (sysWorkers s) t \<Longrightarrow> Key t \<noteq> Key ts \<Longrightarrow> busy ((sysWorkers s)[i := WIdle]) t" for t
    by (rule busy_update [OF _ result(3)]) (auto simp: result(4) works_on_def)
  have "\<not> set (sysWorkers s) \<subseteq> {WIdle}" using result nth_mem by fastforce
  then show ?thesis using ok sm' result old by (auto simp: after_worker_def sys_ok_def)
qed

lemma sm_step_ok:
  assumes "sm_step E s s'" and ok: "sys_ok s"
  shows "sys_ok s'"
  using assms(1)
proof cases
  case internal
  then show ?thesis using sm_internal_ok ok by blast
next
  case (peer p ts heads)
  have sm: "sm_ok (sysSM s)" using ok by (simp add: sys_ok_def)
  from SetPeerHead_ok [OF sm peer(3), of E] obtain sm' msg where
    r: "SetPeerHead E heads (sysSM s) p ts = Some (sm', msg)" "sm_ok sm'" "msg \<noteq> Some None"
      "activeSyncs sm' = activeSyncs (sysSM s)" "sm_quiet sm' = sm_quiet (sysSM s)"
    and st: "bootstrapState (sysSM s) = BSStateInit \<and> (bootstrapState sm' = BSStateInit \<and> msg = None \<or>
         bootstrapState sm' = BSStateSelected \<and> msg \<noteq> None) \<or>
       bootstrapState (sysSM s) \<noteq> BSStateInit \<and> bootstrapState sm' = bootstrapState (sysSM s) \<and> msg \<noteq> None"
    by blast
  have "s' = s\<lparr>sysSM := sm', sysPending := msg\<rparr>" using peer(1) r(1) by (simp add: after_peer_def)
  with r st ok show ?thesis by (elim disjE conjE) (simp_all add: sys_ok_def)
next
  case (incoming msg acts)
  have sm: "sm_ok (sysSM s)" using ok by (simp add: sys_ok_def)
  obtain ts where ts: "msg = Some ts" using ok incoming(3) by (cases msg) (auto simp: sys_ok_def)
  show ?thesis
  proof (cases "bootstrapState (sysSM s) = BSStateSelected")
    case True
    with ok have "sm_quiet (sysSM s)" "set (sysWorkers s) \<subseteq> {WIdle}" by (auto simp: sys_ok_def)
    with True show ?thesis using ok incoming
      by (auto simp: ts after_incoming_def scheduleIncoming_def sys_ok_def sm_ok_defs sm_quiet_def)
  next
    case False
    have "bootstrapState (sysSM s) \<noteq> BSStateInit" using ok incoming(3) by (auto simp: sys_ok_def)
    moreover from scheduleIncoming_ok [OF sm False, of E acts ts] obtain sm' where
      r: "scheduleIncoming E acts (sysSM s) ts = Some (sm', None)" "sm_ok sm'"
        "activeSyncs sm' = activeSyncs (sysSM s)" "bootstrapState sm' = bootstrapState (sysSM s)" by blast
    moreover have "s' = s\<lparr>sysSM := sm', sysPending := None, sysSched := SWait\<rparr>"
      using incoming(1) r(1) by (simp add: ts after_incoming_def)
    ultimately show ?thesis using ok False by (simp add: sys_ok_def)
  qed
next
  case stop
  then show ?thesis using ok by (auto simp: sys_ok_def)
qed

lemma sys_init_ok: "sys_ok sys_init"
  by (simp add: sys_ok_def sys_init_def sm_ok_defs sm_quiet_def NewSyncManager_def set_replicate_conv_if)

lemma reachable_ok: "reachable E s \<Longrightarrow> sys_ok s"
  unfolding reachable_def
  by (induction rule: rtranclp_induct) (auto intro: sys_init_ok sm_step_ok)

section \<open>Work left\<close>

fun worker_rank :: "worker \<Rightarrow> nat" where
  "worker_rank WIdle = 0"
| "worker_rank (WSync ts) = 2"
| "worker_rank (WReport ts ok) = 1"

definition work_left :: "'p sys \<Rightarrow> nat" where
  "work_left s = 4 * length (all_buckets (sysSM s)) + sum_list (map worker_rank (sysWorkers s)) +
     (case sysSched s of SSend ts \<Rightarrow> 3 | _ \<Rightarrow> 0)"

lemma rank_update:
  "i < length ws \<Longrightarrow> sum_list (map worker_rank (ws[i := w])) + worker_rank (ws ! i) =
     sum_list (map worker_rank ws) + worker_rank w"
proof (induction ws arbitrary: i)
  case (Cons v ws)
  then show ?case by (cases i) (auto simp: add_ac)
qed simp

lemma sm_internal_less:
  assumes "sm_internal E s s'" and ok: "sys_ok s"
  shows "work_left s' < work_left s"
  using assms(1)
proof cases
  case (target ts i)
  then show ?thesis using rank_update [of i "sysWorkers s" "WSync ts"] by (simp add: work_left_def)
next
  case (work i)
  have "sm_ok (sysSM s)" using ok by (simp add: sys_ok_def)
  then obtain sm' b ts where "nextSyncTarget (sysSM s) = Some b" "heaviestTipSet (Some b) = Some ts"
    "scheduleWorkSent (sysSM s) = Some sm'" "length (all_buckets (sysSM s)) = Suc (length (all_buckets sm'))"
    by (rule scheduleWorkSent_ok [OF _ work(3)])
  then show ?thesis using work rank_update [of i "sysWorkers s" "WSync ts"]
    by (simp add: after_worker_def work_left_def del: heaviestTipSet.simps)
next
  case (synced i ts ok')
  then show ?thesis using rank_update [of i "sysWorkers s" "WReport ts ok'"] by (simp add: work_left_def)
next
  case (result i ts ok')
  have "sm_ok (sysSM s)" using ok by (simp add: sys_ok_def)
  from scheduleProcessResult_ok [OF this, of E "\<lparr>resTs = ts, resSuccess = ok'\<rparr>"] obtain sm' where
    "scheduleProcessResult E (sysSM s) \<lparr>resTs = ts, resSuccess = ok'\<rparr> = Some sm'"
    "length (all_buckets sm') \<le> length (all_buckets (sysSM s))" by blast
  then show ?thesis using result rank_update [of i "sysWorkers s" WIdle]
    by (simp add: after_worker_def work_left_def)
qed

lemma sm_internal_bound: "(sm_internal E ^^ n) s s' \<Longrightarrow> sys_ok s \<Longrightarrow> n \<le> work_left s"
proof (induction n arbitrary: s)
  case (Suc n)
  then obtain t where t: "sm_internal E s t" "(sm_internal E ^^ n) t s'" by (metis relpowp_Suc_E2)
  with Suc.IH [OF t(2)] sm_internal_ok [OF t(1) Suc.prems(2)] sm_internal_less [OF t(1) Suc.prems(2)]
  show ?case by simp
qed simp

text \<open>A scheduler that is running and has work can take a step.\<close>

lemma sm_internal_progress:
  assumes ok: "sys_ok s" and run: "sysSched s \<noteq> SStop"
    and stuck: "\<And>s'. \<not> sm_internal E s s'"
  shows "sysSched s = SWait \<and> set (sysWorkers s) \<subseteq> {WIdle} \<and> nextSyncTarget (sysSM s) = None"
proof -
  have len: "0 < length (sysWorkers s)" using ok by (simp add: sys_ok_def syncWorkerCount_def)
  have w: "sysSched s = SWait"
  proof (cases "sysSched s")
    case (SSend ts)
    with ok have "set (sysWorkers s) \<subseteq> {WIdle}" by (auto simp: sys_ok_def)
    with len have "sysWorkers s ! 0 = WIdle" using nth_mem by blast
    from sm_internal.target [where E = E, OF SSend len this] stuck show ?thesis by blast
  qed (use ok run in \<open>auto simp: sys_ok_def\<close>)
  have idle: "sysWorkers s ! i = WIdle" if i: "i < length (sysWorkers s)" for i
  proof (cases "sysWorkers s ! i")
    case (WSync ts)
    from sm_internal.synced [where E = E, OF i this] stuck show ?thesis by blast
  next
    case (WReport ts ok')
    from sm_internal.result [where E = E, OF w i this] stuck show ?thesis by blast
  qed
  then have "set (sysWorkers s) \<subseteq> {WIdle}" by (auto simp: set_conv_nth)
  moreover have "\<not> workerChan (sysSM s)"
    using sm_internal.work [where E = E, OF w _ len idle [OF len]] stuck by blast
  ultimately show ?thesis using w ok by (simp add: sys_ok_def sm_ok_def)
qed

section \<open>A scheduler held up in bootstrap\<close>

definition stalled :: "'p sys \<Rightarrow> bool" where
  "stalled s \<longleftrightarrow> bootstrapState (sysSM s) = BSStateScheduled \<and> nextSyncTarget (sysSM s) = None \<and>
     \<not> workerChan (sysSM s) \<and> activeSyncs (sysSM s) = Map.empty \<and> activeSyncTips (sysSM s) = [] \<and>
     set (sysWorkers s) \<subseteq> {WIdle} \<and> (\<forall>ts. sysSched s \<noteq> SSend ts)"

lemma stalled_step:
  assumes "sm_step E s s'" and st: "stalled s"
  shows "stalled s'"
  using assms(1)
proof cases
  case internal
  have idle: "i < length (sysWorkers s) \<Longrightarrow> sysWorkers s ! i = WIdle" for i
    using st nth_mem by (fastforce simp: stalled_def)
  from internal show ?thesis by cases (use st idle in \<open>auto simp: stalled_def\<close>)
next
  case (peer p ts heads)
  then show ?thesis using st by (auto simp: stalled_def after_peer_def SetPeerHead_def)
next
  case (incoming msg acts)
  then have "acts = []" using st by (simp add: stalled_def)
  with incoming show ?thesis using st
    by (cases msg) (auto simp: stalled_def after_incoming_def scheduleIncoming_def RelatedToAny_def Let_def)
next
  case stop
  then show ?thesis using st by (auto simp: stalled_def)
qed

lemma stalled_forever: "(sm_step E)\<^sup>*\<^sup>* s s' \<Longrightarrow> stalled s \<Longrightarrow> stalled s'"
  by (induction rule: rtranclp_induct) (auto intro: stalled_step)

section \<open>A concrete run\<close>

definition wit_tip :: "string \<Rightarrow> string \<Rightarrow> int \<Rightarrow> int \<Rightarrow> TipSet" where
  "wit_tip c parent h w = \<lparr>tsCids = [c], tsBlks = [wit_block c ''t'' [parent] h w], tsHeight = h\<rparr>"

definition wit_sys :: "bootstrap \<Rightarrow> TipSet option option \<Rightarrow> sched \<Rightarrow> worker \<Rightarrow> nat sys" where
  "wit_sys st pend sc w = \<lparr>sysSM = NewSyncManager\<lparr>peerHeads := [0 \<mapsto> wit_tip ''a'' ''g'' 1 10], bootstrapState := st\<rparr>,
     sysSched = sc, sysWorkers = [w, WIdle, WIdle], sysPending = pend\<rparr>"

lemma wit_run1: "sm_step wit_env sys_init (wit_sys BSStateSelected (Some (Some (wit_tip ''a'' ''g'' 1 10))) SWait WIdle)"
proof -
  have it: "iteration ((peerHeads (sysSM sys_init))(0 \<mapsto> wit_tip ''a'' ''g'' 1 10)) [wit_tip ''a'' ''g'' 1 10]"
    unfolding iteration_def by (rule exI [of _ "[0]"]) (simp add: sys_init_def NewSyncManager_def)
  from sm_step.peer [OF _ it, of wit_env] show ?thesis
    by (simp add: sys_init_def wit_sys_def after_peer_def SetPeerHead_def NewSyncManager_def syncedPeerCount_def
        selectSyncTarget_def Heaviest_def syncWorkerCount_def wit_tip_def numeral_3_eq_3)
qed

lemma wit_run2:
  "sm_step wit_env (wit_sys BSStateSelected (Some (Some (wit_tip ''a'' ''g'' 1 10))) SWait WIdle)
     (wit_sys BSStateScheduled None (SSend (wit_tip ''a'' ''g'' 1 10)) WIdle)"
  using sm_step.incoming [of "wit_sys BSStateSelected (Some (Some (wit_tip ''a'' ''g'' 1 10))) SWait WIdle" _ "[]" wit_env]
  by (simp add: wit_sys_def NewSyncManager_def after_incoming_def scheduleIncoming_def)

lemma wit_run3:
  "sm_step wit_env (wit_sys BSStateScheduled None (SSend ts) WIdle) (wit_sys BSStateScheduled None SWait (WSync ts))"
  using sm_step.internal [OF sm_internal.target [of "wit_sys BSStateScheduled None (SSend ts) WIdle" ts 0], of wit_env]
  by (simp add: wit_sys_def)

lemma wit_run4:
  "sm_step wit_env (wit_sys BSStateScheduled None SWait (WSync ts)) (wit_sys BSStateScheduled None SWait (WReport ts False))"
  using sm_step.internal [OF sm_internal.synced [of 0 "wit_sys BSStateScheduled None SWait (WSync ts)" ts], of wit_env False]
  by (simp add: wit_sys_def)

lemma wit_run5:
  "sm_step wit_env (wit_sys BSStateScheduled None SWait (WReport ts False)) (wit_sys BSStateScheduled None SWait WIdle)"
  using sm_step.internal [OF sm_internal.result [of "wit_sys BSStateScheduled None SWait (WReport ts False)" 0 ts False], of wit_env]
  by (simp add: wit_sys_def NewSyncManager_def after_worker_def scheduleProcessResult_def PopRelated_def process_next_def Empty_def)

lemma wit_reachable3: "reachable wit_env (wit_sys BSStateScheduled None SWait (WSync (wit_tip ''a'' ''g'' 1 10)))"
  unfolding reachable_def
  by (rule rtranclp.rtrancl_into_rtrancl [OF rtranclp.rtrancl_into_rtrancl [OF r_into_rtranclp [of "sm_step wit_env"]]])
    (rule wit_run1 wit_run2 wit_run3)+

lemma wit_reachable5: "reachable wit_env (wit_sys BSStateScheduled None SWait WIdle)"
  using wit_reachable3 unfolding reachable_def
  by (rule rtranclp.rtrancl_into_rtrancl [OF rtranclp.rtrancl_into_rtrancl]) (rule wit_run4 wit_run5)+

section \<open>Properties\<close>

text \<open>
  C13. In every state the goroutines of the sync manager can reach, the scheduler has not
  panicked, the manager offers a target to the workers exactly when it has one, each sync it
  counts as active is with one of the three workers, and while the scheduler is blocked in the
  send of the bootstrap target every worker is free to receive it.
\<close>

theorem sync_manager_safe:
  assumes "reachable E s"
  shows "sysSched s \<noteq> SPanic \<and> length (sysWorkers s) = syncWorkerCount \<and>
    (workerChan (sysSM s) \<longleftrightarrow> nextSyncTarget (sysSM s) \<noteq> None) \<and>
    (\<forall>k ts. activeSyncs (sysSM s) k = Some ts \<longrightarrow>
       Key ts = k \<and> (\<exists>w \<in> set (sysWorkers s). w = WSync ts \<or> (\<exists>ok. w = WReport ts ok))) \<and>
    (\<forall>ts. sysSched s = SSend ts \<longrightarrow> set (sysWorkers s) = {WIdle})"
proof -
  have ok: "sys_ok s" by (rule reachable_ok [OF assms])
  then have "sysWorkers s \<noteq> []" by (auto simp: sys_ok_def syncWorkerCount_def)
  then have "set (sysWorkers s) \<subseteq> {WIdle} \<longleftrightarrow> set (sysWorkers s) = {WIdle}" by (cases "sysWorkers s") auto
  with ok show ?thesis by (auto simp: sys_ok_def sm_ok_def busy_def works_on_def)
qed

theorem sync_manager_safe_witness:
  "length (sysWorkers (wit_sys BSStateScheduled None SWait (WSync (wit_tip ''a'' ''g'' 1 10)))) = syncWorkerCount \<and>
   workerChan (sysSM (wit_sys BSStateScheduled None SWait (WSync (wit_tip ''a'' ''g'' 1 10)))) =
     (nextSyncTarget (sysSM (wit_sys BSStateScheduled None SWait (WSync (wit_tip ''a'' ''g'' 1 10)))) \<noteq> None)"
  using sync_manager_safe [OF wit_reachable3] by blast

text \<open>
  C14. Without new heads the scheduler and its workers come to rest after a bounded number of
  steps, in any order; once bootstrapped they rest only when every queued target has been handed
  to a worker and every worker has reported: no target waits while a worker is idle.
\<close>

theorem sync_manager_drains:
  assumes "reachable E s" and "sysSched s \<noteq> SStop"
  shows "(\<forall>n s'. (sm_internal E ^^ n) s s' \<longrightarrow> n \<le> work_left s) \<and>
    ((\<forall>s'. \<not> sm_internal E s s') \<longrightarrow>
       set (sysWorkers s) \<subseteq> {WIdle} \<and> nextSyncTarget (sysSM s) = None \<and>
       (IsBootstrapped (sysSM s) \<longrightarrow> syncQueue (sysSM s) = []))"
proof -
  have ok: "sys_ok s" by (rule reachable_ok [OF assms(1)])
  have "bootstrapState (sysSM s) = BSStateComplete \<longrightarrow> syncQueue (sysSM s) \<noteq> [] \<longrightarrow> nextSyncTarget (sysSM s) \<noteq> None"
    using ok by (simp add: sys_ok_def sm_ok_def)
  then show ?thesis
    unfolding IsBootstrapped_def
    using sm_internal_bound [where E = E, OF _ ok] sm_internal_progress [where E = E, OF ok assms(2)] by metis
qed

theorem sync_manager_drains_witness:
  "\<not> (\<exists>s'. (sm_internal wit_env ^^ 3) (wit_sys BSStateScheduled None SWait (WSync (wit_tip ''a'' ''g'' 1 10))) s')"
proof -
  let ?s = "wit_sys BSStateScheduled None SWait (WSync (wit_tip ''a'' ''g'' 1 10))"
  have "sysSched ?s \<noteq> SStop" "work_left ?s = 2"
    by (simp_all add: wit_sys_def work_left_def all_buckets_def NewSyncManager_def)
  from sync_manager_drains [OF wit_reachable3 this(1)]
  have "\<forall>n s'. (sm_internal wit_env ^^ n) ?s s' \<longrightarrow> n \<le> 2" unfolding \<open>work_left ?s = 2\<close> by (rule conjunct1)
  then have "(sm_internal wit_env ^^ 3) ?s s' \<longrightarrow> (3 :: nat) \<le> 2" for s' by (elim allE)
  then show ?thesis by simp
qed

text \<open>
  C33. The bootstrap target is a peer head of the greatest parent weight, whatever the order in
  which the map of peer heads is iterated and however the heads are bucketed. Blocks with the
  same CID are taken to be the same block.
\<close>

theorem selectSyncTarget_heaviest:
  assumes "heads \<noteq> []" and "\<And>ts. ts \<in> set heads \<Longrightarrow> tsBlks ts \<noteq> []"
    and "inj_on (blockCid E) (\<Union>ts \<in> set heads. set (tsBlks ts))"
  shows "\<exists>ts \<in> set heads. selectSyncTarget E heads = Some (Some ts) \<and> ParentWeight ts = Max (ParentWeight ` set heads)"
proof -
  obtain ts where ts: "selectSyncTarget E heads = Some (Some ts)" "ts \<in> set heads"
    "\<And>h. h \<in> set heads \<Longrightarrow> \<exists>t \<in> set heads. TipSet_Equals E t h \<and> ParentWeight t \<le> ParentWeight ts"
    by (rule selectSyncTarget_ok [OF assms(1)]) blast
  have eq: "ParentWeight t = ParentWeight h" if "t \<in> set heads" "h \<in> set heads" "TipSet_Equals E t h" for t h
  proof -
    have "map (blockCid E) (tsBlks t) = map (blockCid E) (tsBlks h)" using that(3) by (simp add: TipSet_Equals_iff)
    then have "tsBlks t = tsBlks h"
      by (rule map_inj_on [OF _ inj_on_subset [OF assms(3)]]) (use that in blast)
    then show ?thesis by (simp add: ParentWeight_def)
  qed
  have "ParentWeight h \<le> ParentWeight ts" if "h \<in> set heads" for h
    using ts(3) [OF that] eq [OF _ that] by metis
  then have "ParentWeight ts = Max (ParentWeight ` set heads)"
    using ts(2) by (intro Max_eqI [symmetric]) auto
  with ts show ?thesis by blast
qed

theorem selectSyncTarget_heaviest_witness:
  "selectSyncTarget wit_env [wit_tip ''a'' ''g'' 1 10, wit_tip ''b'' ''a'' 2 20] = Some (Some (wit_tip ''b'' ''a'' 2 20))"
proof -
  let ?hs = "[wit_tip ''a'' ''g'' 1 10, wit_tip ''b'' ''a'' 2 20]"
  have w: "ParentWeight (wit_tip c p h w) = w" and ne: "tsBlks (wit_tip c p h w) = [wit_block c ''t'' [p] h w]" for c p h w
    by (simp_all add: wit_tip_def ParentWeight_def wit_block_def)
  have "inj_on (blockCid wit_env) (\<Union>ts \<in> set ?hs. set (tsBlks ts))" by (auto simp: ne inj_on_def)
  then have "\<exists>ts \<in> set ?hs. selectSyncTarget wit_env ?hs = Some (Some ts) \<and> ParentWeight ts = Max (ParentWeight ` set ?hs)"
    by (intro selectSyncTarget_heaviest) (auto simp: ne)
  then show ?thesis by (auto simp: w)
qed

text \<open>
  C34. A failed first sync can hold the manager up for good: once the bootstrap sync has failed
  with nothing queued, no worker is ever given a target again, whatever heads the peers announce,
  because heads that come in while bootstrap is scheduled are only queued and nothing but the
  result of a sync takes from the queue.
\<close>

theorem bootstrap_failure_stalls:
  assumes "reachable E s" and "sysSched s = SWait" and "bootstrapState (sysSM s) = BSStateScheduled"
    and "nextSyncTarget (sysSM s) = None" and "set (sysWorkers s) \<subseteq> {WIdle}" and "activeSyncTips (sysSM s) = []"
    and "(sm_step E)\<^sup>*\<^sup>* s s'"
  shows "set (sysWorkers s') \<subseteq> {WIdle} \<and> \<not> IsBootstrapped (sysSM s') \<and> nextSyncTarget (sysSM s') = None"
proof -
  have ok: "sys_ok s" by (rule reachable_ok [OF assms(1)])
  have "\<not> busy (sysWorkers s) ts" for ts using assms(5) by (auto simp: busy_def works_on_def)
  with ok have "activeSyncs (sysSM s) = Map.empty" unfolding sys_ok_def by (metis (no_types) not_None_eq ext)
  then have "stalled s" using ok assms(2-6) by (simp add: stalled_def sys_ok_def sm_ok_def)
  then have "stalled s'" by (rule stalled_forever [OF assms(7)])
  then show ?thesis by (simp add: stalled_def IsBootstrapped_def)
qed

theorem bootstrap_failure_stalls_witness:
  "\<not> (\<exists>s'. (sm_step wit_env)\<^sup>*\<^sup>* (wit_sys BSStateScheduled None SWait WIdle) s' \<and> IsBootstrapped (sysSM s'))"
  using bootstrap_failure_stalls [OF wit_reachable5] by (auto simp: wit_sys_def NewSyncManager_def)

end
