(* ===== verification/Cbor_Net.thy ===== *)
theory Cbor_Net
  imports Cbor_Types
begin

text \<open>
  The messages of the network protocols and their encodings: block sync
  (\<open>chain/blocksync/blocksync.go\<close>, \<open>chain/blocksync/cbor_gen.go\<close>) and hello
  (\<open>node/hello/hello.go\<close>, \<open>node/hello/cbor_gen.go\<close>).
\<close>

section \<open>Block sync\<close>

record BlockSyncRequest =
  bsrStart :: "cid list"
  bsrRequestLength :: uint64
  bsrOptions :: uint64

record BSTipSet =
  bstBlocks :: "BlockHeader list"
  bstBlsMessages :: "Message list"
  bstBlsMsgIncludes :: "uint64 list list"
  bstSecpkMessages :: "SignedMessage list"
  bstSecpkMsgIncludes :: "uint64 list list"

record BlockSyncResponse =
  bspChain :: "BSTipSet list"
  bspStatus :: uint64
  bspMessage :: string

definition BlockSyncRequest_MarshalCBOR :: "cbor_env \<Rightarrow> BlockSyncRequest option \<Rightarrow> cerr + bytes" where
  "BlockSyncRequest_MarshalCBOR E = w_ptr (\<lambda>t. wseq
     [lengthBuf 131, w_slice E (cbWriteCid E) (bsrStart t), w_uint E (bsrRequestLength t), w_uint E (bsrOptions t)])"

definition BlockSyncRequest_UnmarshalCBOR :: "cbor_env \<Rightarrow> BlockSyncRequest dec" where
  "BlockSyncRequest_UnmarshalCBOR E =
     dbind (r_fields E 3) (\<lambda>_.
     dbind (r_slice E (cbReadCid E) []) (\<lambda>start.
     dbind (r_uint E) (\<lambda>len.
     dbind (r_uint E) (\<lambda>opts. dret \<lparr>bsrStart = start, bsrRequestLength = len, bsrOptions = opts\<rparr>))))"

text \<open>The lists of indexes of the messages each block includes.\<close>

definition w_includes :: "cbor_env \<Rightarrow> uint64 list list \<Rightarrow> cerr + bytes" where
  "w_includes E = w_slice E (w_slice E (w_uint E))"

definition r_includes :: "cbor_env \<Rightarrow> uint64 list list dec" where
  "r_includes E = r_slice E (r_slice E (r_uint E) []) []"

definition BSTipSet_MarshalCBOR :: "cbor_env \<Rightarrow> BSTipSet option \<Rightarrow> cerr + bytes" where
  "BSTipSet_MarshalCBOR E = w_ptr (\<lambda>t. wseq
     [lengthBuf 133,
      w_slice E (\<lambda>v. BlockHeader_MarshalCBOR E (Some v)) (bstBlocks t),
      w_slice E (\<lambda>v. Message_MarshalCBOR E (Some v)) (bstBlsMessages t),
      w_includes E (bstBlsMsgIncludes t),
      w_slice E (\<lambda>v. SignedMessage_MarshalCBOR E (Some v)) (bstSecpkMessages t),
      w_includes E (bstSecpkMsgIncludes t)])"

definition BSTipSet_UnmarshalCBOR :: "cbor_env \<Rightarrow> BSTipSet dec" where
  "BSTipSet_UnmarshalCBOR E =
     dbind (r_fields E 5) (\<lambda>_.
     dbind (r_slice E (BlockHeader_UnmarshalCBOR E) []) (\<lambda>blks.
     dbind (r_slice E (Message_UnmarshalCBOR E) []) (\<lambda>bls.
     dbind (r_includes E) (\<lambda>blsInc.
     dbind (r_slice E (SignedMessage_UnmarshalCBOR E) []) (\<lambda>secpk.
     dbind (r_includes E) (\<lambda>secpkInc.
     dret \<lparr>bstBlocks = blks, bstBlsMessages = bls, bstBlsMsgIncludes = blsInc,
           bstSecpkMessages = secpk, bstSecpkMsgIncludes = secpkInc\<rparr>))))))"

definition BlockSyncResponse_MarshalCBOR :: "cbor_env \<Rightarrow> BlockSyncResponse option \<Rightarrow> cerr + bytes" where
  "BlockSyncResponse_MarshalCBOR E = w_ptr (\<lambda>t. wseq
     [lengthBuf 131, w_slice E (\<lambda>v. BSTipSet_MarshalCBOR E (Some v)) (bspChain t), w_uint E (bspStatus t),
      w_string E (bspMessage t)])"

definition BlockSyncResponse_UnmarshalCBOR :: "cbor_env \<Rightarrow> BlockSyncResponse dec" where
  "BlockSyncResponse_UnmarshalCBOR E =
     dbind (r_fields E 3) (\<lambda>_.
     dbind (r_slice E (BSTipSet_UnmarshalCBOR E) []) (\<lambda>chain.
     dbind (r_uint E) (\<lambda>status.
     dbind (cbReadString E) (\<lambda>msg. dret \<lparr>bspChain = chain, bspStatus = status, bspMessage = msg\<rparr>))))"

section \<open>Hello\<close>

record HelloMessage =
  hmHeaviestTipSet :: "cid list"
  hmHeaviestTipSetHeight :: epoch
  hmHeaviestTipSetWeight :: bigint
  hmGenesisHash :: cid

record LatencyMessage =
  lmTArrial :: int
  lmTSent :: int

definition HelloMessage_MarshalCBOR :: "cbor_env \<Rightarrow> HelloMessage option \<Rightarrow> cerr + bytes" where
  "HelloMessage_MarshalCBOR E = w_ptr (\<lambda>t. wseq
     [lengthBuf 132, w_slice E (cbWriteCid E) (hmHeaviestTipSet t), w_int E (hmHeaviestTipSetHeight t),
      bigMarshal E (Some (hmHeaviestTipSetWeight t)), cbWriteCid E (hmGenesisHash t)])"

definition HelloMessage_UnmarshalCBOR :: "cbor_env \<Rightarrow> HelloMessage dec" where
  "HelloMessage_UnmarshalCBOR E =
     dbind (r_fields E 4) (\<lambda>_.
     dbind (r_slice E (cbReadCid E) []) (\<lambda>ts.
     dbind (r_int E) (\<lambda>height.
     dbind (bigUnmarshal E) (\<lambda>weight.
     dbind (cbReadCid E) (\<lambda>gen.
     dret \<lparr>hmHeaviestTipSet = ts, hmHeaviestTipSetHeight = height,
           hmHeaviestTipSetWeight = (case weight of None \<Rightarrow> 0 | Some w \<Rightarrow> w), hmGenesisHash = gen\<rparr>)))))"

definition LatencyMessage_MarshalCBOR :: "cbor_env \<Rightarrow> LatencyMessage option \<Rightarrow> cerr + bytes" where
  "LatencyMessage_MarshalCBOR E = w_ptr (\<lambda>t. wseq [lengthBuf 130, w_int E (lmTArrial t), w_int E (lmTSent t)])"

definition LatencyMessage_UnmarshalCBOR :: "cbor_env \<Rightarrow> LatencyMessage dec" where
  "LatencyMessage_UnmarshalCBOR E =
     dbind (r_fields E 2) (\<lambda>_.
     dbind (r_int E) (\<lambda>arr.
     dbind (r_int E) (\<lambda>snt. dret \<lparr>lmTArrial = arr, lmTSent = snt\<rparr>)))"

section \<open>Codecs\<close>

definition BlockSyncRequest_valid :: "cbor_env \<Rightarrow> BlockSyncRequest \<Rightarrow> bool" where
  "BlockSyncRequest_valid E t \<longleftrightarrow> length (bsrStart t) \<le> cbMaxLength E \<and> list_all (cidValid E) (bsrStart t)"

interpretation bsrequest_codec: struct_codec "\<lambda>x. BlockSyncRequest_MarshalCBOR (lib E) (Some x)"
  "BlockSyncRequest_UnmarshalCBOR (lib E)" "BlockSyncRequest_valid (lib E)" for E
  by unfold_locales
    (auto simp: BlockSyncRequest_MarshalCBOR_def BlockSyncRequest_UnmarshalCBOR_def BlockSyncRequest_valid_def
      simp del: wseq.simps intro!: cbor_reads nonnull_lengthBuf BlockSyncRequest.equality)

definition includes_valid :: "cbor_env \<Rightarrow> uint64 list list \<Rightarrow> bool" where
  "includes_valid E xss \<longleftrightarrow> length xss \<le> cbMaxLength E \<and> list_all (\<lambda>xs. length xs \<le> cbMaxLength E) xss"

lemma reads_includes [cbor_reads]:
  "includes_valid (lib E) xss \<Longrightarrow> reads (r_includes (lib E)) (w_includes (lib E) xss) xss"
  unfolding r_includes_def w_includes_def includes_valid_def
  by (rule reads_slice [OF lib_laws], simp, rule reads_slice [OF lib_laws]) (auto simp: list_all_iff intro: cbor_reads)

lemmas reads_slices [cbor_reads] = message_codec.slice [OF lib_laws] signed_codec.slice [OF lib_laws]

definition BSTipSet_valid :: "cbor_env \<Rightarrow> BSTipSet \<Rightarrow> bool" where
  "BSTipSet_valid E t \<longleftrightarrow>
     length (bstBlocks t) \<le> cbMaxLength E \<and> list_all (BlockHeader_valid E) (bstBlocks t) \<and>
     length (bstBlsMessages t) \<le> cbMaxLength E \<and> list_all (Message_valid E) (bstBlsMessages t) \<and>
     length (bstSecpkMessages t) \<le> cbMaxLength E \<and> list_all (SignedMessage_valid E) (bstSecpkMessages t) \<and>
     includes_valid E (bstBlsMsgIncludes t) \<and> includes_valid E (bstSecpkMsgIncludes t)"

interpretation bstipset_codec: struct_codec "\<lambda>x. BSTipSet_MarshalCBOR (lib E) (Some x)"
  "BSTipSet_UnmarshalCBOR (lib E)" "BSTipSet_valid (lib E)" for E
  by unfold_locales
    (auto simp: BSTipSet_MarshalCBOR_def BSTipSet_UnmarshalCBOR_def BSTipSet_valid_def
      simp del: wseq.simps intro!: cbor_reads nonnull_lengthBuf BSTipSet.equality)

lemmas reads_bstipsets [cbor_reads] = bstipset_codec.slice [OF lib_laws]

definition BlockSyncResponse_valid :: "cbor_env \<Rightarrow> BlockSyncResponse \<Rightarrow> bool" where
  "BlockSyncResponse_valid E t \<longleftrightarrow> length (bspChain t) \<le> cbMaxLength E \<and> list_all (BSTipSet_valid E) (bspChain t) \<and>
     length (bspMessage t) \<le> cbMaxLength E"

interpretation bsresponse_codec: struct_codec "\<lambda>x. BlockSyncResponse_MarshalCBOR (lib E) (Some x)"
  "BlockSyncResponse_UnmarshalCBOR (lib E)" "BlockSyncResponse_valid (lib E)" for E
  by unfold_locales
    (auto simp: BlockSyncResponse_MarshalCBOR_def BlockSyncResponse_UnmarshalCBOR_def BlockSyncResponse_valid_def
      simp del: wseq.simps intro!: cbor_reads nonnull_lengthBuf BlockSyncResponse.equality)

definition HelloMessage_valid :: "cbor_env \<Rightarrow> HelloMessage \<Rightarrow> bool" where
  "HelloMessage_valid E t \<longleftrightarrow> length (hmHeaviestTipSet t) \<le> cbMaxLength E \<and> list_all (cidValid E) (hmHeaviestTipSet t) \<and>
     in_i64 (hmHeaviestTipSetHeight t) \<and> bigValid E (hmHeaviestTipSetWeight t) \<and> cidValid E (hmGenesisHash t)"

interpretation hello_codec: struct_codec "\<lambda>x. HelloMessage_MarshalCBOR (lib E) (Some x)"
  "HelloMessage_UnmarshalCBOR (lib E)" "HelloMessage_valid (lib E)" for E
  by unfold_locales
    (auto simp: HelloMessage_MarshalCBOR_def HelloMessage_UnmarshalCBOR_def HelloMessage_valid_def
      simp del: wseq.simps intro!: cbor_reads nonnull_lengthBuf HelloMessage.equality)

definition LatencyMessage_valid :: "LatencyMessage \<Rightarrow> bool" where
  "LatencyMessage_valid t \<longleftrightarrow> in_i64 (lmTArrial t) \<and> in_i64 (lmTSent t)"

interpretation latency_codec: struct_codec "\<lambda>x. LatencyMessage_MarshalCBOR (lib E) (Some x)"
  "LatencyMessage_UnmarshalCBOR (lib E)" "LatencyMessage_valid" for E
  by unfold_locales
    (auto simp: LatencyMessage_MarshalCBOR_def LatencyMessage_UnmarshalCBOR_def LatencyMessage_valid_def
      simp del: wseq.simps intro!: cbor_reads nonnull_lengthBuf LatencyMessage.equality)

section \<open>Properties\<close>

text \<open>
  C35. What a node sends in the block sync and hello protocols is what its peer reads, and a
  reader stops where the message ends: messages written one after another on a stream are read
  back one by one.
\<close>

theorem network_messages_roundtrip:
  assumes "cbor_laws E"
  shows "(BlockSyncRequest_valid E req \<longrightarrow> reads (BlockSyncRequest_UnmarshalCBOR E) (BlockSyncRequest_MarshalCBOR E (Some req)) req) \<and>
    (BlockSyncResponse_valid E resp \<longrightarrow> reads (BlockSyncResponse_UnmarshalCBOR E) (BlockSyncResponse_MarshalCBOR E (Some resp)) resp) \<and>
    (BSTipSet_valid E ts \<longrightarrow> reads (BSTipSet_UnmarshalCBOR E) (BSTipSet_MarshalCBOR E (Some ts)) ts) \<and>
    (HelloMessage_valid E hello \<longrightarrow> reads (HelloMessage_UnmarshalCBOR E) (HelloMessage_MarshalCBOR E (Some hello)) hello) \<and>
    (LatencyMessage_valid lat \<longrightarrow> reads (LatencyMessage_UnmarshalCBOR E) (LatencyMessage_MarshalCBOR E (Some lat)) lat)"
proof -
  obtain L where "E = lib L" using lib_cases [OF assms] .
  then show ?thesis
    by (simp add: bsrequest_codec.roundtrip bsresponse_codec.roundtrip bstipset_codec.roundtrip hello_codec.roundtrip latency_codec.roundtrip)
qed

theorem network_messages_roundtrip_witness:
  "reads (BlockSyncRequest_UnmarshalCBOR wit_cbor_env)
     (BlockSyncRequest_MarshalCBOR wit_cbor_env (Some \<lparr>bsrStart = [''c'', ''d''], bsrRequestLength = 20, bsrOptions = 3\<rparr>))
     \<lparr>bsrStart = [''c'', ''d''], bsrRequestLength = 20, bsrOptions = 3\<rparr>"
  using network_messages_roundtrip [OF wit_cbor_laws, of "\<lparr>bsrStart = [''c'', ''d''], bsrRequestLength = 20, bsrOptions = 3\<rparr>"]
  by (simp add: BlockSyncRequest_valid_def wit_cbor_env_def)

end
