(* ===== verification/Cbor_Maps.thy ===== *)
theory Cbor_Maps
  imports Cbor
begin

text \<open>
  Structs stored as CBOR maps: the records of the payment channel manager
  (\<open>paychmgr/store.go\<close>, \<open>paychmgr/cbor_gen.go\<close>) and those of the API that are stored
  (\<open>api/api_full.go\<close>, \<open>api/api_storage.go\<close>, \<open>api/cbor_gen.go\<close>).

  A signed voucher is a type of another module: its writer and reader are the arguments \<open>svM\<close> and
  \<open>svU\<close>, of a type \<open>'v\<close> of vouchers.
\<close>

section \<open>Payment channel records\<close>

record 'v VoucherInfo =
  viVoucher :: "'v option"
  viProof :: bytes

record 'v ChannelInfo =
  ciChannel :: address
  ciControl :: address
  ciTarget :: address
  ciDirection :: uint64
  ciVouchers :: "'v VoucherInfo list"
  ciNextLane :: uint64

definition VoucherInfo_MarshalCBOR ::
  "cbor_env \<Rightarrow> ('v option \<Rightarrow> cerr + bytes) \<Rightarrow> 'v VoucherInfo option \<Rightarrow> cerr + bytes" where
  "VoucherInfo_MarshalCBOR E svM = w_ptr (\<lambda>t. wseq
     [lengthBuf 162,
      w_string E ''Voucher'', svM (viVoucher t),
      w_string E ''Proof'', w_bytes E (viProof t)])"

definition VoucherInfo_field :: "cbor_env \<Rightarrow> 'v dec \<Rightarrow> 'v VoucherInfo \<Rightarrow> string \<Rightarrow> 'v VoucherInfo dec" where
  "VoucherInfo_field E svU t name =
     (if name = ''Voucher'' then dbind (r_ptr svU (viVoucher t)) (\<lambda>v. dret (t\<lparr>viVoucher := v\<rparr>))
      else if name = ''Proof'' then dbind (r_bytes E (viProof t)) (\<lambda>b. dret (t\<lparr>viProof := b\<rparr>))
      else dfail CErrField)"

definition VoucherInfo_UnmarshalCBOR :: "cbor_env \<Rightarrow> 'v dec \<Rightarrow> 'v VoucherInfo dec" where
  "VoucherInfo_UnmarshalCBOR E svU = r_map E (VoucherInfo_field E svU) \<lparr>viVoucher = None, viProof = []\<rparr>"

definition ChannelInfo_MarshalCBOR ::
  "cbor_env \<Rightarrow> ('v option \<Rightarrow> cerr + bytes) \<Rightarrow> 'v ChannelInfo option \<Rightarrow> cerr + bytes" where
  "ChannelInfo_MarshalCBOR E svM = w_ptr (\<lambda>t. wseq
     [lengthBuf 166,
      w_string E ''Channel'', addrMarshal E (ciChannel t),
      w_string E ''Control'', addrMarshal E (ciControl t),
      w_string E ''Target'', addrMarshal E (ciTarget t),
      w_string E ''Direction'', w_uint E (ciDirection t),
      w_string E ''Vouchers'', w_slice E (\<lambda>v. VoucherInfo_MarshalCBOR E svM (Some v)) (ciVouchers t),
      w_string E ''NextLane'', w_uint E (ciNextLane t)])"

definition ChannelInfo_field :: "cbor_env \<Rightarrow> 'v dec \<Rightarrow> 'v ChannelInfo \<Rightarrow> string \<Rightarrow> 'v ChannelInfo dec" where
  "ChannelInfo_field E svU t name =
     (if name = ''Channel'' then dbind (addrUnmarshal E) (\<lambda>a. dret (t\<lparr>ciChannel := a\<rparr>))
      else if name = ''Control'' then dbind (addrUnmarshal E) (\<lambda>a. dret (t\<lparr>ciControl := a\<rparr>))
      else if name = ''Target'' then dbind (addrUnmarshal E) (\<lambda>a. dret (t\<lparr>ciTarget := a\<rparr>))
      else if name = ''Direction'' then dbind (r_uint E) (\<lambda>d. dret (t\<lparr>ciDirection := d\<rparr>))
      else if name = ''Vouchers''
        then dbind (r_slice E (VoucherInfo_UnmarshalCBOR E svU) (ciVouchers t)) (\<lambda>vs. dret (t\<lparr>ciVouchers := vs\<rparr>))
      else if name = ''NextLane'' then dbind (r_uint E) (\<lambda>n. dret (t\<lparr>ciNextLane := n\<rparr>))
      else dfail CErrField)"

definition zeroChannelInfo :: "'v ChannelInfo" where
  "zeroChannelInfo = \<lparr>ciChannel = address_Undef, ciControl = address_Undef, ciTarget = address_Undef,
     ciDirection = 0, ciVouchers = [], ciNextLane = 0\<rparr>"

definition ChannelInfo_UnmarshalCBOR :: "cbor_env \<Rightarrow> 'v dec \<Rightarrow> 'v ChannelInfo dec" where
  "ChannelInfo_UnmarshalCBOR E svU = r_map E (ChannelInfo_field E svU) zeroChannelInfo"

section \<open>API records\<close>

record 'v PaymentInfo =
  piChannel :: address
  piChannelMessage :: "cid option"
  piVouchers :: "'v list"

definition PaymentInfo_MarshalCBOR ::
  "cbor_env \<Rightarrow> ('v option \<Rightarrow> cerr + bytes) \<Rightarrow> 'v PaymentInfo option \<Rightarrow> cerr + bytes" where
  "PaymentInfo_MarshalCBOR E svM = w_ptr (\<lambda>t. wseq
     [lengthBuf 163,
      w_string E ''Channel'', addrMarshal E (piChannel t),
      w_string E ''ChannelMessage'', w_ptr (cbWriteCid E) (piChannelMessage t),
      w_string E ''Vouchers'', w_slice E (\<lambda>v. svM (Some v)) (piVouchers t)])"

definition PaymentInfo_field :: "cbor_env \<Rightarrow> 'v dec \<Rightarrow> 'v PaymentInfo \<Rightarrow> string \<Rightarrow> 'v PaymentInfo dec" where
  "PaymentInfo_field E svU t name =
     (if name = ''Channel'' then dbind (addrUnmarshal E) (\<lambda>a. dret (t\<lparr>piChannel := a\<rparr>))
      else if name = ''ChannelMessage''
        then dbind (r_ptr (cbReadCid E) (piChannelMessage t)) (\<lambda>c. dret (t\<lparr>piChannelMessage := c\<rparr>))
      else if name = ''Vouchers'' then dbind (r_slice E svU (piVouchers t)) (\<lambda>vs. dret (t\<lparr>piVouchers := vs\<rparr>))
      else dfail CErrField)"

definition PaymentInfo_UnmarshalCBOR :: "cbor_env \<Rightarrow> 'v dec \<Rightarrow> 'v PaymentInfo dec" where
  "PaymentInfo_UnmarshalCBOR E svU = r_map E (PaymentInfo_field E svU)
     \<lparr>piChannel = address_Undef, piChannelMessage = None, piVouchers = []\<rparr>"

record SealedRef =
  srSectorID :: uint64
  srOffset :: uint64
  srSize :: uint64

definition SealedRef_MarshalCBOR :: "cbor_env \<Rightarrow> SealedRef option \<Rightarrow> cerr + bytes" where
  "SealedRef_MarshalCBOR E = w_ptr (\<lambda>t. wseq
     [lengthBuf 163,
      w_string E ''SectorID'', w_uint E (srSectorID t),
      w_string E ''Offset'', w_uint E (srOffset t),
      w_string E ''Size'', w_uint E (srSize t)])"

definition SealedRef_field :: "cbor_env \<Rightarrow> SealedRef \<Rightarrow> string \<Rightarrow> SealedRef dec" where
  "SealedRef_field E t name =
     (if name = ''SectorID'' then dbind (r_uint E) (\<lambda>n. dret (t\<lparr>srSectorID := n\<rparr>))
      else if name = ''Offset'' then dbind (r_uint E) (\<lambda>n. dret (t\<lparr>srOffset := n\<rparr>))
      else if name = ''Size'' then dbind (r_uint E) (\<lambda>n. dret (t\<lparr>srSize := n\<rparr>))
      else dfail CErrField)"

definition SealedRef_UnmarshalCBOR :: "cbor_env \<Rightarrow> SealedRef dec" where
  "SealedRef_UnmarshalCBOR E = r_map E (SealedRef_field E) \<lparr>srSectorID = 0, srOffset = 0, srSize = 0\<rparr>"

record SealedRefs =
  srsRefs :: "SealedRef list"

definition SealedRefs_MarshalCBOR :: "cbor_env \<Rightarrow> SealedRefs option \<Rightarrow> cerr + bytes" where
  "SealedRefs_MarshalCBOR E = w_ptr (\<lambda>t. wseq
     [lengthBuf 161, w_string E ''Refs'', w_slice E (\<lambda>v. SealedRef_MarshalCBOR E (Some v)) (srsRefs t)])"

definition SealedRefs_field :: "cbor_env \<Rightarrow> SealedRefs \<Rightarrow> string \<Rightarrow> SealedRefs dec" where
  "SealedRefs_field E t name =
     (if name = ''Refs''
      then dbind (r_slice E (SealedRef_UnmarshalCBOR E) (srsRefs t)) (\<lambda>rs. dret (t\<lparr>srsRefs := rs\<rparr>))
      else dfail CErrField)"

definition SealedRefs_UnmarshalCBOR :: "cbor_env \<Rightarrow> SealedRefs dec" where
  "SealedRefs_UnmarshalCBOR E = r_map E (SealedRefs_field E) \<lparr>srsRefs = []\<rparr>"

record SealTicket =
  stValue :: bytes
  stEpoch :: epoch

definition SealTicket_MarshalCBOR :: "cbor_env \<Rightarrow> SealTicket option \<Rightarrow> cerr + bytes" where
  "SealTicket_MarshalCBOR E = w_ptr (\<lambda>t. wseq
     [lengthBuf 162, w_string E ''Value'', w_bytes E (stValue t), w_string E ''Epoch'', w_int E (stEpoch t)])"

definition SealTicket_field :: "cbor_env \<Rightarrow> SealTicket \<Rightarrow> string \<Rightarrow> SealTicket dec" where
  "SealTicket_field E t name =
     (if name = ''Value'' then dbind (r_bytes E (stValue t)) (\<lambda>b. dret (t\<lparr>stValue := b\<rparr>))
      else if name = ''Epoch'' then dbind (r_int E) (\<lambda>n. dret (t\<lparr>stEpoch := n\<rparr>))
      else dfail CErrField)"

definition SealTicket_UnmarshalCBOR :: "cbor_env \<Rightarrow> SealTicket dec" where
  "SealTicket_UnmarshalCBOR E = r_map E (SealTicket_field E) \<lparr>stValue = [], stEpoch = 0\<rparr>"

definition SealTicket_Equals :: "SealTicket \<Rightarrow> SealTicket \<Rightarrow> bool" where
  "SealTicket_Equals st ost \<longleftrightarrow> stValue st = stValue ost \<and> stEpoch st = stEpoch ost"

record SealSeed =
  ssValue :: bytes
  ssEpoch :: epoch

definition SealSeed_MarshalCBOR :: "cbor_env \<Rightarrow> SealSeed option \<Rightarrow> cerr + bytes" where
  "SealSeed_MarshalCBOR E = w_ptr (\<lambda>t. wseq
     [lengthBuf 162, w_string E ''Value'', w_bytes E (ssValue t), w_string E ''Epoch'', w_int E (ssEpoch t)])"

definition SealSeed_field :: "cbor_env \<Rightarrow> SealSeed \<Rightarrow> string \<Rightarrow> SealSeed dec" where
  "SealSeed_field E t name =
     (if name = ''Value'' then dbind (r_bytes E (ssValue t)) (\<lambda>b. dret (t\<lparr>ssValue := b\<rparr>))
      else if name = ''Epoch'' then dbind (r_int E) (\<lambda>n. dret (t\<lparr>ssEpoch := n\<rparr>))
      else dfail CErrField)"

definition SealSeed_UnmarshalCBOR :: "cbor_env \<Rightarrow> SealSeed dec" where
  "SealSeed_UnmarshalCBOR E = r_map E (SealSeed_field E) \<lparr>ssValue = [], ssEpoch = 0\<rparr>"

definition SealSeed_Equals :: "SealSeed \<Rightarrow> SealSeed \<Rightarrow> bool" where
  "SealSeed_Equals ss oss \<longleftrightarrow> ssValue ss = ssValue oss \<and> ssEpoch ss = ssEpoch oss"

section \<open>Codecs\<close>

lemma SealTicket_field_simps:
  "SealTicket_field E t ''Value'' = dbind (r_bytes E (stValue t)) (\<lambda>b. dret (t\<lparr>stValue := b\<rparr>))"
  "SealTicket_field E t ''Epoch'' = dbind (r_int E) (\<lambda>n. dret (t\<lparr>stEpoch := n\<rparr>))"
  by (simp_all add: SealTicket_field_def)

definition SealTicket_valid :: "cbor_env \<Rightarrow> SealTicket \<Rightarrow> bool" where
  "SealTicket_valid E t \<longleftrightarrow> length (stValue t) \<le> cbByteArrayMaxLen E \<and> in_i64 (stEpoch t)"

lemma reads_SealTicket:
  assumes "SealTicket_valid (lib E) t"
  shows "reads (SealTicket_UnmarshalCBOR (lib E)) (SealTicket_MarshalCBOR (lib E) (Some t)) t"
  unfolding SealTicket_UnmarshalCBOR_def SealTicket_MarshalCBOR_def w_ptr_simps using assms
  by (intro reads_map [where n = "Suc (Suc 0)"] reads_map_field [where field = "SealTicket_field (lib E)"])
    (auto simp: SealTicket_valid_def simp del: wseq.simps intro!: SealTicket_field_simps cbor_reads SealTicket.equality)

interpretation seal_ticket_codec: struct_codec "\<lambda>x. SealTicket_MarshalCBOR (lib E) (Some x)"
  "SealTicket_UnmarshalCBOR (lib E)" "SealTicket_valid (lib E)" for E
  by unfold_locales (rule reads_SealTicket, simp, simp add: SealTicket_MarshalCBOR_def nonnull_lengthBuf del: wseq.simps)

lemma SealSeed_field_simps:
  "SealSeed_field E t ''Value'' = dbind (r_bytes E (ssValue t)) (\<lambda>b. dret (t\<lparr>ssValue := b\<rparr>))"
  "SealSeed_field E t ''Epoch'' = dbind (r_int E) (\<lambda>n. dret (t\<lparr>ssEpoch := n\<rparr>))"
  by (simp_all add: SealSeed_field_def)

definition SealSeed_valid :: "cbor_env \<Rightarrow> SealSeed \<Rightarrow> bool" where
  "SealSeed_valid E t \<longleftrightarrow> length (ssValue t) \<le> cbByteArrayMaxLen E \<and> in_i64 (ssEpoch t)"

lemma reads_SealSeed:
  assumes "SealSeed_valid (lib E) t"
  shows "reads (SealSeed_UnmarshalCBOR (lib E)) (SealSeed_MarshalCBOR (lib E) (Some t)) t"
  unfolding SealSeed_UnmarshalCBOR_def SealSeed_MarshalCBOR_def w_ptr_simps using assms
  by (intro reads_map [where n = "Suc (Suc 0)"] reads_map_field [where field = "SealSeed_field (lib E)"])
    (auto simp: SealSeed_valid_def simp del: wseq.simps intro!: SealSeed_field_simps cbor_reads SealSeed.equality)

lemma SealedRef_field_simps:
  "SealedRef_field E t ''SectorID'' = dbind (r_uint E) (\<lambda>n. dret (t\<lparr>srSectorID := n\<rparr>))"
  "SealedRef_field E t ''Offset'' = dbind (r_uint E) (\<lambda>n. dret (t\<lparr>srOffset := n\<rparr>))"
  "SealedRef_field E t ''Size'' = dbind (r_uint E) (\<lambda>n. dret (t\<lparr>srSize := n\<rparr>))"
  by (simp_all add: SealedRef_field_def)

lemma reads_SealedRef:
  "reads (SealedRef_UnmarshalCBOR (lib E)) (SealedRef_MarshalCBOR (lib E) (Some t)) t"
  unfolding SealedRef_UnmarshalCBOR_def SealedRef_MarshalCBOR_def w_ptr_simps
  by (intro reads_map [where n = "Suc (Suc (Suc 0))"] reads_map_field [where field = "SealedRef_field (lib E)"])
    (auto simp del: wseq.simps intro!: SealedRef_field_simps cbor_reads SealedRef.equality)

interpretation sealed_ref_codec: struct_codec "\<lambda>x. SealedRef_MarshalCBOR (lib E) (Some x)"
  "SealedRef_UnmarshalCBOR (lib E)" "\<lambda>_. True" for E
  by unfold_locales (rule reads_SealedRef, simp add: SealedRef_MarshalCBOR_def nonnull_lengthBuf del: wseq.simps)

lemma SealedRefs_field_simps:
  "SealedRefs_field E t ''Refs'' = dbind (r_slice E (SealedRef_UnmarshalCBOR E) (srsRefs t)) (\<lambda>rs. dret (t\<lparr>srsRefs := rs\<rparr>))"
  by (simp_all add: SealedRefs_field_def)

lemma reads_SealedRefs:
  assumes "length (srsRefs t) \<le> cbMaxLength (lib E)"
  shows "reads (SealedRefs_UnmarshalCBOR (lib E)) (SealedRefs_MarshalCBOR (lib E) (Some t)) t"
  unfolding SealedRefs_UnmarshalCBOR_def SealedRefs_MarshalCBOR_def w_ptr_simps using assms
  by (intro reads_map [where n = "Suc 0"] reads_map_field [where field = "SealedRefs_field (lib E)"])
    (auto simp: list_all_iff simp del: wseq.simps intro!: SealedRefs_field_simps sealed_ref_codec.slice cbor_reads SealedRefs.equality)

lemma VoucherInfo_field_simps:
  "VoucherInfo_field E svU t ''Voucher'' = dbind (r_ptr svU (viVoucher t)) (\<lambda>v. dret (t\<lparr>viVoucher := v\<rparr>))"
  "VoucherInfo_field E svU t ''Proof'' = dbind (r_bytes E (viProof t)) (\<lambda>b. dret (t\<lparr>viProof := b\<rparr>))"
  by (simp_all add: VoucherInfo_field_def)

definition VoucherInfo_valid :: "cbor_env \<Rightarrow> ('v \<Rightarrow> bool) \<Rightarrow> 'v VoucherInfo \<Rightarrow> bool" where
  "VoucherInfo_valid E svV t \<longleftrightarrow> pred_option svV (viVoucher t) \<and> length (viProof t) \<le> cbByteArrayMaxLen E"

lemma VoucherInfo_codec:
  assumes "struct_codec (\<lambda>v. svM (Some v)) svU svV" and "svM None = Inr [CborNull]"
  shows "struct_codec (\<lambda>x. VoucherInfo_MarshalCBOR (lib E) svM (Some x)) (VoucherInfo_UnmarshalCBOR (lib E) svU)
    (VoucherInfo_valid (lib E) svV)"
proof -
  note v = struct_codec.ptr [OF assms(1), where m = svM, OF assms(2) refl]
  have "reads (VoucherInfo_UnmarshalCBOR (lib E) svU) (VoucherInfo_MarshalCBOR (lib E) svM (Some t)) t"
    if "VoucherInfo_valid (lib E) svV t" for t
    unfolding VoucherInfo_UnmarshalCBOR_def VoucherInfo_MarshalCBOR_def w_ptr_simps using that
    by (intro reads_map [where n = "Suc (Suc 0)"] reads_map_field [where field = "VoucherInfo_field (lib E) svU"])
      (auto simp: VoucherInfo_valid_def simp del: wseq.simps intro!: VoucherInfo_field_simps v cbor_reads VoucherInfo.equality)
  then show ?thesis
    by unfold_locales (simp_all add: VoucherInfo_MarshalCBOR_def nonnull_lengthBuf del: wseq.simps)
qed

lemma ChannelInfo_field_simps:
  "ChannelInfo_field E svU t ''Channel'' = dbind (addrUnmarshal E) (\<lambda>a. dret (t\<lparr>ciChannel := a\<rparr>))"
  "ChannelInfo_field E svU t ''Control'' = dbind (addrUnmarshal E) (\<lambda>a. dret (t\<lparr>ciControl := a\<rparr>))"
  "ChannelInfo_field E svU t ''Target'' = dbind (addrUnmarshal E) (\<lambda>a. dret (t\<lparr>ciTarget := a\<rparr>))"
  "ChannelInfo_field E svU t ''Direction'' = dbind (r_uint E) (\<lambda>d. dret (t\<lparr>ciDirection := d\<rparr>))"
  "ChannelInfo_field E svU t ''Vouchers'' = dbind (r_slice E (VoucherInfo_UnmarshalCBOR E svU) (ciVouchers t)) (\<lambda>vs. dret (t\<lparr>ciVouchers := vs\<rparr>))"
  "ChannelInfo_field E svU t ''NextLane'' = dbind (r_uint E) (\<lambda>n. dret (t\<lparr>ciNextLane := n\<rparr>))"
  by (simp_all add: ChannelInfo_field_def)

definition ChannelInfo_valid :: "cbor_env \<Rightarrow> ('v \<Rightarrow> bool) \<Rightarrow> 'v ChannelInfo \<Rightarrow> bool" where
  "ChannelInfo_valid E svV t \<longleftrightarrow> addrValid E (ciChannel t) \<and> addrValid E (ciControl t) \<and> addrValid E (ciTarget t) \<and>
     length (ciVouchers t) \<le> cbMaxLength E \<and> list_all (VoucherInfo_valid E svV) (ciVouchers t)"

lemma reads_ChannelInfo:
  assumes "struct_codec (\<lambda>v. svM (Some v)) svU svV" and "svM None = Inr [CborNull]" and "ChannelInfo_valid (lib E) svV t"
  shows "reads (ChannelInfo_UnmarshalCBOR (lib E) svU) (ChannelInfo_MarshalCBOR (lib E) svM (Some t)) t"
proof -
  note v = codec.slice [OF struct_codec.axioms(1) [OF VoucherInfo_codec [OF assms(1,2)]] lib_laws]
  show ?thesis
    unfolding ChannelInfo_UnmarshalCBOR_def ChannelInfo_MarshalCBOR_def w_ptr_simps using assms(3)
    by (intro reads_map [where n = "Suc (Suc (Suc (Suc (Suc (Suc 0)))))"] reads_map_field [where field = "ChannelInfo_field (lib E) svU"])
      (auto simp: ChannelInfo_valid_def zeroChannelInfo_def simp del: wseq.simps
        intro!: ChannelInfo_field_simps v cbor_reads ChannelInfo.equality)
qed

lemma PaymentInfo_field_simps:
  "PaymentInfo_field E svU t ''Channel'' = dbind (addrUnmarshal E) (\<lambda>a. dret (t\<lparr>piChannel := a\<rparr>))"
  "PaymentInfo_field E svU t ''ChannelMessage'' = dbind (r_ptr (cbReadCid E) (piChannelMessage t)) (\<lambda>c. dret (t\<lparr>piChannelMessage := c\<rparr>))"
  "PaymentInfo_field E svU t ''Vouchers'' = dbind (r_slice E svU (piVouchers t)) (\<lambda>vs. dret (t\<lparr>piVouchers := vs\<rparr>))"
  by (simp_all add: PaymentInfo_field_def)

definition PaymentInfo_valid :: "cbor_env \<Rightarrow> ('v \<Rightarrow> bool) \<Rightarrow> 'v PaymentInfo \<Rightarrow> bool" where
  "PaymentInfo_valid E svV t \<longleftrightarrow> addrValid E (piChannel t) \<and> pred_option (cidValid E) (piChannelMessage t) \<and>
     length (piVouchers t) \<le> cbMaxLength E \<and> list_all svV (piVouchers t)"

lemma reads_PaymentInfo:
  assumes "struct_codec (\<lambda>v. svM (Some v)) svU svV" and "PaymentInfo_valid (lib E) svV t"
  shows "reads (PaymentInfo_UnmarshalCBOR (lib E) svU) (PaymentInfo_MarshalCBOR (lib E) svM (Some t)) t"
proof -
  note v = codec.slice [OF struct_codec.axioms(1) [OF assms(1)] lib_laws]
  have c: "reads (r_ptr (cbReadCid (lib E)) None) (w_ptr (cbWriteCid (lib E)) (piChannelMessage t)) (piChannelMessage t)"
    by (rule reads_ptr) (use assms(2) lib_laws [of E] in \<open>auto simp: PaymentInfo_valid_def cbor_laws_def simp del: lib_laws\<close>)
  show ?thesis
    unfolding PaymentInfo_UnmarshalCBOR_def PaymentInfo_MarshalCBOR_def w_ptr_simps using assms(2)
    by (intro reads_map [where n = "Suc (Suc (Suc 0))"] reads_map_field [where field = "PaymentInfo_field (lib E) svU"])
      (auto simp: PaymentInfo_valid_def simp del: wseq.simps intro!: PaymentInfo_field_simps c v cbor_reads PaymentInfo.equality)
qed

section \<open>Properties\<close>

text \<open>
  C36. The records the node stores as CBOR maps are read back as stored: channels with their
  vouchers, payment information, sealed sector references, seal tickets and seeds. The vouchers'
  own encoding is that of another module, taken to be a codec that writes nil as null.
\<close>

theorem stored_maps_roundtrip:
  assumes "cbor_laws E" and "struct_codec (\<lambda>v. svM (Some v)) svU svV" and "svM None = Inr [CborNull]"
  shows "(ChannelInfo_valid E svV ci \<longrightarrow> reads (ChannelInfo_UnmarshalCBOR E svU) (ChannelInfo_MarshalCBOR E svM (Some ci)) ci) \<and>
    (VoucherInfo_valid E svV vi \<longrightarrow> reads (VoucherInfo_UnmarshalCBOR E svU) (VoucherInfo_MarshalCBOR E svM (Some vi)) vi) \<and>
    (PaymentInfo_valid E svV pay \<longrightarrow> reads (PaymentInfo_UnmarshalCBOR E svU) (PaymentInfo_MarshalCBOR E svM (Some pay)) pay) \<and>
    (length (srsRefs rs) \<le> cbMaxLength E \<longrightarrow> reads (SealedRefs_UnmarshalCBOR E) (SealedRefs_MarshalCBOR E (Some rs)) rs) \<and>
    reads (SealedRef_UnmarshalCBOR E) (SealedRef_MarshalCBOR E (Some ref)) ref \<and>
    (SealTicket_valid E st \<longrightarrow> reads (SealTicket_UnmarshalCBOR E) (SealTicket_MarshalCBOR E (Some st)) st) \<and>
    (SealSeed_valid E sd \<longrightarrow> reads (SealSeed_UnmarshalCBOR E) (SealSeed_MarshalCBOR E (Some sd)) sd)"
proof -
  obtain L where "E = lib L" using lib_cases [OF assms(1)] .
  then show ?thesis
    using reads_ChannelInfo [OF assms(2,3)] codec.roundtrip [OF struct_codec.axioms(1) [OF VoucherInfo_codec [OF assms(2,3)]]]
      reads_PaymentInfo [OF assms(2)] reads_SealedRefs reads_SealedRef reads_SealTicket reads_SealSeed by simp
qed

definition wit_channel :: "bytes ChannelInfo" where
  "wit_channel = \<lparr>ciChannel = ''c'', ciControl = ''a'', ciTarget = ''b'', ciDirection = 1,
     ciVouchers = [\<lparr>viVoucher = Some ''v'', viProof = ''p''\<rparr>, \<lparr>viVoucher = None, viProof = []\<rparr>], ciNextLane = 2\<rparr>"

theorem stored_maps_roundtrip_witness:
  "reads (ChannelInfo_UnmarshalCBOR wit_cbor_env wit_unblob) (ChannelInfo_MarshalCBOR wit_cbor_env (w_ptr wit_blob) (Some wit_channel)) wit_channel"
proof -
  have c: "struct_codec (\<lambda>v. w_ptr wit_blob (Some v)) wit_unblob (\<lambda>_. True)"
    by unfold_locales (simp_all add: wit_reads_blob)
  have "ChannelInfo_valid wit_cbor_env (\<lambda>_. True) wit_channel"
    by (simp add: ChannelInfo_valid_def VoucherInfo_valid_def wit_channel_def wit_cbor_env_def)
  with stored_maps_roundtrip [OF wit_cbor_laws c w_ptr_simps(1)] show ?thesis by blast
qed

text \<open>
  C37. A field that occurs twice in a stored map is not read as the encoding says: when the second
  occurrence of a byte string is empty, the reader takes as many bytes as the first one had from
  what follows it. The encoding of a seal ticket whose value is given twice, first \<open>xyz\<close> and then
  empty, is decoded to the three bytes after the empty value.
\<close>

theorem repeated_field_overread:
  assumes "cbor_laws E" and "length v \<le> cbByteArrayMaxLen E" and "v \<noteq> []" and "length junk = length v"
  shows "\<exists>bs. wseq [lengthBuf 162, w_string E ''Value'', w_bytes E v, w_string E ''Value'', w_bytes E []] = Inr bs \<and>
    SealTicket_UnmarshalCBOR E (bs @ junk @ rest) = Inr (\<lparr>stValue = junk, stEpoch = 0\<rparr>, rest)"
proof -
  have "length ''Value'' \<le> cbMaxLength E" using assms(1) by (simp add: cbor_laws_def)
  from reads_library(6) [OF assms(1) this] obtain sb where
    sb: "w_string E ''Value'' = Inr sb" "\<And>r. cbReadString E (sb @ r) = Inr (''Value'', r)" by (auto simp: reads_def)
  from reads_bytes [OF assms(1,2)] obtain bv where
    bv: "w_bytes E v = Inr bv" "\<And>r. r_bytes E [] (bv @ r) = Inr (v, r)" by (auto simp: reads_def)
  define hb where "hb = cbWriteHeader E MajByteString 0"
  have hb: "w_bytes E [] = Inr hb" by (simp add: w_bytes_def hb_def)
  have "reads (cbReadHeader E) (Inr hb) (MajByteString, 0)"
    unfolding hb_def by (rule reads_header [OF assms(1)]) (simp add: MajByteString_def)
  then have "r_bytes E v (hb @ junk @ rest) = Inr (junk, rest)"
    using readFull_append [of junk rest] by (simp add: reads_def r_bytes_def dbind_def assms(4))
  moreover note reads_map_head [OF assms(1), of 2]
  then have "cbReadHeader E (char_of (162 :: nat) # r) = Inr ((MajMap, 2), r)" for r by (simp add: reads_def lengthBuf_def)
  moreover have "2 \<le> cbMaxLength E" using assms(1) by (simp add: cbor_laws_def)
  moreover have "r_map_loop E (SealTicket_field E) 2 = r_map_loop E (SealTicket_field E) (Suc (Suc 0))"
    by (simp only: numeral_2_eq_2)
  ultimately show ?thesis
    by (simp add: SealTicket_UnmarshalCBOR_def r_map_def dbind_def dret_def lengthBuf_def sb bv hb SealTicket_field_simps)
qed

theorem repeated_field_overread_witness:
  "\<exists>bs. wseq [lengthBuf 162, w_string wit_cbor_env ''Value'', w_bytes wit_cbor_env ''xyz'', w_string wit_cbor_env ''Value'', w_bytes wit_cbor_env []] = Inr bs \<and>
     SealTicket_UnmarshalCBOR wit_cbor_env (bs @ ''abc'' @ ''d'') = Inr (\<lparr>stValue = ''abc'', stEpoch = 0\<rparr>, ''d'')"
  by (rule repeated_field_overread [OF wit_cbor_laws]) (simp_all add: wit_cbor_env_def)

end
