(* ===== verification/Spec2Isabelle.thy ===== *)
theory Spec2Isabelle
  imports Mpool_Keep Chain_Head Chain_Messages VM_Faults Sync_Inv Cbor_Net Cbor_Maps
begin

text \<open>
  Verification development for Lotus, the Go implementation of the Filecoin node.

  \<^bold>\<open>The program.\<close> A Lotus node follows a chain of tipsets. A tipset is a set of block headers that
  share their height and their parents. Blocks and messages arrive from the network, encoded in
  CBOR. The sync manager decides which announced heads to sync, the chain store keeps the blocks
  and chooses the heaviest tipset as the head, the virtual machine applies the messages of a
  tipset to a state tree of actors, and the message pool holds the messages that are not in a
  block yet and follows the changes of the head. The theories model these parts. They share the
  data types of \<open>chain/types\<close>, and every definition keeps the name of the Go declaration it
  translates, or the name of the function with a suffix for a loop or a branch of it.

  \<^bold>\<open>Conventions.\<close> A struct is a record, a Go map is a partial map or, where its order shows, an
  association list whose order is an argument. Byte slices, CIDs and addresses are strings of
  bytes; \<open>uint64\<close> is a 64-bit word, \<open>int64\<close> an integer with its wrap-around written out (\<open>i64\<close>), and
  \<open>big.Int\<close> an integer. An error is the left value of a sum, and a panic is an error of its own. A
  nil pointer is \<open>None\<close>. Stateful code takes its state and returns it changed, on error paths as
  well. Code outside the repository (the CID, CBOR, HAMT and AMT libraries, signatures, the block
  and data stores, caches, actor code) is a parameter, held in the \<open>env\<close> records; where a property
  needs something of it, the documented behaviour is a named hypothesis, and the witness of the
  property has a concrete instance for which it holds.

  \<^bold>\<open>Theories.\<close>

  \<^item> \<open>Prelude\<close>: machine integers, \<open>sort.Slice\<close> (\<open>sort_slice\<close>, with the locale of strict weak orders
    under which it sorts, interpreted for the weights of tipsets and used for tickets), lists and
    maps.

  \<^item> \<open>Tipset\<close>, \<open>Tipset_Key\<close>: \<open>chain/types/blockheader.go\<close>, \<open>tipset.go\<close> and \<open>tipset_key.go\<close>. A
    tipset is built exactly from blocks of one height with the same parents, in the order of their
    tickets whatever the order they come in, the block with the least ticket is the
    first, and keys identify tipsets and decode to their CIDs.

  \<^item> \<open>Statetree\<close>: \<open>chain/state/statetree.go\<close>. The layers of snapshots over the HAMT refine one map
    with nested transactions; \<open>Flush\<close> persists the current view.

  \<^item> \<open>Message\<close>, \<open>Gas\<close>, \<open>Aerrors\<close>: \<open>chain/types/message.go\<close>, \<open>chain/vm/gas.go\<close> and \<open>gas_v0.go\<close>,
    \<open>chain/actors/aerrors\<close>.

  \<^item> \<open>VM_Runtime\<close>: \<open>chain/vm/vm.go\<close>, \<open>runtime.go\<close>, \<open>mkactor.go\<close> and \<open>invoker.go\<close>. Actor code is a
    datatype of the calls it may make of its runtime, and the runtime a state with panics.
    \<open>VM_Funds\<close>, \<open>VM_Meter\<close> and \<open>VM_Fuel\<close> prove of every operation what it does to the sum of the
    balances, to the gas meter and to the depth of calls, through the locale \<open>rt_relation\<close> of
    relations that the combinators of the runtime keep. \<open>VM_Apply\<close> concludes for \<open>ApplyMessage\<close>: no
    message mints funds, failed messages have no effect but on nonce, gas and reward, the gas used
    is within the limit, messages that may not run are turned down with the right code and
    penalty, and application ends. Its fuel is the number of nested calls; a call
    costs gas, so a fuel above the gas limit divided by the price of a call is never used up
    (\<open>ApplyMessage_terminates\<close>). \<open>VM_Faults\<close> is \<open>VerifyConsensusFault\<close> of \<open>chain/vm/syscalls.go\<close>:
    only a miner who signed two conflicting blocks is reported.

  \<^item> \<open>Sync_Manager\<close>, \<open>Sync_Inv\<close>: \<open>chain/sync_manager.go\<close>. The scheduler, its unbuffered channels and
    its workers are a step relation. Reachable states never panic, and the scheduler comes to
    rest with every queued target handed out, except that a failed bootstrap can stall it.

  \<^item> \<open>Cbor\<close>, \<open>Cbor_Types\<close>, \<open>Cbor_Net\<close>, \<open>Cbor_Maps\<close>: the generated \<open>cbor_gen.go\<close> of \<open>chain/types\<close>,
    \<open>chain/blocksync\<close>, \<open>node/hello\<close>, \<open>paychmgr\<close> and \<open>api\<close>. Codecs are locales, interpreted for each
    type; every reader undoes its writer, and CIDs tell headers apart where the hash does not collide.

  \<^item> \<open>Messagepool\<close>, \<open>Mpool_Prune\<close>: \<open>chain/messagepool/messagepool.go\<close>, \<open>pruning.go\<close> and \<open>gasguess\<close>.
    \<open>Mpool_Inv\<close> treats the operations once for every invariant that survives adding and removing a
    message (locale \<open>pool_invariant\<close>, interpreted for the shape of the pool and for its nonces).
    \<open>Mpool_Props\<close> and \<open>Mpool_Keep\<close> show what \<open>Add\<close> and \<open>HeadChange\<close> do, which nonces are handed out,
    what the signature cache lets through and what pruning keeps. The selection loop of pruning
    ends by a measure; floating point is a parameter.

  \<^item> \<open>Chain_Index\<close>: \<open>chain/store/index.go\<close> and the walks of \<open>chain/store/store.go\<close>. Their loops stop
    only where the loaded heights make them stop, so they are partial functions, and the properties
    show that they return on chains: lookups by height through the skip list agree with walking
    back, \<open>ReorgOps\<close> finds the nearest common ancestor. \<open>IsAncestorOf\<close> does not return for ancestors
    other than the parent, and the skip list fails over one kind of run of null rounds.
    The 20 turns of the beacon search are the loop bound of the code.

  \<^item> \<open>Chain_Store\<close>: \<open>chain/store/store.go\<close>, \<open>weight.go\<close> and \<open>fts.go\<close>. \<open>Chain_Head\<close> shows that \<open>AddBlock\<close>
    keeps the heavier tipset as the head and that subscribers who follow the notifications see the
    chain of the head, in every interleaving of operations and turns of the reorganisation worker.
    \<open>Chain_Messages\<close> shows that the messages executed for a tipset are the replay of each account.

  \<^bold>\<open>Not modelled.\<close> The rest of the repository is, for the most part, code that moves data between
  libraries and the outside: the JSON-RPC API and its implementations (\<open>api\<close>, \<open>node/impl\<close>), the
  command line (\<open>cli\<close>, \<open>cmd\<close>), the dependency wiring and repositories of the node (\<open>node\<close>), market
  adapters (\<open>markets\<close>), the storage miner (\<open>storage\<close>, \<open>miner\<close>), events and wallets over the
  API (\<open>chain/events\<close>, \<open>chain/wallet\<close>), genesis building and test tools (\<open>chain/gen\<close>,
  \<open>chain/validation\<close>, \<open>chain/vectors\<close>, \<open>tools\<close>, \<open>lotuspond\<close>), caches and adapters for stores (\<open>lib\<close>).
  Of the chain itself, block validation and collection (\<open>chain/sync.go\<close>), the block sync service,
  the state manager (\<open>chain/stmgr\<close>), the beacon and the pubsub validators are not modelled: they
  interleave network requests and third-party proofs with the parts modelled here. In the chain
  store, \<open>Export\<close> and \<open>Import\<close> of CAR files and the forwarding of notifications to channels are left
  out; in the message pool, the subscription \<open>Updates\<close>; in the syscalls, the proof verifiers.
  Logging, metrics, tracing and the journal are left out everywhere, and goroutines only appear
  where a step relation or a list of operations makes their interleaving explicit.
\<close>

end
